(* ===== verification/Prelude.thy ===== *)
theory Prelude
  imports Main "HOL-Library.Word"
begin

unbundle bit_operations_syntax

text \<open>
  Shared ground of the development: C integer conversions, memory blocks as lists, index-linked
  lists, C strings, and the fact collections the component theories use.

  \<^item> An unsigned C integer is a \<open>nat\<close>, with the wrap-around of its width written where the code
    stores an arithmetic result; a signed one is an \<open>int\<close> (signed overflow is undefined in C, so a
    run that reaches it is outside the model).
  \<^item> A byte is a \<open>nat\<close> below 256; plain \<open>char\<close> is unsigned, as on the ARM targets of the corecell
    platform.
  \<^item> A failing \<open>assert\<close> and an access outside an array are the value \<open>None\<close>.
\<close>

section \<open>Integer types of rt.h\<close>

type_synonym u1 = nat
type_synonym u2 = nat
type_synonym u4 = nat
type_synonym uL = nat
type_synonym s1 = int
type_synonym s2 = int
type_synonym s4 = int
type_synonym sL = int
type_synonym ustime = int
type_synonym bytes = "nat list"

text \<open>Conversion of a value to an unsigned type of \<open>w\<close> bits, and to a signed one.\<close>

definition to_u :: "nat \<Rightarrow> int \<Rightarrow> nat" where
  "to_u w x = nat (x mod 2 ^ w)"

definition to_s :: "nat \<Rightarrow> int \<Rightarrow> int" where
  "to_s w x = (x + 2 ^ (w - 1)) mod 2 ^ w - 2 ^ (w - 1)"

lemma to_u_less: "to_u w x < 2 ^ w"
  by (simp add: to_u_def nat_less_iff)

lemma to_u_id: "0 \<le> x \<Longrightarrow> x < 2 ^ w \<Longrightarrow> to_u w x = nat x"
  by (simp add: to_u_def)

lemma to_s_id: "0 < w \<Longrightarrow> - (2 ^ (w - 1)) \<le> x \<Longrightarrow> x < 2 ^ (w - 1) \<Longrightarrow> to_s w x = x"
  by (cases w) (auto simp: to_s_def)

lemma to_s_bounds: "0 < w \<Longrightarrow> - (2 ^ (w - 1)) \<le> to_s w x \<and> to_s w x < 2 ^ (w - 1)"
  by (cases w) (auto simp: to_s_def pos_mod_bound intro: less_le_trans [OF pos_mod_bound])

text \<open>Division and remainder of C, which truncate towards zero.\<close>

definition c_div :: "int \<Rightarrow> int \<Rightarrow> int" where
  "c_div a b = sgn a * sgn b * (\<bar>a\<bar> div \<bar>b\<bar>)"

definition c_mod :: "int \<Rightarrow> int \<Rightarrow> int" where
  "c_mod a b = a - c_div a b * b"

lemma c_div_nonneg: "0 \<le> a \<Longrightarrow> 0 < b \<Longrightarrow> c_div a b = a div b"
  by (cases "a = 0") (simp_all add: c_div_def)

lemma c_mod_nonneg: "0 \<le> a \<Longrightarrow> 0 < b \<Longrightarrow> c_mod a b = a mod b"
  by (simp add: c_mod_def c_div_nonneg minus_div_mult_eq_mod)

lemma c_div_mod: "c_div a b * b + c_mod a b = a"
  by (simp add: c_mod_def)

lemma c_mod_abs_less:
  assumes "0 < b"
  shows "\<bar>c_mod a b\<bar> < b"
proof -
  have "c_mod a b = sgn a * (\<bar>a\<bar> mod b)"
    using assms
    by (cases "a = 0")
       (simp_all add: c_mod_def c_div_def minus_div_mult_eq_mod [symmetric] sgn_if algebra_simps)
  then have "\<bar>c_mod a b\<bar> \<le> \<bar>a\<bar> mod b"
    using assms by (simp add: abs_mult sgn_if)
  then show ?thesis using assms by (meson le_less_trans pos_mod_bound)
qed

section \<open>Memory blocks\<close>

text \<open>\<open>memmove(&xs[dst], &xs[src], n)\<close> inside one array.\<close>

definition memmove :: "nat \<Rightarrow> nat \<Rightarrow> nat \<Rightarrow> 'a list \<Rightarrow> 'a list" where
  "memmove dst src n xs = take dst xs @ take n (drop src xs) @ drop (dst + n) xs"

lemma length_memmove [simp]:
  "dst + n \<le> length xs \<Longrightarrow> src + n \<le> length xs \<Longrightarrow> length (memmove dst src n xs) = length xs"
  by (simp add: memmove_def)

lemma nth_memmove:
  assumes "dst + n \<le> length xs" and "src + n \<le> length xs" and "i < length xs"
  shows "memmove dst src n xs ! i =
    (if dst \<le> i \<and> i < dst + n then xs ! (src + (i - dst)) else xs ! i)"
proof -
  have "length (take n (drop src xs)) = n" using assms(2) by simp
  then show ?thesis using assms by (auto simp: memmove_def nth_append)
qed

text \<open>The bytes of a block: \<open>len\<close> bytes from offset \<open>off\<close>.\<close>

definition blk :: "nat \<Rightarrow> nat \<Rightarrow> 'a list \<Rightarrow> 'a list" where
  "blk off len xs = take len (drop off xs)"

lemma length_blk [simp]: "off + len \<le> length xs \<Longrightarrow> length (blk off len xs) = len"
  by (simp add: blk_def)

lemma blk_0 [simp]: "blk off 0 xs = []"
  by (simp add: blk_def)

lemma nth_blk: "off + len \<le> length xs \<Longrightarrow> i < len \<Longrightarrow> blk off len xs ! i = xs ! (off + i)"
  by (simp add: blk_def)

lemma blk_eqI:
  assumes "off + len \<le> length xs" and "off' + len \<le> length ys"
    and "\<And>i. i < len \<Longrightarrow> xs ! (off + i) = ys ! (off' + i)"
  shows "blk off len xs = blk off' len ys"
  using assms by (auto intro!: nth_equalityI simp: nth_blk)

text \<open>Writing a run of bytes at an offset.\<close>

definition blit :: "nat \<Rightarrow> 'a list \<Rightarrow> 'a list \<Rightarrow> 'a list" where
  "blit off ys xs = take off xs @ ys @ drop (off + length ys) xs"

lemma length_blit [simp]: "off + length ys \<le> length xs \<Longrightarrow> length (blit off ys xs) = length xs"
  by (simp add: blit_def)

lemma blk_blit_same: "off + length ys \<le> length xs \<Longrightarrow> blk off (length ys) (blit off ys xs) = ys"
  by (simp add: blk_def blit_def)

lemma nth_blit:
  assumes "off + length ys \<le> length xs" and "i < length xs"
  shows "blit off ys xs ! i = (if off \<le> i \<and> i < off + length ys then ys ! (i - off) else xs ! i)"
  using assms by (auto simp: blit_def nth_append min_def)

lemma blk_blit_below:
  "o' + l \<le> off \<Longrightarrow> off + length ys \<le> length xs \<Longrightarrow> blk o' l (blit off ys xs) = blk o' l xs"
  by (rule blk_eqI) (auto simp: nth_blit)

text \<open>A set that loses an element on the way.\<close>

lemma psubset_via: "A \<subseteq> B \<Longrightarrow> B \<subseteq> C \<Longrightarrow> x \<notin> B \<Longrightarrow> x \<in> C \<Longrightarrow> A \<subset> C"
  by blast

section \<open>C strings\<close>

text \<open>
  A zero-terminated string is the list of its bytes without the terminator; reading at or past
  the end gives the terminator. A pointer into a string is an offset.
\<close>

definition ch :: "bytes \<Rightarrow> nat \<Rightarrow> nat" where
  "ch s i = (if i < length s then s ! i else 0)"

lemma ch_beyond [simp]: "length s \<le> i \<Longrightarrow> ch s i = 0"
  by (simp add: ch_def)

definition bytes_of :: "string \<Rightarrow> bytes" where
  "bytes_of s = map (\<lambda>c. of_char c) s"

section \<open>Index-linked lists\<close>

text \<open>
  Both the timer queue and the TX queues are singly linked lists that end in a marker \<open>e\<close>.
  \<open>path nx e p xs\<close>: starting from the link value \<open>p\<close>, the list runs through the elements \<open>xs\<close> and
  ends at \<open>e\<close>; \<open>nx\<close> gives the link stored in an element.
\<close>

fun path :: "(nat \<Rightarrow> nat) \<Rightarrow> nat \<Rightarrow> nat \<Rightarrow> nat list \<Rightarrow> bool" where
  "path nx e p [] = (p = e)"
| "path nx e p (x # xs) = (p = x \<and> x \<noteq> e \<and> path nx e (nx x) xs)"

lemma path_end [simp]: "path nx e e xs = (xs = [])"
  by (cases xs) auto

lemma path_not_end: "p \<noteq> e \<Longrightarrow> path nx e p xs = (\<exists>ys. xs = p # ys \<and> path nx e (nx p) ys)"
  by (cases xs) auto

lemma path_upd [simp]: "i \<notin> set xs \<Longrightarrow> path (nx(i := v)) e p xs = path nx e p xs"
  by (induction xs arbitrary: p) auto

lemma path_end_notin: "path nx e p xs \<Longrightarrow> e \<notin> set xs"
  by (induction xs arbitrary: p) auto

lemma path_unique: "path nx e p xs \<Longrightarrow> path nx e p ys \<Longrightarrow> xs = ys"
  by (induction xs arbitrary: p ys) (auto simp: path_not_end)

lemma path_tail: "path nx e p (xs @ y # ys) \<Longrightarrow> path nx e (nx y) ys"
  by (induction xs arbitrary: p) auto

lemma path_distinct: "path nx e p xs \<Longrightarrow> distinct xs"
proof (induction xs arbitrary: p)
  case (Cons x xs)
  have "x \<notin> set xs"
  proof
    assume "x \<in> set xs"
    then obtain ys zs where xs: "xs = ys @ x # zs" by (auto simp: in_set_conv_decomp)
    have "path nx e (nx x) zs" using Cons.prems path_tail [of nx e p "x # ys"] xs by simp
    moreover have "path nx e (nx x) xs" using Cons.prems by simp
    ultimately have "xs = zs" by (rule path_unique [rotated])
    then show False using xs by (metis length_append_singleton append_Cons append_Nil append_assoc
          length_append not_add_less2 lessI add_Suc_right length_Cons)
  qed
  with Cons show ?case by auto
qed simp

text \<open>Linking a fresh element \<open>x\<close> in after \<open>y\<close>, and at the front.\<close>

lemma path_insert_after:
  "path nx e p (xs @ y # ys) \<Longrightarrow> x \<notin> set (xs @ y # ys) \<Longrightarrow> x \<noteq> e \<Longrightarrow>
    path (nx(x := nx y, y := x)) e p (xs @ y # x # ys)"
proof (induction xs arbitrary: p)
  case Nil
  have "distinct (y # ys)" using path_distinct [of nx e p "y # ys"] Nil by simp
  with Nil show ?case by (simp del: fun_upd_apply add: fun_upd_same fun_upd_other)
next
  case (Cons a xs)
  have "distinct (a # xs @ y # ys)" using path_distinct [of nx e p "a # xs @ y # ys"] Cons by simp
  with Cons show ?case by simp
qed

lemma path_insert_front:
  "path nx e p xs \<Longrightarrow> x \<notin> set xs \<Longrightarrow> x \<noteq> e \<Longrightarrow> path (nx(x := p)) e x (x # xs)"
  by (simp del: fun_upd_apply add: fun_upd_same)

text \<open>Unlinking the element after \<open>y\<close>.\<close>

lemma path_remove_after:
  "path nx e p (xs @ y # x # ys) \<Longrightarrow> path (nx(y := nx x, x := v)) e p (xs @ y # ys)"
proof (induction xs arbitrary: p)
  case Nil
  have "distinct (y # x # ys)" using path_distinct [of nx e p "y # x # ys"] Nil by simp
  with Nil show ?case by (simp del: fun_upd_apply add: fun_upd_same fun_upd_other)
next
  case (Cons a xs)
  have "distinct (a # xs @ y # x # ys)"
    using path_distinct [of nx e p "a # xs @ y # x # ys"] Cons by simp
  with Cons show ?case by simp
qed

section \<open>Insertion by key\<close>

text \<open>
  The abstract step of an ordered insertion: \<open>x\<close> goes before the first element with a larger
  key, so after all elements with the same key.
\<close>

fun ins_by :: "('x \<Rightarrow> int) \<Rightarrow> 'x \<Rightarrow> 'x list \<Rightarrow> 'x list" where
  "ins_by k x [] = [x]"
| "ins_by k x (y # ys) = (if k x < k y then x # y # ys else y # ins_by k x ys)"

abbreviation sorted_by :: "('x \<Rightarrow> int) \<Rightarrow> 'x list \<Rightarrow> bool" where
  "sorted_by k \<equiv> sorted_wrt (\<lambda>a b. k a \<le> k b)"

lemma set_ins_by [simp]: "set (ins_by k x xs) = insert x (set xs)"
  by (induction xs) auto

lemma length_ins_by [simp]: "length (ins_by k x xs) = Suc (length xs)"
  by (induction xs) auto

lemma ins_by_nonempty [simp]: "ins_by k x xs \<noteq> []"
  by (cases xs) auto

lemma distinct_ins_by [simp]: "distinct (ins_by k x xs) \<longleftrightarrow> x \<notin> set xs \<and> distinct xs"
  by (induction xs) auto

lemma sorted_ins_by: "sorted_by k xs \<Longrightarrow> sorted_by k (ins_by k x xs)"
  by (induction xs) (auto intro: order.strict_implies_order)

lemma ins_by_cong: "(\<And>y. y \<in> insert x (set xs) \<Longrightarrow> k y = k' y) \<Longrightarrow> ins_by k x xs = ins_by k' x xs"
  by (induction xs) auto

lemma filter_ins_by_same_key:
  "sorted_by k xs \<Longrightarrow> filter (\<lambda>y. k y = k x) (ins_by k x xs) = filter (\<lambda>y. k y = k x) xs @ [x]"
proof (induction xs)
  case (Cons y ys)
  show ?case
  proof (cases "k x < k y")
    case True
    with Cons.prems have "\<forall>z \<in> set (y # ys). k z \<noteq> k x" by auto
    then have e: "filter (\<lambda>z. k z = k x) (y # ys) = []" by (simp only: filter_empty_conv)
    have "ins_by k x (y # ys) = x # (y # ys)" using True by simp
    then show ?thesis using e by (simp only: filter.simps) simp
  next
    case False
    with Cons show ?thesis by simp
  qed
qed simp

lemma ins_by_split:
  "\<exists>us vs. xs = us @ vs \<and> ins_by k x xs = us @ x # vs \<and> (\<forall>u \<in> set us. k u \<le> k x) \<and>
     (vs \<noteq> [] \<longrightarrow> k x < k (hd vs))"
proof (induction xs)
  case (Cons y ys)
  then obtain us vs where *: "ys = us @ vs" "ins_by k x ys = us @ x # vs"
    "\<forall>u \<in> set us. k u \<le> k x" "vs \<noteq> [] \<longrightarrow> k x < k (hd vs)" by blast
  show ?case
  proof (cases "k x < k y")
    case True
    then show ?thesis by (intro exI [of _ "[]"] exI [of _ "y # ys"]) simp
  next
    case False
    with * show ?thesis by (intro exI [of _ "y # us"] exI [of _ vs]) auto
  qed
qed auto

text \<open>
  The contract of a priority queue kept as a linked list: \<open>rep s xs\<close> says the state \<open>s\<close> holds the
  elements \<open>xs\<close> in this order, \<open>put s x d\<close> gives \<open>x\<close> the key \<open>d\<close> and enters it, \<open>pop\<close> takes the
  first element out. A queue state is never stuck on these operations.
\<close>

locale ordered_queue =
  fixes rep :: "'s \<Rightarrow> 'x list \<Rightarrow> bool"
    and key :: "'s \<Rightarrow> 'x \<Rightarrow> int"
    and fresh :: "'s \<Rightarrow> 'x \<Rightarrow> bool"
    and put :: "'s \<Rightarrow> 'x \<Rightarrow> int \<Rightarrow> 's option"
    and pop :: "'s \<Rightarrow> ('x \<times> 's) option"
  assumes put: "rep s xs \<Longrightarrow> fresh s x \<Longrightarrow> x \<notin> set xs \<and> (\<exists>s'. put s x d = Some s' \<and>
      key s' = (key s)(x := d) \<and> rep s' (ins_by (key s') x xs))"
    and pop: "rep s (x # xs) \<Longrightarrow> \<exists>s'. pop s = Some (x, s') \<and> key s' = key s \<and> rep s' xs \<and> fresh s' x"
begin

definition ordered :: "'s \<Rightarrow> 'x list \<Rightarrow> bool" where
  "ordered s xs \<longleftrightarrow> rep s xs \<and> sorted_by (key s) xs"

lemma put_ordered:
  assumes "ordered s xs" and "fresh s x"
  shows "\<exists>s' ys. put s x d = Some s' \<and> ordered s' ys \<and> set ys = insert x (set xs) \<and>
    length ys = Suc (length xs) \<and> key s' = (key s)(x := d)"
proof -
  have r: "rep s xs" "sorted_by (key s) xs" using assms(1) by (simp_all add: ordered_def)
  obtain s' where s': "put s x d = Some s'" "key s' = (key s)(x := d)"
    "rep s' (ins_by (key s') x xs)" and x: "x \<notin> set xs" using put [OF r(1) assms(2)] by blast
  have "sorted_by (key s') xs"
    using r(2) x s'(2) by (auto intro: sorted_wrt_mono_rel [rotated])
  then have "ordered s' (ins_by (key s') x xs)"
    using s'(3) by (simp only: ordered_def sorted_ins_by simp_thms)
  with s' show ?thesis by (metis set_ins_by length_ins_by)
qed

lemma put_fifo:
  assumes "ordered s xs" and "fresh s x" and "put s x d = Some s'" and "ordered s' ys"
    and rep_unique: "\<And>s as bs. rep s as \<Longrightarrow> rep s bs \<Longrightarrow> as = bs"
  shows "filter (\<lambda>y. key s' y = d) ys = filter (\<lambda>y. key s y = d) xs @ [x]"
proof -
  have r: "rep s xs" "sorted_by (key s) xs" using assms(1) by (simp_all add: ordered_def)
  have p: "key s' = (key s)(x := d)" "rep s' (ins_by (key s') x xs)" "x \<notin> set xs"
    using put [OF r(1) assms(2), of d] assms(3) by auto
  have "ys = ins_by (key s') x xs" using p(2) assms(4) rep_unique by (auto simp: ordered_def)
  moreover have "sorted_by (key s') xs"
    using r(2) p(1,3) by (auto intro: sorted_wrt_mono_rel [rotated])
  ultimately have "filter (\<lambda>y. key s' y = d) ys = filter (\<lambda>y. key s' y = d) xs @ [x]"
    using filter_ins_by_same_key [of "key s'" xs x] p(1) by simp
  moreover have "filter (\<lambda>y. key s' y = d) xs = filter (\<lambda>y. key s y = d) xs"
    using p(1,3) by (intro filter_cong) auto
  ultimately show ?thesis by simp
qed

lemma pop_least:
  assumes "ordered s (x # xs)"
  shows "\<exists>s'. pop s = Some (x, s') \<and> ordered s' xs \<and> (\<forall>y \<in> set xs. key s x \<le> key s y)"
  using assms pop by (fastforce simp: ordered_def)

end

end
