(* ===== verification/RtTimer.thy ===== *)
theory RtTimer
  imports Prelude
begin

text \<open>
  The timer queue of src/src/rt.c: a singly linked list of timers in ascending order of deadline,
  walked with a pointer to the link that may be rewritten. \<open>tq_rep\<close> is its invariant; the
  interpretation \<open>tq\<close> of \<open>ordered_queue\<close> at the end gives the ordering and FIFO facts.
\<close>

section \<open>State\<close>

text \<open>
  A timer is named by its address; 0 and 1 are the reserved pointer values of rt.h. The fields of
  all \<open>tmr_t\<close> records are kept as one map per field, so that links between timers are addresses.
\<close>

definition TMR_NIL :: nat where "TMR_NIL = 0"
definition TMR_END :: nat where "TMR_END = 1"

definition USTIME_MIN :: ustime where "USTIME_MIN = - (2 ^ 63)"
definition USTIME_MAX :: ustime where "USTIME_MAX = 2 ^ 63 - 1"

record tmrs =
  timerQ :: nat
  tnext :: "nat \<Rightarrow> nat"
  tdeadline :: "nat \<Rightarrow> ustime"
  tcallback :: "nat \<Rightarrow> nat"

text \<open>A \<open>tmr_t**\<close>: the queue head or the next field of a timer.\<close>

datatype tlink = THead | TNext nat

fun rd_link :: "tmrs \<Rightarrow> tlink \<Rightarrow> nat" where
  "rd_link st THead = timerQ st"
| "rd_link st (TNext t) = tnext st t"

fun wr_link :: "tlink \<Rightarrow> nat \<Rightarrow> tmrs \<Rightarrow> tmrs" where
  "wr_link THead v st = st\<lparr>timerQ := v\<rparr>"
| "wr_link (TNext t) v st = st\<lparr>tnext := (tnext st)(t := v)\<rparr>"

section \<open>Operations\<close>

definition rt_iniTimer :: "nat \<Rightarrow> nat \<Rightarrow> ustime \<Rightarrow> tmrs \<Rightarrow> tmrs" where
  "rt_iniTimer tmr cb now st =
     st\<lparr>tnext := (tnext st)(tmr := TMR_NIL), tdeadline := (tdeadline st)(tmr := now),
        tcallback := (tcallback st)(tmr := cb)\<rparr>"

partial_function (option) clr_walk :: "tmrs \<Rightarrow> tlink \<Rightarrow> nat \<Rightarrow> tmrs option" where
  "clr_walk st pp tmr =
     (let p = rd_link st pp in
      if p = TMR_END then None
      else if p = tmr then
        (let st' = wr_link pp (tnext st tmr) st
         in Some (st'\<lparr>tnext := (tnext st')(tmr := TMR_NIL)\<rparr>))
      else clr_walk st (TNext p) tmr)"

definition rt_clrTimer :: "nat \<Rightarrow> tmrs \<Rightarrow> tmrs option" where
  "rt_clrTimer tmr st =
     (if tmr = TMR_NIL \<or> tmr = TMR_END \<or> tnext st tmr = TMR_NIL then Some st
      else clr_walk st THead tmr)"

partial_function (option) set_walk :: "tmrs \<Rightarrow> tlink \<Rightarrow> ustime \<Rightarrow> tlink option" where
  "set_walk st pp dl =
     (let p = rd_link st pp in
      if p = TMR_END then Some pp
      else if dl < tdeadline st p then Some pp
      else set_walk st (TNext p) dl)"

definition rt_setTimer :: "nat \<Rightarrow> ustime \<Rightarrow> tmrs \<Rightarrow> tmrs option" where
  "rt_setTimer tmr dl st0 =
     (if tmr = TMR_NIL \<or> tmr = TMR_END then None
      else Option.bind (if tnext st0 tmr \<noteq> TMR_NIL then rt_clrTimer tmr st0 else Some st0)
        (\<lambda>st1. let st = st1\<lparr>tdeadline := (tdeadline st1)(tmr := dl)\<rparr> in
         Option.bind (set_walk st THead dl)
           (\<lambda>pp. let p = rd_link st pp; st' = st\<lparr>tnext := (tnext st)(tmr := p)\<rparr>
                 in Some (wr_link pp tmr st'))))"

definition rt_setTimerCb :: "nat \<Rightarrow> ustime \<Rightarrow> nat \<Rightarrow> tmrs \<Rightarrow> tmrs option" where
  "rt_setTimerCb tmr dl cb st = rt_setTimer tmr dl (st\<lparr>tcallback := (tcallback st)(tmr := cb)\<rparr>)"

definition rt_yieldTo :: "nat \<Rightarrow> nat \<Rightarrow> ustime \<Rightarrow> tmrs \<Rightarrow> tmrs option" where
  "rt_yieldTo tmr cb now st = rt_setTimer tmr now (st\<lparr>tcallback := (tcallback st)(tmr := cb)\<rparr>)"

text \<open>
  \<open>rt_processTimerQ\<close>: \<open>clock\<close> is the sequence of readings of \<open>rt_getTime\<close>, one per pass of the
  loop, and \<open>invoke\<close> is the effect of a timer's callback on the timers. The result is the value
  returned (the time until the next deadline) with the timers fired, in order. A pass costs one
  unit of fuel; \<open>None\<close> is running out, or a callback that fails.
\<close>

definition unq_head :: "tmrs \<Rightarrow> (nat \<times> tmrs) option" where
  "unq_head st = (if timerQ st = TMR_END then None
     else (let expired = timerQ st; st' = st\<lparr>timerQ := tnext st expired\<rparr>
           in Some (expired, st'\<lparr>tnext := (tnext st')(expired := TMR_NIL)\<rparr>)))"

fun rt_processTimerQ ::
    "nat \<Rightarrow> (nat \<Rightarrow> ustime) \<Rightarrow> (nat \<Rightarrow> tmrs \<Rightarrow> tmrs option) \<Rightarrow> tmrs \<Rightarrow> (ustime \<times> nat list \<times> tmrs) option"
where
  "rt_processTimerQ 0 clock invoke st = None"
| "rt_processTimerQ (Suc n) clock invoke st =
     (case unq_head st of
        None \<Rightarrow> Some (USTIME_MAX, [], st)
      | Some (expired, st') \<Rightarrow>
          (let ahead = tdeadline st expired - clock 0 in
           if ahead > 0 then Some (ahead, [], st)
           else Option.bind (if tcallback st' expired \<noteq> 0 then invoke expired st' else Some st')
             (\<lambda>st''. map_option (\<lambda>(r, fired, s). (r, expired # fired, s))
                (rt_processTimerQ n (\<lambda>k. clock (Suc k)) invoke st''))))"

section \<open>Invariant\<close>

text \<open>
  \<open>tq_rep st xs\<close>: the queue holds exactly the timers \<open>xs\<close>, in this order; a timer has a NIL link
  if and only if it is not queued.
\<close>

definition tq_rep :: "tmrs \<Rightarrow> nat list \<Rightarrow> bool" where
  "tq_rep st xs \<longleftrightarrow> path (tnext st) TMR_END (timerQ st) xs \<and> TMR_NIL \<notin> set xs \<and>
     (\<forall>t. t \<notin> set xs \<longrightarrow> tnext st t = TMR_NIL)"

lemma tq_rep_unique: "tq_rep st xs \<Longrightarrow> tq_rep st ys \<Longrightarrow> xs = ys"
  by (auto simp: tq_rep_def dest: path_unique)

lemma path_next_queued:
  "path nx e p (xs @ y # ys) \<Longrightarrow> nx y = (case ys of [] \<Rightarrow> e | z # _ \<Rightarrow> z)"
  by (induction xs arbitrary: p) (auto split: list.splits)

lemma tq_rep_active:
  assumes "tq_rep st xs"
  shows "tnext st t \<noteq> TMR_NIL \<longleftrightarrow> t \<in> set xs"
proof
  assume "t \<in> set xs"
  then obtain us vs where "xs = us @ t # vs" by (auto simp: in_set_conv_decomp)
  with assms have "tnext st t = (case vs of [] \<Rightarrow> TMR_END | z # _ \<Rightarrow> z)" "TMR_NIL \<notin> set vs"
    by (auto simp: tq_rep_def dest: path_next_queued)
  then show "tnext st t \<noteq> TMR_NIL" by (auto simp: TMR_NIL_def TMR_END_def split: list.splits)
qed (use assms in \<open>auto simp: tq_rep_def\<close>)

text \<open>
  The link that leads to the rest \<open>ys\<close> of a list \<open>xs @ ys\<close>: the head for an empty prefix, else the
  next field of its last element.
\<close>

definition link_of :: "nat list \<Rightarrow> tlink" where
  "link_of xs = (if xs = [] then THead else TNext (last xs))"

lemma rd_link_of:
  "path (tnext st) TMR_END (timerQ st) (xs @ ys) \<Longrightarrow>
    rd_link st (link_of xs) = (case ys of [] \<Rightarrow> TMR_END | y # _ \<Rightarrow> y)"
proof (cases xs rule: rev_cases)
  case (snoc zs z)
  assume "path (tnext st) TMR_END (timerQ st) (xs @ ys)"
  then show ?thesis using snoc path_next_queued [of "tnext st" TMR_END "timerQ st" zs z ys]
    by (simp add: link_of_def)
qed (auto simp: link_of_def path_not_end split: list.splits)

lemma path_wr_link:
  assumes "path (tnext st) TMR_END (timerQ st) (xs @ ys)" and "x \<notin> set (xs @ ys)" and "x \<noteq> TMR_END"
  defines "st' \<equiv> wr_link (link_of xs) x (st\<lparr>tnext := (tnext st)(x := rd_link st (link_of xs))\<rparr>)"
  shows "path (tnext st') TMR_END (timerQ st') (xs @ x # ys)"
proof (cases xs rule: rev_cases)
  case Nil
  then show ?thesis using assms
    by (simp add: link_of_def fun_upd_same del: fun_upd_apply)
next
  case (snoc zs z)
  have "path ((tnext st)(x := tnext st z, z := x)) TMR_END (timerQ st) (zs @ z # x # ys)"
    using assms(1-3) snoc by (intro path_insert_after) auto
  then show ?thesis using snoc by (simp add: st'_def link_of_def del: fun_upd_apply)
qed

lemma path_unlink:
  assumes "path (tnext st) TMR_END (timerQ st) (xs @ x # ys)"
  defines "st1 \<equiv> wr_link (link_of xs) (tnext st x) st"
  defines "st' \<equiv> st1\<lparr>tnext := (tnext st1)(x := TMR_NIL)\<rparr>"
  shows "path (tnext st') TMR_END (timerQ st') (xs @ ys)"
proof -
  have d: "distinct (xs @ x # ys)" using assms(1) by (rule path_distinct)
  show ?thesis
  proof (cases xs rule: rev_cases)
    case Nil
    then show ?thesis using assms d by (simp add: link_of_def del: fun_upd_apply)
  next
    case (snoc zs z)
    have "path ((tnext st)(z := tnext st x, x := TMR_NIL)) TMR_END (timerQ st) (zs @ z # ys)"
      using assms(1) snoc by (intro path_remove_after) simp
    then show ?thesis using snoc by (simp add: st'_def st1_def link_of_def del: fun_upd_apply)
  qed
qed

section \<open>Correctness of the operations\<close>

lemma clr_walk_correct:
  assumes "tq_rep st (xs @ x # ys)"
  shows "\<exists>st'. clr_walk st THead x = Some st' \<and> tq_rep st' (xs @ ys) \<and>
    tdeadline st' = tdeadline st \<and> tcallback st' = tcallback st"
proof -
  let ?st1 = "\<lambda>us. wr_link (link_of us) (tnext st x) st"
  have p: "path (tnext st) TMR_END (timerQ st) (xs @ x # ys)" using assms by (simp add: tq_rep_def)
  then have d: "distinct (xs @ x # ys)" by (rule path_distinct)
  have walk: "clr_walk st (link_of us) x =
      Some ((?st1 xs)\<lparr>tnext := (tnext (?st1 xs))(x := TMR_NIL)\<rparr>)" if "xs = us @ vs" for us vs
    using that
  proof (induction vs arbitrary: us)
    case Nil
    have "rd_link st (link_of us) = x" "x \<noteq> TMR_END"
      using rd_link_of [OF p] Nil path_end_notin [OF p] by auto
    then show ?case using Nil by (subst clr_walk.simps) (simp add: Let_def)
  next
    case (Cons v vs)
    have r: "rd_link st (link_of us) = v" "v \<noteq> TMR_END"
      using rd_link_of [of st us "v # vs @ x # ys"] p Cons.prems path_end_notin [OF p] by auto
    have "v \<noteq> x" using d Cons.prems by auto
    moreover have "link_of (us @ [v]) = TNext v" by (simp add: link_of_def)
    ultimately show ?case using r Cons.IH [of "us @ [v]"] Cons.prems
      by (subst clr_walk.simps) (simp add: Let_def del: fun_upd_apply)
  qed
  let ?st' = "(?st1 xs)\<lparr>tnext := (tnext (?st1 xs))(x := TMR_NIL)\<rparr>"
  have "path (tnext ?st') TMR_END (timerQ ?st') (xs @ ys)" using p by (rule path_unlink)
  moreover have "tnext ?st' t = TMR_NIL" if "t \<notin> set (xs @ ys)" for t
    using assms that by (cases "xs = []") (auto simp: tq_rep_def link_of_def)
  moreover have "tdeadline ?st' = tdeadline st \<and> tcallback ?st' = tcallback st"
    by (simp add: link_of_def)
  ultimately show ?thesis using walk [of "[]" xs] assms
    by (simp add: tq_rep_def link_of_def)
qed

lemma rt_clrTimer_correct:
  assumes "tq_rep st xs"
  shows "\<exists>st'. rt_clrTimer x st = Some st' \<and> tq_rep st' (remove1 x xs) \<and>
    tdeadline st' = tdeadline st \<and> tcallback st' = tcallback st"
proof (cases "x \<in> set xs")
  case True
  then obtain us vs where xs: "xs = us @ x # vs" "x \<notin> set us"
    by (metis split_list_first)
  have "x \<noteq> TMR_NIL" "x \<noteq> TMR_END" "tnext st x \<noteq> TMR_NIL"
    using assms True tq_rep_active [OF assms] path_end_notin by (auto simp: tq_rep_def)
  then show ?thesis using clr_walk_correct [of st us x vs] assms xs
    by (auto simp: rt_clrTimer_def remove1_append)
next
  case False
  then show ?thesis using assms tq_rep_active [OF assms, of x]
    by (auto simp: rt_clrTimer_def remove1_idem)
qed

lemma set_walk_correct:
  assumes p: "path (tnext st) TMR_END (timerQ st) xs"
    and k: "dl = tdeadline st x" and x: "x \<notin> set xs"
  shows "\<exists>us vs. xs = us @ vs \<and> set_walk st THead dl = Some (link_of us) \<and>
    ins_by (tdeadline st) x xs = us @ x # vs"
proof -
  have "\<exists>us' ws. vs = us' @ ws \<and> set_walk st (link_of us) dl = Some (link_of (us @ us')) \<and>
      ins_by (tdeadline st) x vs = us' @ x # ws" if "xs = us @ vs" for us vs
    using that
  proof (induction vs arbitrary: us)
    case Nil
    then have "rd_link st (link_of us) = TMR_END" using rd_link_of [of st us "[]"] p by simp
    then show ?case by (subst set_walk.simps) simp
  next
    case (Cons v vs)
    have r: "rd_link st (link_of us) = v" "v \<noteq> TMR_END"
      using rd_link_of [of st us "v # vs"] p Cons.prems path_end_notin [OF p] by auto
    show ?case
    proof (cases "dl < tdeadline st v")
      case True
      then show ?thesis using r k
        by (intro exI [of _ "[]"] exI [of _ "v # vs"]) (subst set_walk.simps, simp)
    next
      case False
      obtain us' ws where *: "vs = us' @ ws"
        "set_walk st (link_of (us @ [v])) dl = Some (link_of ((us @ [v]) @ us'))"
        "ins_by (tdeadline st) x vs = us' @ x # ws"
        using Cons.IH [of "us @ [v]"] Cons.prems by auto
      have "set_walk st (link_of us) dl = set_walk st (TNext v) dl"
        using r False by (subst set_walk.simps) (simp add: Let_def)
      moreover have "link_of (us @ [v]) = TNext v" by (simp add: link_of_def)
      ultimately show ?thesis using * False k
        by (intro exI [of _ "v # us'"] exI [of _ ws]) simp
    qed
  qed
  from this [of "[]" xs] show ?thesis by (simp add: link_of_def)
qed

text \<open>Arming a timer, queued before or not: it leaves its old place and enters by its deadline.\<close>

lemma rt_setTimer_correct:
  assumes rep: "tq_rep st xs" and x: "x \<noteq> TMR_NIL" "x \<noteq> TMR_END"
  shows "\<exists>st'. rt_setTimer x dl st = Some st' \<and> tdeadline st' = (tdeadline st)(x := dl) \<and>
    tcallback st' = tcallback st \<and>
    tq_rep st' (ins_by (tdeadline st') x (remove1 x xs))"
proof -
  let ?ys = "remove1 x xs"
  have "distinct xs" using rep path_distinct by (auto simp: tq_rep_def)
  then have nx: "x \<notin> set ?ys" by simp
  have "\<exists>st1. (if tnext st x \<noteq> TMR_NIL then rt_clrTimer x st else Some st) = Some st1 \<and>
      tq_rep st1 ?ys \<and> tdeadline st1 = tdeadline st \<and> tcallback st1 = tcallback st"
    using rt_clrTimer_correct [OF rep, of x] tq_rep_active [OF rep, of x] rep
    by (auto simp: remove1_idem)
  then obtain st1 where st1: "(if tnext st x \<noteq> TMR_NIL then rt_clrTimer x st else Some st) = Some st1"
    "tq_rep st1 ?ys" "tdeadline st1 = tdeadline st" "tcallback st1 = tcallback st" by blast
  let ?st2 = "st1\<lparr>tdeadline := (tdeadline st1)(x := dl)\<rparr>"
  have p2: "path (tnext ?st2) TMR_END (timerQ ?st2) ?ys" using st1(2) by (simp add: tq_rep_def)
  obtain us vs where uv: "?ys = us @ vs" "set_walk ?st2 THead dl = Some (link_of us)"
    "ins_by (tdeadline ?st2) x ?ys = us @ x # vs"
    using set_walk_correct [OF p2, of dl x] nx by auto
  let ?st3 = "wr_link (link_of us) x (?st2\<lparr>tnext := (tnext ?st2)(x := rd_link ?st2 (link_of us))\<rparr>)"
  have p3: "path (tnext ?st3) TMR_END (timerQ ?st3) (us @ x # vs)"
    using p2 nx x(2) uv(1) by (intro path_wr_link) auto
  have "rt_setTimer x dl st = Some ?st3"
    using x st1(1) uv(2) by (simp add: rt_setTimer_def Let_def)
  moreover have "tdeadline ?st3 = (tdeadline st)(x := dl)" "tcallback ?st3 = tcallback st"
    using st1(3,4) by (auto simp: link_of_def)
  moreover have "tnext ?st3 t = TMR_NIL" if "t \<notin> set (us @ x # vs)" for t
    using st1(2) uv(1) that by (cases "us = []") (auto simp: tq_rep_def link_of_def)
  ultimately show ?thesis using p3 uv x st1 by (auto simp: tq_rep_def)
qed

lemma unq_head_correct:
  assumes "tq_rep st (x # xs)"
  shows "\<exists>st'. unq_head st = Some (x, st') \<and> tq_rep st' xs \<and> tdeadline st' = tdeadline st \<and>
    tcallback st' = tcallback st"
  using assms path_distinct [of "tnext st" TMR_END "timerQ st" "x # xs"]
  by (auto simp: tq_rep_def unq_head_def Let_def)

lemma unq_head_empty: "tq_rep st [] \<Longrightarrow> unq_head st = None"
  by (simp add: tq_rep_def unq_head_def)

interpretation tq: ordered_queue tq_rep tdeadline
  "\<lambda>st x. x \<noteq> TMR_NIL \<and> x \<noteq> TMR_END \<and> tnext st x = TMR_NIL"
  "\<lambda>st x d. rt_setTimer x d st" unq_head
proof
  fix st xs x d
  assume a: "tq_rep st xs" "x \<noteq> TMR_NIL \<and> x \<noteq> TMR_END \<and> tnext st x = TMR_NIL"
  then have "x \<notin> set xs" using tq_rep_active by blast
  then show "x \<notin> set xs \<and> (\<exists>s'. rt_setTimer x d st = Some s' \<and> tdeadline s' = (tdeadline st)(x := d) \<and>
      tq_rep s' (ins_by (tdeadline s') x xs))"
    using rt_setTimer_correct [OF a(1), of x d] a(2) by (auto simp: remove1_idem)
next
  fix st xs x
  assume a: "tq_rep st (x # xs)"
  then obtain st' where "unq_head st = Some (x, st')" "tq_rep st' xs" "tdeadline st' = tdeadline st"
    using unq_head_correct by blast
  moreover have "x \<notin> set xs" "x \<noteq> TMR_NIL" "x \<noteq> TMR_END"
    using a path_distinct [of "tnext st" TMR_END "timerQ st" "x # xs"] by (auto simp: tq_rep_def)
  ultimately show "\<exists>s'. unq_head st = Some (x, s') \<and> tdeadline s' = tdeadline st \<and> tq_rep s' xs \<and>
      x \<noteq> TMR_NIL \<and> x \<noteq> TMR_END \<and> tnext s' x = TMR_NIL"
    using tq_rep_active by blast
qed

section \<open>Properties\<close>

text \<open>C15: Arming a timer never fails and never walks off the list: whatever the queue holds and
  whether or not the timer is already queued, \<open>rt_setTimer\<close> returns, the timer is queued exactly
  once, before the first later deadline and after every equal one, no other timer moves relative
  to the rest, and an ascending queue stays ascending.\<close>

theorem rt_setTimer_sorted:
  assumes "tq_rep st xs" and "sorted_by (tdeadline st) xs" and "x \<noteq> TMR_NIL" and "x \<noteq> TMR_END"
  shows "\<exists>st' ys. rt_setTimer x dl st = Some st' \<and> tq_rep st' ys \<and> sorted_by (tdeadline st') ys \<and>
    remove1 x ys = remove1 x xs \<and> x \<in> set ys \<and> tdeadline st' = (tdeadline st)(x := dl) \<and>
    filter (\<lambda>t. tdeadline st' t = dl) ys =
      filter (\<lambda>t. tdeadline st t = dl) (remove1 x xs) @ [x]"
proof -
  let ?zs = "remove1 x xs"
  have d: "distinct xs" using assms(1) path_distinct by (auto simp: tq_rep_def)
  then have x: "x \<notin> set ?zs" by simp
  obtain st' where st': "rt_setTimer x dl st = Some st'" "tdeadline st' = (tdeadline st)(x := dl)"
    "tq_rep st' (ins_by (tdeadline st') x ?zs)"
    using rt_setTimer_correct [OF assms(1,3,4), of dl] by blast
  let ?ys = "ins_by (tdeadline st') x ?zs"
  have "sorted_by (tdeadline st) ?zs" using assms(2) d
    by (simp add: distinct_remove1_removeAll removeAll_filter_not_eq sorted_wrt_filter)
  then have s: "sorted_by (tdeadline st') ?zs"
    using x st'(2) by (auto intro: sorted_wrt_mono_rel [rotated])
  have "remove1 x ?ys = ?zs"
  proof -
    obtain us vs where uv: "?zs = us @ vs" "?ys = us @ x # vs" using ins_by_split by metis
    then show ?thesis using x by (simp add: remove1_append)
  qed
  moreover have "filter (\<lambda>t. tdeadline st' t = dl) ?ys = filter (\<lambda>t. tdeadline st t = dl) ?zs @ [x]"
  proof -
    have "tdeadline st' x = dl" using st'(2) by simp
    then have "filter (\<lambda>t. tdeadline st' t = dl) ?ys = filter (\<lambda>t. tdeadline st' t = dl) ?zs @ [x]"
      using filter_ins_by_same_key [OF s, of x] by simp
    moreover have "filter (\<lambda>t. tdeadline st' t = dl) ?zs = filter (\<lambda>t. tdeadline st t = dl) ?zs"
      using x st'(2) by (intro filter_cong) auto
    ultimately show ?thesis by simp
  qed
  moreover have "sorted_by (tdeadline st') ?ys" using s by (rule sorted_ins_by)
  ultimately show ?thesis using st' by (intro exI [of _ st'] exI [of _ ?ys]) simp
qed

definition two_timers :: tmrs where
  "two_timers = \<lparr>timerQ = 2, tnext = (\<lambda>_. 0)(2 := 3, 3 := 1), tdeadline = (\<lambda>_. 0)(2 := 5, 3 := 10),
     tcallback = (\<lambda>_. 7)\<rparr>"

lemma two_timers_rep: "tq_rep two_timers [2, 3]"
  by (auto simp: tq_rep_def two_timers_def TMR_END_def TMR_NIL_def)

theorem rt_setTimer_sorted_witness:
  "\<exists>st' ys. rt_setTimer 3 5 two_timers = Some st' \<and> tq_rep st' ys \<and> sorted_by (tdeadline st') ys \<and>
     filter (\<lambda>t. tdeadline st' t = 5) ys = [2, 3]"
proof -
  have "sorted_by (tdeadline two_timers) [2, 3]" by (simp add: two_timers_def)
  from rt_setTimer_sorted [OF two_timers_rep this, of 3 5] show ?thesis
    by (auto simp: two_timers_def TMR_NIL_def TMR_END_def)
qed



end
