(* ===== verification/RtDate.thy ===== *)
theory RtDate
  imports Prelude
begin

text \<open>
  Calendar conversion of src/src/rt.c (\<open>rt_datetime\<close>) and the proof of when it agrees with the
  Gregorian calendar.
\<close>

section \<open>The conversion\<close>

record datetime =
  dt_year :: u2
  dt_month :: u1
  dt_day :: u1
  dt_hour :: u1
  dt_minute :: u1
  dt_second :: u1
  dt_usec :: u4

definition DAYSPERMONTH :: "int list" where
  "DAYSPERMONTH = [31, 28, 31, 30, 31, 30, 31, 31, 30, 31, 30, 31]"

text \<open>The loop over the month table; \<open>None\<close> is a read past its end.\<close>

fun month_walk :: "int list \<Rightarrow> nat \<Rightarrow> int \<Rightarrow> (nat \<times> int) option" where
  "month_walk [] month d = None"
| "month_walk (k # ks) month d = (if d \<ge> k then month_walk ks (Suc month) (d - k) else Some (month, d))"

definition rt_datetime :: "ustime \<Rightarrow> datetime option" where
  "rt_datetime ustime =
     (if ustime < 0 then
        Some \<lparr>dt_year = 0, dt_month = 0, dt_day = 0, dt_hour = 0, dt_minute = 0, dt_second = 0, dt_usec = 0\<rparr>
      else
       (let usec = ustime mod 1000000; t1 = ustime div 1000000;
            second = t1 mod 60; t2 = t1 div 60;
            minute = t2 mod 60; t3 = t2 div 60;
            hour = t3 mod 24; days = t3 div 24;
            year = to_s 32 (int (to_u 32 (days div 365)) + 1970 - 1);
            daysinyear = days mod 365
              - ((year div 4) - (year div 100) + (year div 400))
              + (1970 div 4 - 1970 div 100 + 1970 div 400);
            (year, daysinyear) =
              (if daysinyear < 0 then (year - 1, daysinyear + 365) else (year, daysinyear));
            year = year + 1;
            dt = \<lparr>dt_year = to_u 16 year, dt_month = 2, dt_day = 29, dt_hour = to_u 8 hour,
                  dt_minute = to_u 8 minute, dt_second = to_u 8 second, dt_usec = to_u 32 usec\<rparr>;
            leap = ((year mod 4 = 0 \<and> year mod 100 \<noteq> 0) \<or> year mod 400 = 0)
        in if leap \<and> daysinyear = 31 + 29 - 1 then Some dt
           else
             (let d = (if leap \<and> daysinyear > 31 + 29 - 1 then daysinyear - 1 else daysinyear)
              in map_option (\<lambda>(month, d). dt\<lparr>dt_month := to_u 8 (int month + 1), dt_day := to_u 8 (d + 1)\<rparr>)
                   (month_walk DAYSPERMONTH 0 d))))"

section \<open>The Gregorian calendar\<close>

definition leap_year :: "int \<Rightarrow> bool" where
  "leap_year y \<longleftrightarrow> (y mod 4 = 0 \<and> y mod 100 \<noteq> 0) \<or> y mod 400 = 0"

definition year_len :: "int \<Rightarrow> int" where
  "year_len y = (if leap_year y then 366 else 365)"

definition month_lens :: "int \<Rightarrow> int list" where
  "month_lens y = DAYSPERMONTH[1 := (if leap_year y then 29 else 28)]"

text \<open>Days from 1 January 1970 to 1 January of a year, and the leap days among them.\<close>

fun days_to_year :: "nat \<Rightarrow> int" where
  "days_to_year 0 = 0"
| "days_to_year (Suc k) = days_to_year k + year_len (1970 + int k)"

definition leap_days_to :: "int \<Rightarrow> int" where
  "leap_days_to y = ((y - 1) div 4 - (y - 1) div 100 + (y - 1) div 400) - 477"

lemma div_pred:
  assumes "0 < (k::int)"
  shows "y div k = (y - 1) div k + (if y mod k = 0 then 1 else 0)"
proof (cases "y mod k = 0")
  case True
  then obtain q where q: "y = k * q" by auto
  have "y - 1 = k * (q - 1) + (k - 1)" unfolding q by (simp add: algebra_simps)
  then have "(y - 1) div k = q - 1" by (rule int_div_pos_eq) (use assms in auto)
  with True q assms show ?thesis by simp
next
  case False
  have m: "0 \<le> y mod k" "y mod k < k" using assms by auto
  have "y - 1 = k * (y div k) + (y mod k - 1)" by simp
  moreover have "0 \<le> y mod k - 1" "y mod k - 1 < k" using m False by linarith+
  ultimately have "(y - 1) div k = y div k" by (rule int_div_pos_eq)
  with False show ?thesis by simp
qed

lemma leap_days_step:
  "leap_days_to (y + 1) = leap_days_to y + (if leap_year y then 1 else 0)"
proof -
  have "y mod 400 = 0 \<Longrightarrow> y mod 100 = 0"
    using mod_mod_cancel [of 100 400 y] by simp
  moreover have "y mod 100 = 0 \<Longrightarrow> y mod 4 = 0"
    using mod_mod_cancel [of 4 100 y] by simp
  ultimately have "(if y mod 4 = 0 then 1 else 0) - (if y mod 100 = 0 then 1 else 0) +
      (if y mod 400 = 0 then 1 else 0) = (if leap_year y then 1 else (0::int))"
    by (auto simp: leap_year_def)
  moreover have "y div 4 = (y - 1) div 4 + (if y mod 4 = 0 then 1 else 0)"
    "y div 100 = (y - 1) div 100 + (if y mod 100 = 0 then 1 else 0)"
    "y div 400 = (y - 1) div 400 + (if y mod 400 = 0 then 1 else 0)"
    by (simp_all only: div_pred [of 4 y] div_pred [of 100 y] div_pred [of 400 y] zero_less_numeral)
  ultimately show ?thesis by (simp only: leap_days_to_def add_diff_cancel_right')
qed

lemma days_to_year_eq: "days_to_year k = 365 * int k + leap_days_to (1970 + int k)"
proof (induction k)
  case 0
  show ?case by (simp add: leap_days_to_def)
next
  case (Suc k)
  have "1970 + int (Suc k) = (1970 + int k) + 1" by simp
  then have "leap_days_to (1970 + int (Suc k)) =
      leap_days_to (1970 + int k) + (if leap_year (1970 + int k) then 1 else 0)"
    by (metis leap_days_step)
  with Suc show ?case by (simp add: year_len_def)
qed

lemma leap_days_nonneg: "1970 \<le> y \<Longrightarrow> 0 \<le> leap_days_to y"
proof -
  assume "1970 \<le> y"
  have "0 \<le> leap_days_to (1970 + int k)" for k
  proof (induction k)
    case (Suc k)
    have e: "1970 + int (Suc k) = (1970 + int k) + 1" by simp
    have "leap_days_to (1970 + int (Suc k)) =
        leap_days_to (1970 + int k) + (if leap_year (1970 + int k) then 1 else 0)"
      unfolding e by (rule leap_days_step)
    with Suc show ?case by simp
  qed (simp add: leap_days_to_def)
  from this [of "nat (y - 1970)"] show ?thesis using \<open>1970 \<le> y\<close> by simp
qed

lemma leap_days_less: "1970 \<le> y \<Longrightarrow> y < 3000 \<Longrightarrow> leap_days_to y < 365"
  using zdiv_mono1 [of "y - 1" 2998 4] zdiv_mono1 [of 1969 "y - 1" 100] zdiv_mono1 [of "y - 1" 2998 400]
  by (simp add: leap_days_to_def)

text \<open>Month (0 for January) and day (0 for the first) of a day of the year.\<close>

definition month_day :: "int \<Rightarrow> int \<Rightarrow> (nat \<times> int) option" where
  "month_day y n = month_walk (month_lens y) 0 n"

lemma month_day_leap:
  assumes "leap_year y" and "0 \<le> n"
  shows "month_day y n =
    (if n = 59 then Some (1, 28) else month_walk DAYSPERMONTH 0 (if n > 59 then n - 1 else n))"
  using assms by (simp add: month_day_def month_lens_def DAYSPERMONTH_def)

lemma month_day_common: "\<not> leap_year y \<Longrightarrow> month_day y n = month_walk DAYSPERMONTH 0 n"
  by (simp add: month_day_def month_lens_def DAYSPERMONTH_def)

lemma month_walk_bounds:
  "month_walk ks m d = Some (m', d') \<Longrightarrow> 0 \<le> d \<Longrightarrow>
    m' < m + length ks \<and> 0 \<le> d' \<and> (\<forall>b. (\<forall>k \<in> set ks. k \<le> b) \<longrightarrow> d' < b)"
  by (induction ks m d rule: month_walk.induct) (auto split: if_splits)

lemma month_day_total:
  assumes "0 \<le> n" and "n < year_len y"
  shows "\<exists>m d. month_day y n = Some (m, d) \<and> m < 12 \<and> 0 \<le> d \<and> d < 31"
proof -
  have "month_day y n \<noteq> None"
    using assms
    by (cases "leap_year y") (auto simp: month_day_def month_lens_def DAYSPERMONTH_def year_len_def)
  then obtain m d where md: "month_day y n = Some (m, d)" by auto
  have "length (month_lens y) = 12" "\<forall>k \<in> set (month_lens y). k \<le> 31"
    by (auto simp: month_lens_def DAYSPERMONTH_def)
  with month_walk_bounds [OF md [unfolded month_day_def] assms(1)] md show ?thesis by auto
qed

section \<open>When the conversion is right\<close>

text \<open>
  A time stamp is \<open>n\<close> days into year \<open>y\<close> and \<open>t\<close> microseconds into the day. The code subtracts the
  estimated leap days and corrects a negative result by 365, also when the year it has to step back
  to is a leap year. So in a leap year it is one day behind from day \<open>365 - leap_days_to y\<close> on.
\<close>

definition off_by_one :: "int \<Rightarrow> int \<Rightarrow> bool" where
  "off_by_one y n \<longleftrightarrow> leap_year y \<and> leap_days_to y + n \<ge> 365"

definition stamp :: "int \<Rightarrow> int \<Rightarrow> int \<Rightarrow> ustime" where
  "stamp y n t = (days_to_year (nat (y - 1970)) + n) * 86400000000 + t"

lemma year_estimate:
  assumes y: "1970 \<le> y" "y < 3000" and n: "0 \<le> n" "n < year_len y"
  defines "d \<equiv> days_to_year (nat (y - 1970)) + n"
  defines "yr \<equiv> d div 365 + 1969"
  defines "diy \<equiv> d mod 365 - (yr div 4 - yr div 100 + yr div 400) + 477"
  shows "0 \<le> d" "d div 365 < 2000"
    "(if diy < 0 then (yr - 1, diy + 365) else (yr, diy)) =
      (y - 1, if off_by_one y n then n - 1 else n)"
proof -
  have d: "d = 365 * (y - 1970) + (leap_days_to y + n)"
    using y days_to_year_eq [of "nat (y - 1970)"] by (simp add: d_def)
  have l: "0 \<le> leap_days_to y" "leap_days_to y < 365" using y leap_days_nonneg leap_days_less by auto
  show "0 \<le> d" using d l n y by simp
  have n': "n \<le> 365" using n by (auto simp: year_len_def split: if_splits)
  have "d < 730000" using d l n' y by simp
  then show "d div 365 < 2000" by linarith
  have lp: "yr = y - 1 \<Longrightarrow> yr div 4 - yr div 100 + yr div 400 = leap_days_to y + 477"
    "yr = y \<Longrightarrow> yr div 4 - yr div 100 + yr div 400 =
      leap_days_to y + (if leap_year y then 1 else 0) + 477"
    using leap_days_step [of y] by (auto simp: leap_days_to_def)
  show "(if diy < 0 then (yr - 1, diy + 365) else (yr, diy)) =
      (y - 1, if off_by_one y n then n - 1 else n)"
  proof (cases "leap_days_to y + n < 365")
    case True
    have "d div 365 = y - 1970" using d True l n by (intro int_div_pos_eq [of _ _ _ "leap_days_to y + n"]) auto
    moreover from this have "d mod 365 = leap_days_to y + n" using d
      by (metis add_diff_cancel_left' minus_mult_div_eq_mod)
    ultimately have "yr = y - 1" "diy = n" using lp(1) by (auto simp: yr_def diy_def)
    with True n show ?thesis by (simp add: off_by_one_def)
  next
    case False
    have "d div 365 = y - 1969"
      using d False l n' by (intro int_div_pos_eq [of _ _ _ "leap_days_to y + n - 365"]) auto
    moreover from this have "d mod 365 = leap_days_to y + n - 365" using d
      by (simp add: minus_mult_div_eq_mod [symmetric])
    ultimately have "yr = y" "diy = n - 365 - (if leap_year y then 1 else 0)"
      using lp(2) by (auto simp: yr_def diy_def)
    then show ?thesis using False n by (auto simp: off_by_one_def year_len_def)
  qed
qed

text \<open>The clock fields of a stamp come from the time of day alone.\<close>

lemma split_day:
  fixes d :: int
  assumes "0 \<le> t" "t < 86400000000"
  shows "(d * 86400000000 + t) div 1000000 = d * 86400 + t div 1000000"
    and "(d * 86400000000 + t) mod 1000000 = t mod 1000000"
    and "(d * 86400 + t div 1000000) mod 60 = t div 1000000 mod 60"
    and "(d * 86400 + t div 1000000) div 60 = d * 1440 + t div 60000000"
    and "(d * 1440 + t div 60000000) mod 60 = t div 60000000 mod 60"
    and "(d * 1440 + t div 60000000) div 60 = d * 24 + t div 3600000000"
    and "(d * 24 + t div 3600000000) mod 24 = t div 3600000000"
    and "(d * 24 + t div 3600000000) div 24 = d"
proof -
  have "d * 86400000000 + t = t + (d * 86400) * 1000000" by simp
  then show "(d * 86400000000 + t) div 1000000 = d * 86400 + t div 1000000"
    "(d * 86400000000 + t) mod 1000000 = t mod 1000000"
    by (simp_all only: div_mult_self1 mod_mult_self1)
  have "d * 86400 + t div 1000000 = t div 1000000 + (d * 1440) * 60" by simp
  then show "(d * 86400 + t div 1000000) mod 60 = t div 1000000 mod 60"
    "(d * 86400 + t div 1000000) div 60 = d * 1440 + t div 60000000"
    using zdiv_zmult2_eq [of 60 t 1000000] by (simp_all only: div_mult_self1 mod_mult_self1)
  have "d * 1440 + t div 60000000 = t div 60000000 + (d * 24) * 60" by simp
  then show "(d * 1440 + t div 60000000) mod 60 = t div 60000000 mod 60"
    "(d * 1440 + t div 60000000) div 60 = d * 24 + t div 3600000000"
    using zdiv_zmult2_eq [of 60 t 60000000] by (simp_all only: div_mult_self1 mod_mult_self1)
  have h: "0 \<le> t div 3600000000" "t div 3600000000 < 24" using assms by auto
  then show "(d * 24 + t div 3600000000) mod 24 = t div 3600000000"
    "(d * 24 + t div 3600000000) div 24 = d" by simp_all
qed




end
