(* ===== verification/RtText.thy ===== *)
theory RtText
  imports Prelude
begin

text \<open>
  Number, time span, size and EUI parsing and little-endian reads of src/src/rt.c.
  Parsers take the text and the offset of the pointer they are given and return the value with the
  offset they leave it at. Digit overflow of a 64-bit result is signed overflow in the code and
  outside the model of \<open>rt_readDec\<close>; \<open>rt_readEui\<close> works on unsigned values and wraps.
\<close>

section \<open>Reads in byte order\<close>

definition rt_rlsbf2 :: "bytes \<Rightarrow> nat \<Rightarrow> u2" where
  "rt_rlsbf2 buf i = buf ! i + buf ! (i + 1) * 256"

definition rt_rmsbf2 :: "bytes \<Rightarrow> nat \<Rightarrow> u2" where
  "rt_rmsbf2 buf i = buf ! i * 256 + buf ! (i + 1)"

definition rt_rlsbf4 :: "bytes \<Rightarrow> nat \<Rightarrow> u4" where
  "rt_rlsbf4 buf i = buf ! i + buf ! (i + 1) * 2 ^ 8 + buf ! (i + 2) * 2 ^ 16 + buf ! (i + 3) * 2 ^ 24"

definition rt_rlsbf8 :: "bytes \<Rightarrow> nat \<Rightarrow> uL" where
  "rt_rlsbf8 buf i = rt_rlsbf4 buf i + rt_rlsbf4 buf (i + 4) * 2 ^ 32"

section \<open>Decimal and hexadecimal numbers\<close>

definition rt_hexDigit :: "nat \<Rightarrow> int" where
  "rt_hexDigit c =
     (if 48 \<le> c \<and> c \<le> 57 then int c - 48
      else if 97 \<le> c \<and> c \<le> 102 then int c - (97 - 10)
      else if 65 \<le> c \<and> c \<le> 70 then int c - (65 - 10)
      else -1)"

lemma rt_hexDigit_range: "-1 \<le> rt_hexDigit c \<and> rt_hexDigit c < 16"
  by (simp add: rt_hexDigit_def)

lemma rt_hexDigit_0 [simp]: "rt_hexDigit 0 = -1"
  by (simp add: rt_hexDigit_def)

lemma rt_hexDigit_in: "0 \<le> rt_hexDigit (ch s i) \<Longrightarrow> i < length s"
  by (rule ccontr) simp

function read_hex :: "bytes \<Rightarrow> nat \<Rightarrow> nat \<Rightarrow> sL \<Rightarrow> nat \<times> sL" where
  "read_hex s p n v =
     (if rt_hexDigit (ch s (p + n)) \<ge> 0
      then read_hex s p (Suc n) (v * 16 + rt_hexDigit (ch s (p + n))) else (n, v))"
  by pat_completeness auto
termination
  by (relation "measure (\<lambda>(s, p, n, v). length s - (p + n))") (auto dest: rt_hexDigit_in)

function read_dec :: "bytes \<Rightarrow> nat \<Rightarrow> nat \<Rightarrow> sL \<Rightarrow> nat \<times> sL" where
  "read_dec s p n v =
     (if 48 \<le> ch s (p + n) \<and> ch s (p + n) \<le> 57
      then read_dec s p (Suc n) (v * 10 + (int (ch s (p + n)) - 48)) else (n, v))"
  by pat_completeness auto
termination
  by (relation "measure (\<lambda>(s, p, n, v). length s - (p + n))") (auto simp: ch_def split: if_splits)

declare read_hex.simps [simp del] read_dec.simps [simp del]

text \<open>\<open>rt_readDec\<close> on a pointer that is not NULL.\<close>

definition rt_readDec :: "bytes \<Rightarrow> nat \<Rightarrow> sL \<times> nat" where
  "rt_readDec s p =
     (let hex = (ch s p = 48 \<and> (ch s (p + 1) = 88 \<or> ch s (p + 1) = 120));
          p' = (if hex then p + 2 else p);
          (n, v) = (if hex then read_hex s p' 0 0 else read_dec s p' 0 0)
      in (if n = 0 then -1 else v, p' + n))"

lemma read_hex_props:
  "read_hex s p n v = (n', v') \<Longrightarrow> p + n \<le> length s \<Longrightarrow>
     n \<le> n' \<and> p + n' \<le> length s \<and> (0 \<le> v \<longrightarrow> 0 \<le> v')"
proof (induction s p n v rule: read_hex.induct)
  case (1 s p n v)
  show ?case
  proof (cases "rt_hexDigit (ch s (p + n)) \<ge> 0")
    case True
    with "1.prems" have "read_hex s p (Suc n) (v * 16 + rt_hexDigit (ch s (p + n))) = (n', v')"
      by (simp add: read_hex.simps [of s p n v])
    with "1.IH" True rt_hexDigit_in [OF True] show ?thesis by fastforce
  qed (use "1.prems" in \<open>simp add: read_hex.simps [of s p n v]\<close>)
qed

lemma read_dec_props:
  "read_dec s p n v = (n', v') \<Longrightarrow> p + n \<le> length s \<Longrightarrow>
     n \<le> n' \<and> p + n' \<le> length s \<and> (0 \<le> v \<longrightarrow> 0 \<le> v')"
proof (induction s p n v rule: read_dec.induct)
  case (1 s p n v)
  show ?case
  proof (cases "48 \<le> ch s (p + n) \<and> ch s (p + n) \<le> 57")
    case True
    with "1.prems" have "read_dec s p (Suc n) (v * 10 + (int (ch s (p + n)) - 48)) = (n', v')"
      by (simp add: read_dec.simps [of s p n v])
    moreover have "p + n < length s" using True by (auto simp: ch_def split: if_splits)
    ultimately show ?thesis using "1.IH" True by fastforce
  qed (use "1.prems" in \<open>auto simp: read_dec.simps [of s p n v] split: if_splits\<close>)
qed

lemma ch_nonzero_in: "ch s p \<noteq> 0 \<Longrightarrow> p < length s"
  by (rule ccontr) simp

lemma rt_readDec_props:
  assumes "rt_readDec s p = (v, q)" and "p \<le> length s"
  shows "p \<le> q \<and> q \<le> length s \<and> -1 \<le> v \<and> (0 \<le> v \<longrightarrow> p < q)"
proof (cases "ch s p = 48 \<and> (ch s (p + 1) = 88 \<or> ch s (p + 1) = 120)")
  case True
  then have "p + 2 \<le> length s" using ch_nonzero_in [of s "p + 1"] by auto
  moreover obtain n w where "read_hex s (p + 2) 0 0 = (n, w)" by fastforce
  ultimately show ?thesis using assms True read_hex_props [of s "p + 2" 0 0 n w]
    by (auto simp: rt_readDec_def split: if_splits)
next
  case False
  obtain n w where "read_dec s p 0 0 = (n, w)" by fastforce
  then show ?thesis using assms False read_dec_props [of s p 0 0 n w]
    by (auto simp: rt_readDec_def split: if_splits)
qed

lemma rt_readDec_progress:
  assumes "rt_readDec s p = (v, q)" and "0 \<le> v"
  shows "p < q \<and> q \<le> length s"
proof (cases "p \<le> length s")
  case False
  then have "v = -1"
    using assms(1) by (simp add: rt_readDec_def read_dec.simps [of s p 0 0])
  with assms(2) show ?thesis by simp
qed (use rt_readDec_props [OF assms(1)] assms(2) in simp)

section \<open>Time spans and sizes\<close>

definition rt_seconds :: "int \<Rightarrow> ustime" where "rt_seconds n = n * 1000000"
definition rt_millis :: "int \<Rightarrow> ustime" where "rt_millis n = n * 1000"

text \<open>The unit after a number: its length in micros and the characters it takes; \<open>None\<close>: no unit.\<close>

definition span_unit :: "bytes \<Rightarrow> nat \<Rightarrow> (ustime \<times> nat) option" where
  "span_unit s p =
     (if ch s p = 100 then Some (rt_seconds (24 * 3600), 1)
      else if ch s p = 104 then Some (rt_seconds 3600, 1)
      else if ch s p = 109 then
        (if ch s (p + 1) = 115 then Some (rt_millis 1, 2) else Some (rt_seconds 60, 1))
      else if ch s p = 115 then Some (rt_seconds 1, 1)
      else None)"

text \<open>
  \<open>rt_readSpan\<close>: numbers with units are summed up. The offset is written back only where a number
  is missing; \<open>None\<close> for the offset is the early return that leaves the caller's pointer alone.
\<close>

function read_span :: "bytes \<Rightarrow> nat \<Rightarrow> ustime \<Rightarrow> sL \<Rightarrow> sL \<times> nat option" where
  "read_span s p dflt span =
     (let (v, q) = rt_readDec s p in
      if v < 0 then (span, Some q)
      else (case span_unit s q of
              Some (u, k) \<Rightarrow> read_span s (q + k) dflt ((if span < 0 then 0 else span) + v * u)
            | None \<Rightarrow> if dflt = 0 then (-1, None)
                      else read_span s q dflt ((if span < 0 then 0 else span) + v * dflt)))"
  by pat_completeness auto
termination
  by (relation "measure (\<lambda>(s, p, dflt, span). length s - p)")
     (auto simp: not_less dest!: rt_readDec_progress [OF sym])

definition rt_readSpan :: "bytes \<Rightarrow> nat \<Rightarrow> ustime \<Rightarrow> sL \<times> nat option" where
  "rt_readSpan s p dflt = read_span s p dflt (-1)"

definition size_unit :: "bytes \<Rightarrow> nat \<Rightarrow> (sL \<times> nat) option" where
  "size_unit s p =
     (let uu = (if ch s p \<noteq> 0 \<and> (ch s (p + 1) = 98 \<or> ch s (p + 1) = 66) then 1024 else 1000 :: int);
          k = (if uu = 1000 then 1 else 2)
      in if ch s p = 107 \<or> ch s p = 75 then Some (uu, k)
         else if ch s p = 109 \<or> ch s p = 77 then Some (uu * uu, k)
         else if ch s p = 103 \<or> ch s p = 71 then Some (uu * uu * uu, k)
         else None)"

function read_size :: "bytes \<Rightarrow> nat \<Rightarrow> ustime \<Rightarrow> sL \<Rightarrow> sL \<times> nat option" where
  "read_size s p dflt sz =
     (let (v, q) = rt_readDec s p in
      if v < 0 then (sz, Some q)
      else (case size_unit s q of
              Some (u, k) \<Rightarrow> read_size s (q + k) dflt ((if sz < 0 then 0 else sz) + v * u)
            | None \<Rightarrow> if dflt = 0 then (-1, None)
                      else read_size s q dflt ((if sz < 0 then 0 else sz) + v * dflt)))"
  by pat_completeness auto
termination
  by (relation "measure (\<lambda>(s, p, dflt, size). length s - p)")
     (auto simp: not_less dest!: rt_readDec_progress [OF sym])

definition rt_readSize :: "bytes \<Rightarrow> nat \<Rightarrow> ustime \<Rightarrow> sL \<times> nat option" where
  "rt_readSize s p dflt = read_size s p dflt (-1)"

declare read_span.simps [simp del] read_size.simps [simp del]

section \<open>EUIs\<close>

text \<open>
  \<open>parseId6Fragment\<close> reads groups of up to four hex digits from the right. The loop runs over the
  fragment reversed; \<open>sh\<close> is the shift inside the grp (\<open>s\<close> in the code). A shift of 64 or more is
  only reached in a grp that is rejected later.
\<close>

fun id6_loop :: "bytes \<Rightarrow> nat \<Rightarrow> nat \<Rightarrow> uL \<Rightarrow> (nat \<times> uL) option" where
  "id6_loop [] sh bits grp = (if sh = 0 \<or> sh > 16 then None else Some (bits, grp))"
| "id6_loop (c # cs) sh bits grp =
     (let x = rt_hexDigit c in
      if x < 0 then (if sh = 0 \<or> sh > 16 then None else id6_loop cs 0 (bits + 16) grp)
      else id6_loop cs (sh + 4) bits (grp OR (nat x * 2 ^ (sh + bits - 16)) mod 2 ^ 64))"

definition parseId6Fragment :: "bytes \<Rightarrow> nat \<Rightarrow> nat \<Rightarrow> (nat \<times> uL) option" where
  "parseId6Fragment s p n = id6_loop (rev (blk p n s)) 0 16 0"

text \<open>The scan of \<open>rt_readEui\<close>: characters taken, dashes, colons and hex digits seen.\<close>

function eui_scan :: "bytes \<Rightarrow> nat \<Rightarrow> nat \<Rightarrow> nat \<Rightarrow> nat \<Rightarrow> nat \<Rightarrow> nat \<Rightarrow> nat \<times> nat \<times> nat \<times> nat" where
  "eui_scan s p len n dashes colons hexdigits =
     (let c = ch s (p + n) in
      if (len = 0 \<or> n < len) \<and> c \<noteq> 0 then
        (if c = 45 then eui_scan s p len (Suc n) (Suc dashes) colons hexdigits
         else if c = 58 then eui_scan s p len (Suc n) dashes (Suc colons) hexdigits
         else if rt_hexDigit c \<ge> 0 then eui_scan s p len (Suc n) dashes colons (Suc hexdigits)
         else (n, dashes, colons, hexdigits))
      else (n, dashes, colons, hexdigits))"
  by pat_completeness auto
termination
  by (relation "measure (\<lambda>(s, p, len, n, _). length s - (p + n))")
     (auto intro!: diff_less_mono2 ch_nonzero_in)

declare eui_scan.simps [simp del]

text \<open>First position of a double colon among the \<open>n\<close> characters at \<open>p\<close>.\<close>

definition double_colon :: "bytes \<Rightarrow> nat \<Rightarrow> nat \<Rightarrow> nat option" where
  "double_colon s p n = find (\<lambda>i. ch s (p + i) = 58 \<and> ch s (p + i - 1) = 58) [1..<n]"

definition read_id6 :: "bytes \<Rightarrow> nat \<Rightarrow> nat \<Rightarrow> uL option" where
  "read_id6 s p n =
     (case double_colon s p n of
        Some i \<Rightarrow>
          (if i = 1 then map_option snd (parseId6Fragment s (p + 2) (n - 2))
           else if i = n - 1 then
             map_option (\<lambda>(bits, eui). eui * 2 ^ (64 - bits) mod 2 ^ 64) (parseId6Fragment s p (n - 2))
           else
             (case parseId6Fragment s p (i - 1) of
                None \<Rightarrow> None
              | Some (bits, euix) \<Rightarrow>
                  map_option (\<lambda>(_, eui). eui OR (euix * 2 ^ (64 - bits) mod 2 ^ 64))
                    (parseId6Fragment s (p + i + 1) (n - i - 1))))
      | None \<Rightarrow> map_option snd (parseId6Fragment s p n))"

definition eui_hex :: "bytes \<Rightarrow> uL" where
  "eui_hex cs = foldl (\<lambda>eui c. if rt_hexDigit c \<ge> 0
     then ((eui * 16) mod 2 ^ 64) OR nat (rt_hexDigit c) else eui) 0 cs"

text \<open>\<open>rt_readEui\<close>: the value and, where the code advances it, the new offset.\<close>

definition rt_readEui :: "bytes \<Rightarrow> nat \<Rightarrow> nat \<Rightarrow> uL \<times> nat option" where
  "rt_readEui s p len =
     (let (n, dashes, colons, hexdigits) = eui_scan s p len 0 0 0 0 in
      if hexdigits = 0 \<or> (dashes \<noteq> 0 \<and> colons \<noteq> 0) \<or> dashes > 7 \<or> colons > 7 \<or> hexdigits > 16
      then (0, None)
      else if colons = 2 \<or> colons = 3 then
        (case read_id6 s p n of Some eui \<Rightarrow> (eui, Some (p + n)) | None \<Rightarrow> (0, None))
      else (eui_hex (blk p n s), Some (p + n)))"

end
