(* ===== verification/RtCrc.thy ===== *)
theory RtCrc
  imports Prelude
begin

text \<open>
  The CRC-32 of src/src/rt.c: the constant table, the table driven checksum, the generator of the
  build tool src/src/crc32.c, and the equivalence with bit by bit division.
\<close>

section \<open>CRC-32\<close>

definition crc_table :: "32 word list" where
  "crc_table = [
    0, 1996959894, 3993919788, 2567524794, 124634137, 1886057615, 3915621685, 2657392035,
    249268274, 2044508324, 3772115230, 2547177864, 162941995, 2125561021, 3887607047, 2428444049,
    498536548, 1789927666, 4089016648, 2227061214, 450548861, 1843258603, 4107580753, 2211677639,
    325883990, 1684777152, 4251122042, 2321926636, 335633487, 1661365465, 4195302755, 2366115317,
    997073096, 1281953886, 3579855332, 2724688242, 1006888145, 1258607687, 3524101629, 2768942443,
    901097722, 1119000684, 3686517206, 2898065728, 853044451, 1172266101, 3705015759, 2882616665,
    651767980, 1373503546, 3369554304, 3218104598, 565507253, 1454621731, 3485111705, 3099436303,
    671266974, 1594198024, 3322730930, 2970347812, 795835527, 1483230225, 3244367275, 3060149565,
    1994146192, 31158534, 2563907772, 4023717930, 1907459465, 112637215, 2680153253, 3904427059,
    2013776290, 251722036, 2517215374, 3775830040, 2137656763, 141376813, 2439277719, 3865271297,
    1802195444, 476864866, 2238001368, 4066508878, 1812370925, 453092731, 2181625025, 4111451223,
    1706088902, 314042704, 2344532202, 4240017532, 1658658271, 366619977, 2362670323, 4224994405,
    1303535960, 984961486, 2747007092, 3569037538, 1256170817, 1037604311, 2765210733, 3554079995,
    1131014506, 879679996, 2909243462, 3663771856, 1141124467, 855842277, 2852801631, 3708648649,
    1342533948, 654459306, 3188396048, 3373015174, 1466479909, 544179635, 3110523913, 3462522015,
    1591671054, 702138776, 2966460450, 3352799412, 1504918807, 783551873, 3082640443, 3233442989,
    3988292384, 2596254646, 62317068, 1957810842, 3939845945, 2647816111, 81470997, 1943803523,
    3814918930, 2489596804, 225274430, 2053790376, 3826175755, 2466906013, 167816743, 2097651377,
    4027552580, 2265490386, 503444072, 1762050814, 4150417245, 2154129355, 426522225, 1852507879,
    4275313526, 2312317920, 282753626, 1742555852, 4189708143, 2394877945, 397917763, 1622183637,
    3604390888, 2714866558, 953729732, 1340076626, 3518719985, 2797360999, 1068828381, 1219638859,
    3624741850, 2936675148, 906185462, 1090812512, 3747672003, 2825379669, 829329135, 1181335161,
    3412177804, 3160834842, 628085408, 1382605366, 3423369109, 3138078467, 570562233, 1426400815,
    3317316542, 2998733608, 733239954, 1555261956, 3268935591, 3050360625, 752459403, 1541320221,
    2607071920, 3965973030, 1969922972, 40735498, 2617837225, 3943577151, 1913087877, 83908371,
    2512341634, 3803740692, 2075208622, 213261112, 2463272603, 3855990285, 2094854071, 198958881,
    2262029012, 4057260610, 1759359992, 534414190, 2176718541, 4139329115, 1873836001, 414664567,
    2282248934, 4279200368, 1711684554, 285281116, 2405801727, 4167216745, 1634467795, 376229701,
    2685067896, 3608007406, 1308918612, 956543938, 2808555105, 3495958263, 1231636301, 1047427035,
    2932959818, 3654703836, 1088359270, 936918000, 2847714899, 3736837829, 1202900863, 817233897,
    3183342108, 3401237130, 1404277552, 615818150, 3134207493, 3453421203, 1423857449, 601450431,
    3009837614, 3294710456, 1567103746, 711928724, 3020668471, 3272380065, 1510334235, 755167117]"

definition crc32_byte :: "32 word \<Rightarrow> 8 word \<Rightarrow> 32 word" where
  "crc32_byte crc b = crc_table ! unat ((crc XOR ucast b) AND 0xFF) XOR drop_bit 8 crc"

definition rt_crc32 :: "32 word \<Rightarrow> 8 word list \<Rightarrow> 32 word" where
  "rt_crc32 crc buf = foldl crc32_byte (crc XOR NOT 0) buf XOR NOT 0"

text \<open>The generator of the table in src/src/crc32.c: eight steps of division by the polynomial.\<close>

definition crc_step :: "32 word \<Rightarrow> 32 word" where
  "crc_step r = drop_bit 1 r XOR (0xEDB88320 * (r AND 1))"

definition crc_gen :: "32 word \<Rightarrow> 32 word" where
  "crc_gen b = (crc_step ^^ 8) b"

lemma crc_gen_unfold:
  "crc_gen b = crc_step (crc_step (crc_step (crc_step (crc_step (crc_step (crc_step (crc_step b)))))))"
  by (simp add: crc_gen_def eval_nat_numeral)

lemma crc_step_alt: "crc_step r = (if odd r then drop_bit 1 r XOR 0xEDB88320 else drop_bit 1 r)"
  by (simp add: crc_step_def and_one_eq mod_2_eq_odd)

lemma crc_step_xor: "crc_step (a XOR b) = crc_step a XOR crc_step b"
  by (auto simp: crc_step_alt even_xor_iff drop_bit_xor xor.assoc xor.commute xor.left_commute)

lemma crc_gen_xor: "crc_gen (a XOR b) = crc_gen a XOR crc_gen b"
  by (simp add: crc_gen_def crc_step_xor eval_nat_numeral)

text \<open>Only the 32 bytes with one zero nibble are divided out; linearity gives the rest.\<close>

definition nibbles :: "(32 word \<times> 32 word) list" where
  "nibbles = List.product [0, 16, 32, 48, 64, 80, 96, 112, 128, 144, 160, 176, 192, 208, 224, 240]
     [0, 1, 2, 3, 4, 5, 6, 7, 8, 9, 10, 11, 12, 13, 14, 15]"

lemma gen_nibbles:
  "crc_gen 0 = 0"
  "crc_gen 1 = 1996959894"
  "crc_gen 2 = 3993919788"
  "crc_gen 3 = 2567524794"
  "crc_gen 4 = 124634137"
  "crc_gen 5 = 1886057615"
  "crc_gen 6 = 3915621685"
  "crc_gen 7 = 2657392035"
  "crc_gen 8 = 249268274"
  "crc_gen 9 = 2044508324"
  "crc_gen 10 = 3772115230"
  "crc_gen 11 = 2547177864"
  "crc_gen 12 = 162941995"
  "crc_gen 13 = 2125561021"
  "crc_gen 14 = 3887607047"
  "crc_gen 15 = 2428444049"
  "crc_gen 16 = 498536548"
  "crc_gen 32 = 997073096"
  "crc_gen 48 = 651767980"
  "crc_gen 64 = 1994146192"
  "crc_gen 80 = 1802195444"
  "crc_gen 96 = 1303535960"
  "crc_gen 112 = 1342533948"
  "crc_gen 128 = 3988292384"
  "crc_gen 144 = 4027552580"
  "crc_gen 160 = 3604390888"
  "crc_gen 176 = 3412177804"
  "crc_gen 192 = 2607071920"
  "crc_gen 208 = 2262029012"
  "crc_gen 224 = 2685067896"
  "crc_gen 240 = 3183342108"
  by (simp_all add: crc_gen_unfold crc_step_alt)

lemma nibbles_xor: "map (\<lambda>(h, l). h XOR l) nibbles = map of_nat [0..<256]"
proof -
  have "map of_nat [0..<256] = ([
     0, 1, 2, 3, 4, 5, 6, 7, 8, 9, 10, 11, 12, 13, 14, 15,
     16, 17, 18, 19, 20, 21, 22, 23, 24, 25, 26, 27, 28, 29, 30, 31,
     32, 33, 34, 35, 36, 37, 38, 39, 40, 41, 42, 43, 44, 45, 46, 47,
     48, 49, 50, 51, 52, 53, 54, 55, 56, 57, 58, 59, 60, 61, 62, 63,
     64, 65, 66, 67, 68, 69, 70, 71, 72, 73, 74, 75, 76, 77, 78, 79,
     80, 81, 82, 83, 84, 85, 86, 87, 88, 89, 90, 91, 92, 93, 94, 95,
     96, 97, 98, 99, 100, 101, 102, 103, 104, 105, 106, 107, 108, 109, 110, 111,
     112, 113, 114, 115, 116, 117, 118, 119, 120, 121, 122, 123, 124, 125, 126, 127,
     128, 129, 130, 131, 132, 133, 134, 135, 136, 137, 138, 139, 140, 141, 142, 143,
     144, 145, 146, 147, 148, 149, 150, 151, 152, 153, 154, 155, 156, 157, 158, 159,
     160, 161, 162, 163, 164, 165, 166, 167, 168, 169, 170, 171, 172, 173, 174, 175,
     176, 177, 178, 179, 180, 181, 182, 183, 184, 185, 186, 187, 188, 189, 190, 191,
     192, 193, 194, 195, 196, 197, 198, 199, 200, 201, 202, 203, 204, 205, 206, 207,
     208, 209, 210, 211, 212, 213, 214, 215, 216, 217, 218, 219, 220, 221, 222, 223,
     224, 225, 226, 227, 228, 229, 230, 231, 232, 233, 234, 235, 236, 237, 238, 239,
     240, 241, 242, 243, 244, 245, 246, 247, 248, 249, 250, 251, 252, 253, 254, 255] :: 32 word list)"
    by (simp add: upt_rec)
  then show ?thesis by (simp add: nibbles_def)
qed

lemma crc_table_nibbles: "crc_table = map (\<lambda>(h, l). crc_gen h XOR crc_gen l) nibbles"
  by (simp add: crc_table_def nibbles_def gen_nibbles)

lemma crc_table_gen: "b < 256 \<Longrightarrow> crc_table ! unat b = crc_gen b"
proof -
  assume "b < 256"
  then have b: "unat b < 256" by (simp add: word_less_nat_alt)
  have "crc_table = map crc_gen (map (\<lambda>(h, l). h XOR l) nibbles)"
    by (auto simp: crc_table_nibbles crc_gen_xor)
  also have "\<dots> ! unat b = crc_gen b" using b by (simp add: nibbles_xor)
  finally show ?thesis .
qed

lemma crc_step_high: "take_bit k y = 0 \<Longrightarrow> (crc_step ^^ k) y = drop_bit k y"
proof (induction k arbitrary: y)
  case (Suc k)
  have "even y" using Suc.prems by (metis bit_0 bit_take_bit_iff bit_0_eq zero_less_Suc bot_apply bot_bool_def)
  then have "crc_step y = drop_bit 1 y" by (simp add: crc_step_alt)
  moreover have "take_bit k (drop_bit 1 y) = 0"
    using Suc.prems by (simp add: take_bit_drop_bit)
  ultimately show ?case using Suc.IH [of "drop_bit 1 y"] by (simp add: funpow_swap1 drop_bit_drop_bit del: drop_bit_Suc)
qed simp

lemma crc32_byte_bitwise: "crc32_byte crc b = (crc_step ^^ 8) (crc XOR ucast b)"
proof -
  let ?x = "crc XOR ucast b"
  have split: "?x = take_bit 8 ?x XOR (?x AND NOT (mask 8))"
    by (rule bit_word_eqI) (auto simp: bit_simps)
  have "take_bit 8 (?x AND NOT (mask 8)) = 0"
    by (rule bit_word_eqI) (auto simp: bit_simps)
  then have "crc_gen (?x AND NOT (mask 8)) = drop_bit 8 (?x AND NOT (mask 8))"
    unfolding crc_gen_def by (rule crc_step_high)
  also have "\<dots> = drop_bit 8 crc"
    by (rule bit_word_eqI) (auto simp: bit_simps dest: bit_imp_le_length)
  finally have high: "crc_gen (?x AND NOT (mask 8)) = drop_bit 8 crc" .
  have m: "?x AND 0xFF = take_bit 8 ?x" by (simp add: take_bit_eq_mask mask_eq_exp_minus_1)
  have "take_bit 8 ?x < 256" by (simp add: take_bit_eq_mod word_mod_less_divisor)
  then have "crc_table ! unat (take_bit 8 ?x) = crc_gen (take_bit 8 ?x)" by (rule crc_table_gen)
  then have "crc32_byte crc b = crc_gen (take_bit 8 ?x) XOR crc_gen (?x AND NOT (mask 8))"
    by (simp only: crc32_byte_def m high)
  also have "\<dots> = crc_gen ?x" using split crc_gen_xor by metis
  finally show ?thesis by (simp only: crc_gen_def)
qed

text \<open>C33: The table-driven \<open>rt_crc32\<close> computes the bitwise CRC-32 (reflected polynomial
  0xEDB88320, initial and final complement) that the table generator in crc32.c specifies, and it
  can be computed piecewise: feeding a buffer in two parts through the running value gives the
  value of the whole buffer.\<close>

theorem rt_crc32_correct:
  "rt_crc32 crc buf = foldl (\<lambda>r b. (crc_step ^^ 8) (r XOR ucast b)) (NOT crc) buf XOR NOT 0 \<and>
   rt_crc32 (rt_crc32 crc buf) buf' = rt_crc32 crc (buf @ buf')"
proof
  have "crc32_byte = (\<lambda>r b. (crc_step ^^ 8) (r XOR ucast b))"
    by (intro ext) (rule crc32_byte_bitwise)
  then show "rt_crc32 crc buf = foldl (\<lambda>r b. (crc_step ^^ 8) (r XOR ucast b)) (NOT crc) buf XOR NOT 0"
    by (simp add: rt_crc32_def)
  show "rt_crc32 (rt_crc32 crc buf) buf' = rt_crc32 crc (buf @ buf')"
    by (simp add: rt_crc32_def xor.assoc)
qed

end
