(* ===== verification/Txq.thy ===== *)
theory Txq
  imports Prelude "HOL-Library.Monad_Syntax"
begin

text \<open>
  The job queues between radio and server, src/src/xq.c. \<open>txq\<close> is a pool of TX jobs in singly
  linked lists (one free list, one queue per TX unit) with a compacted area for the frames;
  \<open>rxq\<close> is a FIFO of received frames whose used window moves through fixed arrays. \<open>txq_ok\<close> and
  \<open>rxq_ok\<close> are their invariants.
\<close>

section \<open>TX queue: state\<close>

definition MAX_TXJOBS :: nat where "MAX_TXJOBS = 128"
definition MAX_TXDATA :: nat where "MAX_TXDATA = 16384"
definition TXIDX_NIL :: nat where "TXIDX_NIL = 255"
definition TXIDX_END :: nat where "TXIDX_END = 254"
definition TXOFF_NIL :: nat where "TXOFF_NIL = 65535"

text \<open>The struct \<open>txjob_t\<close>, fields in its order; a job is named by its index in the pool.\<close>

record txjob =
  j_txtime :: ustime
  j_deveui :: uL
  j_diid :: sL
  j_rctx :: sL
  j_gpstime :: sL
  j_xtime :: sL
  j_freq :: u4
  j_rx2freq :: u4
  j_airtime :: u4
  j_next :: u1
  j_off :: u2
  j_txpow :: s2
  j_txunit :: u1
  j_altAnts :: u1
  j_txflags :: u1
  j_retries :: u1
  j_dr :: u1
  j_rx2dr :: u1
  j_rxdelay :: u1
  j_len :: u1
  j_prio :: u1
  j_dnchnl :: u1
  j_dnchnl2 :: u1
  j_addcrc :: u1
  j_preamble :: u2

definition zero_txjob :: txjob where
  "zero_txjob = \<lparr>j_txtime = 0, j_deveui = 0, j_diid = 0, j_rctx = 0, j_gpstime = 0, j_xtime = 0,
     j_freq = 0, j_rx2freq = 0, j_airtime = 0, j_next = 0, j_off = 0, j_txpow = 0, j_txunit = 0,
     j_altAnts = 0, j_txflags = 0, j_retries = 0, j_dr = 0, j_rx2dr = 0, j_rxdelay = 0, j_len = 0,
     j_prio = 0, j_dnchnl = 0, j_dnchnl2 = 0, j_addcrc = 0, j_preamble = 0\<rparr>"

text \<open>
  \<open>txq_t\<close>, with the queue heads \<open>txunits[u].head\<close> of \<open>s2ctx_t\<close> that point into its pool.
\<close>

record txq =
  txjobs :: "txjob list"
  txdata :: bytes
  freeJobs :: u1
  txdataInUse :: u2
  heads :: "u1 list"

text \<open>A \<open>txidx_t*\<close>: the free list, the head of a TX unit, or the next field of a job.\<close>

datatype txlink = LFree | LHead nat | LNext nat

fun rd_idx :: "txq \<Rightarrow> txlink \<Rightarrow> nat" where
  "rd_idx q LFree = freeJobs q"
| "rd_idx q (LHead u) = heads q ! u"
| "rd_idx q (LNext i) = j_next (txjobs q ! i)"

definition upd_job :: "nat \<Rightarrow> (txjob \<Rightarrow> txjob) \<Rightarrow> txq \<Rightarrow> txq" where
  "upd_job i f q = q\<lparr>txjobs := (txjobs q)[i := f (txjobs q ! i)]\<rparr>"

fun wr_idx :: "txlink \<Rightarrow> nat \<Rightarrow> txq \<Rightarrow> txq" where
  "wr_idx LFree v q = q\<lparr>freeJobs := v\<rparr>"
| "wr_idx (LHead u) v q = q\<lparr>heads := (heads q)[u := v]\<rparr>"
| "wr_idx (LNext i) v q = upd_job i (j_next_update (\<lambda>_. v)) q"

section \<open>TX queue: operations\<close>

text \<open>
  Results are \<open>None\<close> for a failing assertion or an index outside the pool; a pointer result is
  \<open>None\<close> inside for \<open>NULL\<close>.
\<close>

fun link_free :: "txjob list \<Rightarrow> nat \<Rightarrow> txjob list" where
  "link_free [] i = []"
| "link_free (j # js) i = j\<lparr>j_next := Suc i, j_off := TXOFF_NIL\<rparr> # link_free js (Suc i)"

text \<open>\<open>txq_ini\<close>, with the heads set as in \<open>s2e_ini\<close>.\<close>

definition txq_ini :: "nat \<Rightarrow> txq" where
  "txq_ini nunits =
     (let jobs = link_free (replicate MAX_TXJOBS zero_txjob) 0 in
      \<lparr>txjobs = jobs[MAX_TXJOBS - 1 := (jobs ! (MAX_TXJOBS - 1))\<lparr>j_next := TXIDX_END\<rparr>],
       txdata = replicate MAX_TXDATA 0, freeJobs = 0, txdataInUse = 0,
       heads = replicate nunits TXIDX_END\<rparr>)"

definition txq_idx2job :: "nat \<Rightarrow> nat option" where
  "txq_idx2job idx = (if idx = TXIDX_NIL \<or> idx = TXIDX_END then None else Some idx)"

definition txq_job2idx :: "nat option \<Rightarrow> nat" where
  "txq_job2idx j = (case j of None \<Rightarrow> TXIDX_NIL | Some i \<Rightarrow> i)"

definition txq_nextJob :: "txq \<Rightarrow> nat option \<Rightarrow> nat option option" where
  "txq_nextJob q j = (case j of None \<Rightarrow> Some None
     | Some i \<Rightarrow>
         if \<not> (i < MAX_TXJOBS \<and> j_next (txjobs q ! i) \<noteq> TXIDX_NIL) then None
         else if j_next (txjobs q ! i) = TXIDX_END then Some None
         else Some (Some (j_next (txjobs q ! i))))"

definition txq_nextIdx :: "txq \<Rightarrow> txlink \<Rightarrow> txlink option" where
  "txq_nextIdx q pidx =
     (if rd_idx q pidx = TXIDX_NIL then None
      else if rd_idx q pidx = TXIDX_END then Some pidx
      else Some (LNext (rd_idx q pidx)))"

definition txq_unqJob :: "txlink \<Rightarrow> txq \<Rightarrow> (nat option \<times> txq) option" where
  "txq_unqJob pidx q =
     (let i = rd_idx q pidx in
      if i = TXIDX_NIL then None
      else if i = TXIDX_END then Some (None, q)
      else if \<not> i < MAX_TXJOBS then None
      else (let q = wr_idx pidx (j_next (txjobs q ! i)) q
            in Some (Some i, upd_job i (j_next_update (\<lambda>_. TXIDX_NIL)) q)))"

definition txq_insJob :: "txlink \<Rightarrow> nat \<Rightarrow> txq \<Rightarrow> txq option" where
  "txq_insJob pidx j q =
     (if \<not> (rd_idx q pidx \<noteq> TXIDX_NIL \<and> j < MAX_TXJOBS \<and> j_next (txjobs q ! j) = TXIDX_NIL) then None
      else (let q = upd_job j (j_next_update (\<lambda>_. rd_idx q pidx)) q
            in Some (wr_idx pidx j q)))"

text \<open>
  \<open>txq_freeData\<close>. The code moves the bytes with \<open>memcpy\<close> although the regions may overlap; the
  model has the ascending copy that keeps the bytes, and \<open>txq_freeData_overlap\<close> below shows the
  overlap.
\<close>

definition fix_off :: "nat \<Rightarrow> nat \<Rightarrow> txjob \<Rightarrow> txjob" where
  "fix_off freeOff freeLen j =
     (if j_off j \<noteq> TXOFF_NIL \<and> freeOff \<le> j_off j
      then j\<lparr>j_off := to_u 16 (int (j_off j) - int freeLen)\<rparr> else j)"

definition txq_freeData :: "nat \<Rightarrow> txq \<Rightarrow> txq option" where
  "txq_freeData j q =
     (let freeOff = j_off (txjobs q ! j); freeLen = j_len (txjobs q ! j) in
      if \<not> j < MAX_TXJOBS then None
      else if freeOff = TXOFF_NIL then Some q
      else
        let q = q\<lparr>txjobs := map (fix_off freeOff freeLen) (txjobs q)\<rparr>;
            freeEnd = (freeOff + freeLen) mod 2 ^ 16 in
        if freeEnd < txdataInUse q \<and> length (txdata q) < txdataInUse q then None
        else
          let q = (if freeEnd < txdataInUse q
                   then q\<lparr>txdata := memmove freeOff freeEnd (txdataInUse q - freeEnd) (txdata q)\<rparr>
                   else q);
              q = q\<lparr>txdataInUse := to_u 16 (int (txdataInUse q) - int freeLen)\<rparr>
          in Some (upd_job j (\<lambda>r. r\<lparr>j_off := TXOFF_NIL, j_len := 0\<rparr>) q))"

definition txq_freeJob :: "nat \<Rightarrow> txq \<Rightarrow> txq option" where
  "txq_freeJob j q = do { q \<leftarrow> txq_freeData j q; txq_insJob LFree j q }"

definition txq_reserveJob :: "txq \<Rightarrow> (nat option \<times> txq) option" where
  "txq_reserveJob q =
     (let idx = freeJobs q in
      if idx = TXIDX_NIL then None
      else if idx = TXIDX_END then Some (None, q)
      else if \<not> (idx < MAX_TXJOBS \<and> j_next (txjobs q ! idx) \<noteq> TXIDX_NIL \<and>
                j_off (txjobs q ! idx) = TXOFF_NIL) then None
      else Some (Some idx,
        upd_job idx (\<lambda>r. zero_txjob\<lparr>j_off := TXOFF_NIL, j_next := j_next r\<rparr>) q))"

definition txq_reserveData :: "txq \<Rightarrow> nat \<Rightarrow> nat option" where
  "txq_reserveData q maxlen =
     (if int maxlen > int MAX_TXDATA - int (txdataInUse q) then None else Some (txdataInUse q))"

definition txq_commitJob :: "nat \<Rightarrow> txq \<Rightarrow> txq option" where
  "txq_commitJob j q =
     (if \<not> (j = freeJobs q \<and> j < MAX_TXJOBS \<and>
           int (j_len (txjobs q ! j)) \<le> int MAX_TXDATA - int (txdataInUse q) \<and>
           j_off (txjobs q ! j) = TXOFF_NIL) then None
      else Some (q\<lparr>freeJobs := j_next (txjobs q ! j),
        txjobs := (txjobs q)[j := (txjobs q ! j)\<lparr>j_next := TXIDX_NIL, j_off := txdataInUse q\<rparr>],
        txdataInUse := (txdataInUse q + j_len (txjobs q ! j)) mod 2 ^ 16\<rparr>))"

section \<open>TX queue: linked lists\<close>

text \<open>
  The lists are numbered: 0 is the free list, \<open>Suc u\<close> the queue of TX unit \<open>u\<close>. \<open>links_ok q ls\<close>
  says the lists hold exactly the jobs \<open>ls\<close>, no job is in two places, and a job in no list is
  marked as such.
\<close>

definition nxt :: "txq \<Rightarrow> nat \<Rightarrow> nat" where
  "nxt q i = j_next (txjobs q ! i)"

definition head_link :: "nat \<Rightarrow> txlink" where
  "head_link k = (case k of 0 \<Rightarrow> LFree | Suc u \<Rightarrow> LHead u)"

definition link_at :: "nat \<Rightarrow> nat list \<Rightarrow> txlink" where
  "link_at k us = (if us = [] then head_link k else LNext (last us))"

definition links_ok :: "txq \<Rightarrow> nat list list \<Rightarrow> bool" where
  "links_ok q ls \<longleftrightarrow> length (txjobs q) = MAX_TXJOBS \<and> length ls = Suc (length (heads q)) \<and>
     (\<forall>k < length ls. path (nxt q) TXIDX_END (rd_idx q (head_link k)) (ls ! k)) \<and>
     (\<forall>k < length ls. \<forall>k' < length ls. k \<noteq> k' \<longrightarrow> set (ls ! k) \<inter> set (ls ! k') = {}) \<and>
     (\<forall>k < length ls. set (ls ! k) \<subseteq> {..<MAX_TXJOBS}) \<and>
     (\<forall>i < MAX_TXJOBS. (\<forall>k < length ls. i \<notin> set (ls ! k)) \<longrightarrow> nxt q i = TXIDX_NIL)"

lemmas tx_consts = MAX_TXJOBS_def TXIDX_NIL_def TXIDX_END_def TXOFF_NIL_def MAX_TXDATA_def

lemma nxt_upd_job [simp]:
  "i < length (txjobs q) \<Longrightarrow> nxt (upd_job i (j_next_update (\<lambda>_. v)) q) = (nxt q)(i := v)"
  by (rule ext) (simp add: nxt_def upd_job_def)

lemma upd_job_fields [simp]:
  "length (txjobs (upd_job i f q)) = length (txjobs q)" "heads (upd_job i f q) = heads q"
  "freeJobs (upd_job i f q) = freeJobs q" "txdata (upd_job i f q) = txdata q"
  "txdataInUse (upd_job i f q) = txdataInUse q"
  by (simp_all add: upd_job_def)

lemma rd_head_upd_job [simp]: "rd_idx (upd_job i f q) (head_link k) = rd_idx q (head_link k)"
  by (cases k) (auto simp: head_link_def)

lemma nxt_wr_head [simp]: "nxt (wr_idx (head_link k) v q) = nxt q"
  by (rule ext) (auto simp: nxt_def head_link_def split: nat.splits)

lemma wr_idx_fields [simp]:
  "length (txjobs (wr_idx l v q)) = length (txjobs q)" "length (heads (wr_idx l v q)) = length (heads q)"
  "txdata (wr_idx l v q) = txdata q" "txdataInUse (wr_idx l v q) = txdataInUse q"
  by (cases l; simp)+

lemma rd_wr_head:
  "k' < Suc (length (heads q)) \<Longrightarrow>
    rd_idx (wr_idx (head_link k) v q) (head_link k') = (if k' = k then v else rd_idx q (head_link k'))"
  by (auto simp: head_link_def split: nat.splits)

lemma path_last_next:
  "path nx e p (xs @ y # ys) \<Longrightarrow> nx y = (case ys of [] \<Rightarrow> e | z # _ \<Rightarrow> z)"
  by (induction xs arbitrary: p) (auto split: list.splits)

lemma path_first: "path nx e p xs \<Longrightarrow> p = (case xs of [] \<Rightarrow> e | z # _ \<Rightarrow> z)"
  by (cases xs) auto

lemma rd_link_at:
  assumes "links_ok q ls" and "k < length ls" and "ls ! k = us @ ys"
  shows "rd_idx q (link_at k us) = (case ys of [] \<Rightarrow> TXIDX_END | z # _ \<Rightarrow> z)"
proof -
  have p: "path (nxt q) TXIDX_END (rd_idx q (head_link k)) (us @ ys)"
    using assms by (auto simp: links_ok_def)
  show ?thesis
  proof (cases us rule: rev_cases)
    case Nil
    then show ?thesis using path_first [OF p] by (simp add: link_at_def)
  next
    case (snoc vs v)
    then show ?thesis using path_last_next [of "nxt q" _ _ vs v ys] p by (simp add: link_at_def nxt_def)
  qed
qed

lemma links_index: "links_ok q ls \<Longrightarrow> k < length ls \<Longrightarrow> i \<in> set (ls ! k) \<Longrightarrow> i < MAX_TXJOBS"
  by (auto simp: links_ok_def)

lemma queued_next:
  assumes "links_ok q ls" and "k < length ls" and "i \<in> set (ls ! k)"
  shows "nxt q i \<noteq> TXIDX_NIL" and "nxt q i = TXIDX_END \<or> nxt q i \<in> set (ls ! k)"
proof -
  obtain us vs where e: "ls ! k = us @ i # vs" using assms(3) by (auto simp: in_set_conv_decomp)
  then have n: "nxt q i = (case vs of [] \<Rightarrow> TXIDX_END | z # _ \<Rightarrow> z)"
    using assms(1,2) path_last_next [of "nxt q" TXIDX_END _ us i vs] by (auto simp: links_ok_def)
  then show m: "nxt q i = TXIDX_END \<or> nxt q i \<in> set (ls ! k)" using e by (cases vs) auto
  show "nxt q i \<noteq> TXIDX_NIL"
    using m links_index [OF assms(1,2), of "nxt q i"] by (auto simp: tx_consts)
qed

text \<open>The other lists do not see an operation on list \<open>k\<close>.\<close>

lemma links_ok_update:
  assumes ok: "links_ok q ls" and k: "k < length ls"
    and len: "length (txjobs q') = length (txjobs q)" "length (heads q') = length (heads q)"
    and new: "path (nxt q') TXIDX_END (rd_idx q' (head_link k)) zs"
    and others: "\<And>k'. k' < length ls \<Longrightarrow> k' \<noteq> k \<Longrightarrow>
      rd_idx q' (head_link k') = rd_idx q (head_link k') \<and> (\<forall>i \<in> set (ls ! k'). nxt q' i = nxt q i)"
    and zs: "set zs \<subseteq> {..<MAX_TXJOBS}" "\<And>k'. k' < length ls \<Longrightarrow> k' \<noteq> k \<Longrightarrow> set zs \<inter> set (ls ! k') = {}"
    and nil: "\<And>i. i < MAX_TXJOBS \<Longrightarrow> i \<notin> set zs \<Longrightarrow> (\<forall>k' < length ls. k' \<noteq> k \<longrightarrow> i \<notin> set (ls ! k')) \<Longrightarrow>
      nxt q' i = TXIDX_NIL"
  shows "links_ok q' (ls[k := zs])"
proof -
  have path_cong: "path f TXIDX_END p xs = path g TXIDX_END p xs" if "\<forall>i \<in> set xs. f i = g i" for f g p xs
    using that by (induction xs arbitrary: p) auto
  have "path (nxt q') TXIDX_END (rd_idx q' (head_link k')) (ls[k := zs] ! k')" if "k' < length ls" for k'
    using ok k new others [OF that] that path_cong [of "ls ! k'" "nxt q'" "nxt q"]
    by (cases "k' = k") (auto simp: links_ok_def)
  moreover have "set (ls[k := zs] ! a) \<inter> set (ls[k := zs] ! b) = {}"
    if "a < length ls" "b < length ls" "a \<noteq> b" for a b
    using ok k zs(2) [OF that(1)] zs(2) [OF that(2)] that
    by (cases "a = k"; cases "b = k") (auto simp: links_ok_def)
  moreover have "set (ls[k := zs] ! k') \<subseteq> {..<MAX_TXJOBS}" if "k' < length ls" for k'
    using ok k zs(1) that by (cases "k' = k") (auto simp: links_ok_def)
  moreover have "nxt q' i = TXIDX_NIL"
    if "i < MAX_TXJOBS" "\<forall>k' < length ls. i \<notin> set (ls[k := zs] ! k')" for i
    using that k by (intro nil) (metis nth_list_update_eq nth_list_update_neq)+
  ultimately show ?thesis using ok len by (simp add: links_ok_def)
qed

text \<open>Queueing changes nothing but links.\<close>

definition next_only :: "txq \<Rightarrow> txq \<Rightarrow> bool" where
  "next_only q q' \<longleftrightarrow> length (txjobs q') = length (txjobs q) \<and> txdata q' = txdata q \<and>
     txdataInUse q' = txdataInUse q \<and> (\<forall>i. txjobs q' ! i = (txjobs q ! i)\<lparr>j_next := nxt q' i\<rparr>)"

lemma next_only_upd: "next_only q (upd_job i (j_next_update (\<lambda>_. v)) q)"
  by (cases "i < length (txjobs q)") (auto simp: next_only_def upd_job_def nxt_def nth_list_update list_update_beyond)

lemma next_only_refl: "next_only q q"
  by (simp add: next_only_def nxt_def)

lemma next_only_wr: "next_only q (wr_idx l v q)"
proof (cases l)
  case (LNext i)
  then show ?thesis using next_only_upd [of q i v] by simp
qed (auto simp: next_only_def nxt_def)

lemma next_only_trans: "next_only q q' \<Longrightarrow> next_only q' q'' \<Longrightarrow> next_only q q''"
  by (simp add: next_only_def)

lemma links_path: "links_ok q ls \<Longrightarrow> k < length ls \<Longrightarrow>
    path (nxt q) TXIDX_END (rd_idx q (head_link k)) (ls ! k)"
  by (simp add: links_ok_def)

lemma links_disjoint: "links_ok q ls \<Longrightarrow> k < length ls \<Longrightarrow> k' < length ls \<Longrightarrow> k \<noteq> k' \<Longrightarrow>
    i \<in> set (ls ! k) \<Longrightarrow> i \<notin> set (ls ! k')"
  unfolding links_ok_def by blast

lemma txq_insJob_links:
  assumes ok: "links_ok q ls" and k: "k < length ls" "ls ! k = us @ ys"
    and j: "j < MAX_TXJOBS" "nxt q j = TXIDX_NIL"
  shows "\<exists>q'. txq_insJob (link_at k us) j q = Some q' \<and> links_ok q' (ls[k := us @ j # ys]) \<and>
    next_only q q'"
proof -
  let ?v = "rd_idx q (link_at k us)"
  let ?q1 = "upd_job j (j_next_update (\<lambda>_. ?v)) q"
  let ?q' = "wr_idx (link_at k us) j ?q1"
  have len: "length (txjobs q) = MAX_TXJOBS" "length ls = Suc (length (heads q))"
    using ok by (auto simp: links_ok_def)
  have v: "?v = (case ys of [] \<Rightarrow> TXIDX_END | z # _ \<Rightarrow> z)" by (rule rd_link_at [OF ok k])
  have ix: "\<And>i. i \<in> set (us @ ys) \<Longrightarrow> i < MAX_TXJOBS" using links_index [OF ok k(1)] k(2) by simp
  have "?v \<noteq> TXIDX_NIL" using v ix [of ?v] by (cases ys) (auto simp: tx_consts)
  then have r: "txq_insJob (link_at k us) j q = Some ?q'"
    using j by (simp add: txq_insJob_def nxt_def)
  have notin: "j \<notin> set (ls ! k')" if "k' < length ls" for k'
    using queued_next(1) [OF ok that] j(2) by blast
  have je: "j \<noteq> TXIDX_END" using j(1) by (simp add: tx_consts)
  have p: "path (nxt q) TXIDX_END (rd_idx q (head_link k)) (us @ ys)"
    using links_path [OF ok k(1)] k(2) by simp
  have main: "links_ok ?q' (ls[k := us @ j # ys])"
  proof (cases us rule: rev_cases)
    case Nil
    have n: "nxt ?q' = (nxt q)(j := ?v)" using Nil j(1) len by (simp add: link_at_def del: fun_upd_apply)
    show ?thesis
    proof (rule links_ok_update [OF ok k(1)])
      show "path (nxt ?q') TXIDX_END (rd_idx ?q' (head_link k)) (us @ j # ys)"
        using p n Nil notin [OF k(1)] k je len
        by (simp add: link_at_def rd_wr_head del: fun_upd_apply) (simp add: fun_upd_same)
      show "rd_idx ?q' (head_link k') = rd_idx q (head_link k') \<and> (\<forall>i \<in> set (ls ! k'). nxt ?q' i = nxt q i)"
        if "k' < length ls" "k' \<noteq> k" for k'
        using that n Nil notin [OF that(1)] len by (auto simp: link_at_def rd_wr_head)
      show "nxt ?q' i = TXIDX_NIL"
        if "i < MAX_TXJOBS" "i \<notin> set (us @ j # ys)" "\<forall>k' < length ls. k' \<noteq> k \<longrightarrow> i \<notin> set (ls ! k')" for i
        using ok n that k(2) unfolding links_ok_def
        by (metis fun_upd_other list.set_intros(1) Nil append_Nil set_subset_Cons subsetD)
    qed (use j ix notin links_disjoint [OF ok k(1)] k in auto)
  next
    case (snoc vs y)
    have y: "y < length (txjobs q)" using ix [of y] snoc len by simp
    have n: "nxt ?q' = (nxt q)(j := nxt q y, y := j)" using snoc j(1) len y
      by (simp add: link_at_def nxt_def [of q y, symmetric] del: fun_upd_apply)
    show ?thesis
    proof (rule links_ok_update [OF ok k(1)])
      show "path (nxt ?q') TXIDX_END (rd_idx ?q' (head_link k)) (us @ j # ys)"
        using path_insert_after [of "nxt q" TXIDX_END "rd_idx q (head_link k)" vs y ys j] p n snoc
          notin [OF k(1)] k je by (simp add: link_at_def del: fun_upd_apply)
      show "rd_idx ?q' (head_link k') = rd_idx q (head_link k') \<and> (\<forall>i \<in> set (ls ! k'). nxt ?q' i = nxt q i)"
        if "k' < length ls" "k' \<noteq> k" for k'
        using that n snoc notin [OF that(1)] links_disjoint [OF ok k(1) that(1), of y] k(2)
        by (auto simp: link_at_def)
      show "nxt ?q' i = TXIDX_NIL"
        if "i < MAX_TXJOBS" "i \<notin> set (us @ j # ys)" "\<forall>k' < length ls. k' \<noteq> k \<longrightarrow> i \<notin> set (ls ! k')" for i
      proof -
        have "\<forall>k' < length ls. i \<notin> set (ls ! k')" using that k(2) by (metis Un_iff set_append list.set_intros(2))
        then have "nxt q i = TXIDX_NIL" using ok that(1) by (auto simp: links_ok_def)
        then show ?thesis using n that(2) snoc by simp
      qed
    qed (use j ix notin links_disjoint [OF ok k(1)] k snoc in \<open>auto simp: link_at_def\<close>)
  qed
  have "next_only q ?q'" by (rule next_only_trans [OF next_only_upd next_only_wr])
  with r main show ?thesis by blast
qed

lemma txq_unqJob_links:
  assumes ok: "links_ok q ls" and k: "k < length ls" "ls ! k = us @ j # ys"
  shows "\<exists>q'. txq_unqJob (link_at k us) q = Some (Some j, q') \<and> links_ok q' (ls[k := us @ ys]) \<and>
    nxt q' j = TXIDX_NIL \<and> next_only q q'"
proof -
  let ?q1 = "wr_idx (link_at k us) (nxt q j) q"
  let ?q' = "upd_job j (j_next_update (\<lambda>_. TXIDX_NIL)) ?q1"
  have len: "length (txjobs q) = MAX_TXJOBS" "length ls = Suc (length (heads q))"
    using ok by (auto simp: links_ok_def)
  have ix: "\<And>i. i \<in> set (us @ j # ys) \<Longrightarrow> i < MAX_TXJOBS" using links_index [OF ok k(1)] k(2) by simp
  have rd: "rd_idx q (link_at k us) = j" using rd_link_at [OF ok k] by simp
  have "j < MAX_TXJOBS" using ix by simp
  then have r: "txq_unqJob (link_at k us) q = Some (Some j, ?q')"
    using rd by (simp add: txq_unqJob_def nxt_def tx_consts)
  have p: "path (nxt q) TXIDX_END (rd_idx q (head_link k)) (us @ j # ys)"
    using links_path [OF ok k(1)] k(2) by simp
  have d: "distinct (us @ j # ys)" by (rule path_distinct [OF p])
  have main: "links_ok ?q' (ls[k := us @ ys])"
  proof (rule links_ok_update [OF ok k(1)])
    show "path (nxt ?q') TXIDX_END (rd_idx ?q' (head_link k)) (us @ ys)"
    proof (cases us rule: rev_cases)
      case Nil
      then show ?thesis using p d k ix len by (simp add: link_at_def rd_wr_head del: fun_upd_apply)
    next
      case (snoc vs y)
      have "path ((nxt q)(y := nxt q j, j := TXIDX_NIL)) TXIDX_END (rd_idx q (head_link k)) (vs @ y # ys)"
        using path_remove_after [of "nxt q" _ _ vs y j ys] p snoc by simp
      then show ?thesis using snoc ix [of y] ix [of j] len by (simp add: link_at_def del: fun_upd_apply)
    qed
    show "rd_idx ?q' (head_link k') = rd_idx q (head_link k') \<and> (\<forall>i \<in> set (ls ! k'). nxt ?q' i = nxt q i)"
      if "k' < length ls" "k' \<noteq> k" for k'
    proof (cases us rule: rev_cases)
      case Nil
      then show ?thesis using that links_disjoint [OF ok k(1) that(1), of j] k(2) ix [of j] len
        by (auto simp: link_at_def rd_wr_head)
    next
      case (snoc vs y)
      then show ?thesis using that links_disjoint [OF ok k(1) that(1)] k(2) ix [of j] ix [of y] len
        by (auto simp: link_at_def)
    qed
    show "nxt ?q' i = TXIDX_NIL"
      if i: "i < MAX_TXJOBS" "i \<notin> set (us @ ys)" "\<forall>k' < length ls. k' \<noteq> k \<longrightarrow> i \<notin> set (ls ! k')" for i
    proof (cases "i = j")
      case False
      then have "\<forall>k' < length ls. i \<notin> set (ls ! k')" using i k(2) by (metis Un_iff set_append set_ConsD)
      then have "nxt q i = TXIDX_NIL" using ok i(1) by (auto simp: links_ok_def)
      then have "nxt ?q1 i = TXIDX_NIL" using i(2) ix [of "last us"] len by (cases "us = []") (auto simp: link_at_def)
      then show ?thesis using False ix [of j] len by simp
    qed (use ix [of j] len in simp)
  qed (use ix d links_disjoint [OF ok k(1)] k in auto)
  have "next_only q ?q'" by (rule next_only_trans [OF next_only_wr next_only_upd])
  moreover have "nxt ?q' j = TXIDX_NIL" using ix [of j] len by simp
  ultimately show ?thesis using r main by blast
qed

section \<open>TX queue: frame data\<close>

text \<open>
  The jobs with a frame tile the used part of \<open>txdata\<close>: in some order \<open>bs\<close> their blocks lie
  one after the other from 0 to \<open>txdataInUse\<close>.
\<close>

fun tiled :: "txjob list \<Rightarrow> nat \<Rightarrow> nat \<Rightarrow> nat list \<Rightarrow> bool" where
  "tiled js e p [] = (p = e)"
| "tiled js e p (b # bs) = (j_off (js ! b) = p \<and> tiled js e (p + j_len (js ! b)) bs)"

definition has_frame :: "txq \<Rightarrow> nat \<Rightarrow> bool" where
  "has_frame q i \<longleftrightarrow> i < MAX_TXJOBS \<and> j_off (txjobs q ! i) \<noteq> TXOFF_NIL \<and> 0 < j_len (txjobs q ! i)"

definition data_ok :: "txq \<Rightarrow> nat list \<Rightarrow> bool" where
  "data_ok q bs \<longleftrightarrow> length (txjobs q) = MAX_TXJOBS \<and> length (txdata q) = MAX_TXDATA \<and>
     txdataInUse q \<le> MAX_TXDATA \<and> (\<forall>i < MAX_TXJOBS. j_off (txjobs q ! i) < 2 ^ 16) \<and>
     distinct bs \<and> set bs = Collect (has_frame q) \<and> tiled (txjobs q) (txdataInUse q) 0 bs"

definition payload :: "txq \<Rightarrow> nat \<Rightarrow> bytes" where
  "payload q i = blk (j_off (txjobs q ! i)) (j_len (txjobs q ! i)) (txdata q)"

lemma tiled_append: "tiled js e p (us @ vs) \<longleftrightarrow> (\<exists>m. tiled js m p us \<and> tiled js e m vs)"
  by (induction us arbitrary: p) auto

lemma tiled_le: "tiled js e p bs \<Longrightarrow> p \<le> e"
proof (induction bs arbitrary: p)
  case (Cons b bs)
  then have "p + j_len (js ! b) \<le> e" by simp
  then show ?case by simp
qed simp

lemma tiled_range:
  assumes "tiled js e p bs" and "b \<in> set bs"
  shows "p \<le> j_off (js ! b)" and "j_off (js ! b) + j_len (js ! b) \<le> e"
proof -
  obtain us vs where "bs = us @ b # vs" using assms(2) by (auto simp: in_set_conv_decomp)
  then obtain m where "tiled js m p us" "tiled js e m (b # vs)" using assms(1) by (auto simp: tiled_append)
  then show "p \<le> j_off (js ! b)" "j_off (js ! b) + j_len (js ! b) \<le> e"
    by (auto dest: tiled_le)
qed

lemma tiled_shift:
  "tiled js e p bs \<Longrightarrow> d \<le> p \<Longrightarrow>
    (\<forall>b \<in> set bs. j_off (js' ! b) = j_off (js ! b) - d \<and> j_len (js' ! b) = j_len (js ! b)) \<Longrightarrow>
    tiled js' (e - d) (p - d) bs"
proof (induction bs arbitrary: p)
  case (Cons b bs)
  have t: "tiled js e (p + j_len (js ! b)) bs" "j_off (js ! b) = p" using Cons.prems(1) by simp_all
  have d: "d \<le> p + j_len (js ! b)" using Cons.prems(2) by simp
  have h: "\<forall>b \<in> set bs. j_off (js' ! b) = j_off (js ! b) - d \<and> j_len (js' ! b) = j_len (js ! b)"
    "j_off (js' ! b) = p - d" "j_len (js' ! b) = j_len (js ! b)" using Cons.prems(3) t(2) by simp_all
  have "tiled js' (e - d) (p + j_len (js ! b) - d) bs" by (rule Cons.IH [OF t(1) d h(1)])
  moreover have "p + j_len (js ! b) - d = p - d + j_len (js' ! b)" using Cons.prems(2) h(3) by simp
  ultimately show ?case using h(2) by simp
qed simp

lemma tiled_cong:
  "tiled js e p bs \<Longrightarrow>
    \<forall>b \<in> set bs. j_off (js' ! b) = j_off (js ! b) \<and> j_len (js' ! b) = j_len (js ! b) \<Longrightarrow>
    tiled js' e p bs"
  using tiled_shift [of js e p bs 0 js'] by simp

lemma next_only_fields:
  assumes "next_only q q'"
  shows "j_off (txjobs q' ! i) = j_off (txjobs q ! i)" "j_len (txjobs q' ! i) = j_len (txjobs q ! i)"
proof -
  have e: "txjobs q' ! i = (txjobs q ! i)\<lparr>j_next := nxt q' i\<rparr>"
    using assms by (simp add: next_only_def)
  show "j_off (txjobs q' ! i) = j_off (txjobs q ! i)" "j_len (txjobs q' ! i) = j_len (txjobs q ! i)"
    by (subst e, simp)+
qed

lemma next_only_frame:
  assumes "next_only q q'"
  shows "has_frame q' = has_frame q" "payload q' = payload q" "data_ok q' bs = data_ok q bs"
proof -
  note f = next_only_fields [OF assms]
  show "has_frame q' = has_frame q" by (rule ext) (simp add: has_frame_def f)
  moreover show "payload q' = payload q" using assms by (intro ext) (simp add: payload_def f next_only_def)
  moreover have "tiled (txjobs q') e p bs = tiled (txjobs q) e p bs" for e p
    by (induction bs arbitrary: p) (simp_all add: f)
  ultimately show "data_ok q' bs = data_ok q bs" using assms by (simp add: data_ok_def f next_only_def)
qed

lemma memmove_self [simp]: "memmove d d n xs = xs"
  by (simp add: memmove_def add.commute [of d n] flip: drop_drop append_assoc)

lemma memmove_none [simp]: "memmove d s 0 xs = xs"
  by (simp add: memmove_def)

text \<open>What a call of \<open>txq_freeData\<close> does not touch, and that only offsets move elsewhere.\<close>

definition off_only :: "nat \<Rightarrow> txq \<Rightarrow> txq \<Rightarrow> bool" where
  "off_only j q q' \<longleftrightarrow> (\<forall>i < MAX_TXJOBS. nxt q' i = nxt q i) \<and> heads q' = heads q \<and> freeJobs q' = freeJobs q \<and>
     (\<forall>i < MAX_TXJOBS. i \<noteq> j \<longrightarrow> (\<exists>x. txjobs q' ! i = (txjobs q ! i)\<lparr>j_off := x\<rparr> \<and>
        (j_off (txjobs q ! i) = TXOFF_NIL \<longrightarrow> x = TXOFF_NIL))) \<and>
     (j_off (txjobs q ! j) = TXOFF_NIL \<longrightarrow> q' = q) \<and>
     (j_off (txjobs q ! j) \<noteq> TXOFF_NIL \<longrightarrow>
        txjobs q' ! j = (txjobs q ! j)\<lparr>j_off := TXOFF_NIL, j_len := 0\<rparr>)"

lemma off_self [simp]: "\<exists>x. r = r\<lparr>j_off := x\<rparr> \<and> (j_off r = TXOFF_NIL \<longrightarrow> x = TXOFF_NIL)"
  by (rule exI [of _ "j_off r"]) simp

definition freed :: "nat \<Rightarrow> txq \<Rightarrow> txq" where
  "freed j q =
     (let off = j_off (txjobs q ! j); n = j_len (txjobs q ! j) in
      upd_job j (\<lambda>r. r\<lparr>j_off := TXOFF_NIL, j_len := 0\<rparr>)
        (q\<lparr>txjobs := map (fix_off off n) (txjobs q),
           txdata := memmove off (off + n) (txdataInUse q - (off + n)) (txdata q),
           txdataInUse := txdataInUse q - n\<rparr>))"

lemma fix_off_0: "j_off r < 2 ^ 16 \<Longrightarrow> fix_off a 0 r = r"
  by (auto simp: fix_off_def to_u_def)

lemma fix_off_fields [simp]: "j_next (fix_off a n r) = j_next r" "j_len (fix_off a n r) = j_len r"
  by (auto simp: fix_off_def)

lemma freed_off_only:
  assumes "length (txjobs q) = MAX_TXJOBS" and "j < MAX_TXJOBS" and "j_off (txjobs q ! j) \<noteq> TXOFF_NIL"
  shows "off_only j q (freed j q)"
proof -
  let ?o = "j_off (txjobs q ! j)" let ?n = "j_len (txjobs q ! j)"
  have at: "txjobs (freed j q) ! i = (if i = j then (fix_off ?o ?n (txjobs q ! j))\<lparr>j_off := TXOFF_NIL, j_len := 0\<rparr>
      else fix_off ?o ?n (txjobs q ! i))" if "i < MAX_TXJOBS" for i
    using that assms by (simp add: freed_def Let_def upd_job_def nth_list_update)
  have "nxt (freed j q) i = nxt q i" if "i < MAX_TXJOBS" for i
    using that by (simp add: nxt_def at)
  moreover have "\<exists>x. fix_off ?o ?n r = r\<lparr>j_off := x\<rparr> \<and> (j_off r = TXOFF_NIL \<longrightarrow> x = TXOFF_NIL)" for r
    by (cases "j_off r \<noteq> TXOFF_NIL \<and> ?o \<le> j_off r") (auto simp: fix_off_def intro: exI [of _ "j_off r"])
  moreover have "(fix_off ?o ?n r)\<lparr>j_off := TXOFF_NIL, j_len := 0\<rparr> = r\<lparr>j_off := TXOFF_NIL, j_len := 0\<rparr>" for r
    by (simp add: fix_off_def)
  ultimately show ?thesis using assms(2,3) at by (auto simp: off_only_def freed_def Let_def)
qed

lemma freed_is:
  assumes ok: "data_ok q bs" and j: "j < MAX_TXJOBS" "j_off (txjobs q ! j) \<noteq> TXOFF_NIL"
    and room: "j_off (txjobs q ! j) + j_len (txjobs q ! j) \<le> txdataInUse q"
  shows "txq_freeData j q = Some (freed j q)"
proof -
  have "txdataInUse q \<le> MAX_TXDATA" "length (txdata q) = MAX_TXDATA" using ok by (simp_all add: data_ok_def)
  moreover from this have "(j_off (txjobs q ! j) + j_len (txjobs q ! j)) mod 2 ^ 16 =
      j_off (txjobs q ! j) + j_len (txjobs q ! j)" using room by (intro mod_less) (simp add: tx_consts)
  moreover have "to_u 16 (int (txdataInUse q) - int (j_len (txjobs q ! j))) =
      txdataInUse q - j_len (txjobs q ! j)"
    using room calculation(1) by (subst to_u_id) (auto simp: tx_consts)
  ultimately show ?thesis using j room
    by (cases "j_off (txjobs q ! j) + j_len (txjobs q ! j) = txdataInUse q")
       (auto simp: txq_freeData_def freed_def Let_def)
qed

lemma freed_data:
  assumes ok: "data_ok q bs" and j: "has_frame q j"
  shows "txq_freeData j q = Some (freed j q)" and "data_ok (freed j q) (remove1 j bs)"
    and "\<forall>i \<in> set (remove1 j bs). payload (freed j q) i = payload q i"
proof -
  let ?js = "txjobs q" let ?o = "j_off (?js ! j)" let ?l = "j_len (?js ! j)" let ?e = "txdataInUse q"
  let ?q' = "freed j q" let ?js' = "txjobs ?q'"
  have c: "length ?js = MAX_TXJOBS" "length (txdata q) = MAX_TXDATA" "?e \<le> MAX_TXDATA"
    "\<forall>i < MAX_TXJOBS. j_off (?js ! i) < 2 ^ 16" "distinct bs" "set bs = Collect (has_frame q)"
    "tiled ?js ?e 0 bs" using ok by (simp_all add: data_ok_def)
  have jl: "j < MAX_TXJOBS" "?o \<noteq> TXOFF_NIL" "0 < ?l" using j by (simp_all add: has_frame_def)
  obtain us vs where bs: "bs = us @ j # vs" using c(6) j by (metis mem_Collect_eq split_list)
  have rm: "remove1 j bs = us @ vs" and d: "j \<notin> set us" "j \<notin> set vs"
    using c(5) bs by (auto simp: remove1_append)
  have hf: "\<And>i. i \<in> set us \<union> set vs \<Longrightarrow> has_frame q i" using c(6) bs by auto
  have t: "tiled ?js ?o 0 us" "tiled ?js ?e (?o + ?l) vs" using c(7) bs by (auto simp: tiled_append)
  have e: "?o + ?l \<le> ?e" using tiled_le [OF t(2)] .
  show free: "txq_freeData j q = Some ?q'" by (rule freed_is [OF ok jl(1,2) e])
  have at: "?js' ! i = fix_off ?o ?l (?js ! i)" if "i < MAX_TXJOBS" "i \<noteq> j" for i
    using that c(1) by (simp add: freed_def Let_def upd_job_def nth_list_update)
  have atj: "j_off (?js' ! j) = TXOFF_NIL" "j_len (?js' ! j) = 0"
    using jl(1) c(1) by (simp_all add: freed_def Let_def upd_job_def)
  have u: "?js' ! i = ?js ! i" if "i \<in> set us" for i
  proof -
    have "j_off (?js ! i) < ?o" using tiled_range(2) [OF t(1) that] hf [of i] that by (simp add: has_frame_def)
    then show ?thesis using at [of i] hf [of i] that d by (auto simp: fix_off_def has_frame_def)
  qed
  have v: "?js' ! i = (?js ! i)\<lparr>j_off := j_off (?js ! i) - ?l\<rparr>" "?o + ?l \<le> j_off (?js ! i)"
    "j_off (?js ! i) + j_len (?js ! i) \<le> ?e" if "i \<in> set vs" for i
  proof -
    show r: "?o + ?l \<le> j_off (?js ! i)" "j_off (?js ! i) + j_len (?js ! i) \<le> ?e"
      using tiled_range [OF t(2) that] by simp_all
    have "to_u 16 (int (j_off (?js ! i)) - int ?l) = j_off (?js ! i) - ?l"
      using r c(3) by (subst to_u_id) (auto simp: tx_consts)
    then show "?js' ! i = (?js ! i)\<lparr>j_off := j_off (?js ! i) - ?l\<rparr>"
      using at [of i] hf [of i] that d r by (auto simp: fix_off_def has_frame_def)
  qed
  have data: "txdata ?q' = memmove ?o (?o + ?l) (?e - (?o + ?l)) (txdata q)" "txdataInUse ?q' = ?e - ?l"
    by (simp_all add: freed_def Let_def)
  have fit: "?o + (?e - (?o + ?l)) \<le> MAX_TXDATA" "?o + ?l + (?e - (?o + ?l)) \<le> MAX_TXDATA" using e c(3) by auto
  have "tiled ?js' ?o 0 us" using t(1) u by (intro tiled_cong [OF t(1)]) auto
  moreover have "tiled ?js' (?e - ?l) (?o + ?l - ?l) vs"
    by (rule tiled_shift [OF t(2)]) (use v in auto)
  ultimately have tl: "tiled ?js' (?e - ?l) 0 (us @ vs)" by (auto simp: tiled_append)
  have "has_frame ?q' i \<longleftrightarrow> i \<in> set (us @ vs)" for i
  proof (cases "i \<in> set (us @ vs)")
    case True
    then show ?thesis using u v [of i] hf [of i] c(3) by (auto simp: has_frame_def tx_consts)
  next
    case False
    then have "i = j \<or> \<not> has_frame q i" using c(6) bs by auto
    then show ?thesis using False atj at [of i] by (cases "i = j") (auto simp: has_frame_def fix_off_def split: if_splits)
  qed
  then have hs: "set (us @ vs) = Collect (has_frame ?q')" by blast
  have lt: "j_off (?js' ! i) < 2 ^ 16" if "i < MAX_TXJOBS" for i
    using at [of i] atj that c(4) to_u_less [of 16] by (cases "i = j") (auto simp: fix_off_def tx_consts)
  have ln: "length ?js' = MAX_TXJOBS" "length (txdata ?q') = MAX_TXDATA"
    using c(1,2) fit by (simp_all add: freed_def Let_def)
  show "data_ok ?q' (remove1 j bs)"
    unfolding data_ok_def rm using ln lt hs tl c(3,5) bs data(2) by simp
  show "\<forall>i \<in> set (remove1 j bs). payload ?q' i = payload q i"
  proof
    fix i assume "i \<in> set (remove1 j bs)"
    then consider "i \<in> set us" | "i \<in> set vs" using rm by auto
    then show "payload ?q' i = payload q i"
    proof cases
      case 1
      have "j_off (?js ! i) + j_len (?js ! i) \<le> ?o" using tiled_range(2) [OF t(1) 1] .
      then show ?thesis using u [OF 1] data(1) fit c(2)
        by (auto simp: payload_def nth_memmove intro!: blk_eqI)
    next
      case 2
      then show ?thesis using v [OF 2] data(1) fit c(2,3)
        by (auto simp: payload_def nth_memmove intro!: blk_eqI)
    qed
  qed
qed

text \<open>Freeing the data of any job, with a frame or without.\<close>

lemma txq_freeData_ok:
  assumes ok: "data_ok q bs" and j: "j < MAX_TXJOBS"
  shows "\<exists>q'. txq_freeData j q = Some q' \<and> data_ok q' (remove1 j bs) \<and> off_only j q q' \<and>
    length (txjobs q') = length (txjobs q) \<and>
    (\<forall>i \<in> set (remove1 j bs). payload q' i = payload q i)"
proof -
  have c: "length (txjobs q) = MAX_TXJOBS" "set bs = Collect (has_frame q)"
    "length (txdata q) = MAX_TXDATA" "txdataInUse q \<le> MAX_TXDATA"
    "\<forall>i < MAX_TXJOBS. j_off (txjobs q ! i) < 2 ^ 16" using ok by (simp_all add: data_ok_def)
  consider "j_off (txjobs q ! j) = TXOFF_NIL" | "has_frame q j" |
    "j_off (txjobs q ! j) \<noteq> TXOFF_NIL" "j_len (txjobs q ! j) = 0" using j by (auto simp: has_frame_def)
  then show ?thesis
  proof cases
    case 1
    then have "j \<notin> set bs" using c(2) by (simp add: has_frame_def)
    then show ?thesis using 1 ok j by (auto simp: txq_freeData_def Let_def remove1_idem off_only_def)
  next
    case 2
    have "off_only j q (freed j q)" using 2 c(1) by (intro freed_off_only) (simp_all add: has_frame_def)
    moreover have "length (txjobs (freed j q)) = length (txjobs q)" by (simp add: freed_def Let_def)
    ultimately show ?thesis using freed_data [OF ok 2] by blast
  next
    case 3
    let ?q' = "upd_job j (\<lambda>r. r\<lparr>j_off := TXOFF_NIL, j_len := 0\<rparr>) q"
    have nj: "j \<notin> set bs" using 3 c(2) by (simp add: has_frame_def)
    have "map (fix_off (j_off (txjobs q ! j)) 0) (txjobs q) = txjobs q"
      using c(1,5) by (intro nth_equalityI) (auto simp: fix_off_0)
    moreover have "to_u 16 (int (txdataInUse q)) = txdataInUse q" using c(4) by (subst to_u_id) (auto simp: tx_consts)
    ultimately have r: "txq_freeData j q = Some ?q'" using 3 j c(3,4,5) by (auto simp: txq_freeData_def Let_def)
    have h: "has_frame ?q' = has_frame q"
      using 3 j c(1) by (intro ext) (auto simp: has_frame_def upd_job_def nth_list_update)
    have eq: "\<forall>b \<in> set bs. txjobs ?q' ! b = txjobs q ! b"
    proof
      fix b assume "b \<in> set bs"
      with nj have "j \<noteq> b" by blast
      then show "txjobs ?q' ! b = txjobs q ! b" by (simp add: upd_job_def)
    qed
    have "tiled (txjobs ?q') (txdataInUse q) 0 bs"
      using tiled_cong [of "txjobs q" "txdataInUse q" 0 bs] eq ok by (simp add: data_ok_def)
    then have "data_ok ?q' bs"
      using ok h c(1) j by (auto simp: data_ok_def upd_job_def nth_list_update tx_consts)
    moreover have "\<forall>i \<in> set bs. payload ?q' i = payload q i" using eq by (simp add: payload_def)
    moreover have "off_only j q ?q'" using 3 j c(1)
      by (auto simp: off_only_def nxt_def upd_job_def nth_list_update intro: exI [of _ "j_off (txjobs q ! i)" for i])
    ultimately show ?thesis using r nj by (auto simp: remove1_idem)
  qed
qed

section \<open>TX queue: the invariant and its clients\<close>

definition txq_ok :: "txq \<Rightarrow> nat list list \<Rightarrow> nat list \<Rightarrow> bool" where
  "txq_ok q ls bs \<longleftrightarrow> links_ok q ls \<and> data_ok q bs \<and> (\<forall>i \<in> set (ls ! 0). j_off (txjobs q ! i) = TXOFF_NIL)"

lemma txq_ok_ls: "txq_ok q ls bs \<Longrightarrow> ls \<noteq> [] \<and> length ls = Suc (length (heads q))"
  by (auto simp: txq_ok_def links_ok_def)

lemma link_free_at:
  "i < length js \<Longrightarrow> link_free js n ! i = (js ! i)\<lparr>j_next := Suc (n + i), j_off := TXOFF_NIL\<rparr>"
  by (induction js arbitrary: n i) (auto simp: nth_Cons split: nat.splits)

lemma length_link_free [simp]: "length (link_free js n) = length js"
  by (induction js arbitrary: n) auto

lemma txq_ini_at:
  "i < MAX_TXJOBS \<Longrightarrow> txjobs (txq_ini n) ! i =
     zero_txjob\<lparr>j_next := (if i = 127 then TXIDX_END else Suc i), j_off := TXOFF_NIL\<rparr>"
  by (simp add: txq_ini_def Let_def tx_consts nth_list_update link_free_at)

lemma path_upt: "i \<le> m \<Longrightarrow> m < e \<Longrightarrow> (\<forall>x. i \<le> x \<and> x < m \<longrightarrow> nx x = Suc x) \<Longrightarrow> nx m = e \<Longrightarrow>
    path nx e i [i..<Suc m]"
proof (induction "m - i" arbitrary: i)
  case (Suc d)
  have m: "Suc i \<le> m" using Suc.hyps(2) by simp
  have "path nx e (Suc i) [Suc i..<Suc m]"
    by (rule Suc.hyps(1)) (use Suc.prems Suc.hyps(2) m in auto)
  moreover have "[i..<Suc m] = i # [Suc i..<Suc m]" using m by (intro upt_conv_Cons) simp
  moreover have "i \<noteq> e" "nx i = Suc i" using Suc.prems m by auto
  ultimately show ?case by (simp del: upt_Suc)
qed simp

lemma txq_ini_ok: "txq_ok (txq_ini n) ([0..<MAX_TXJOBS] # replicate n []) []"
proof -
  have at: "txjobs (txq_ini n) ! i = zero_txjob\<lparr>j_next := (if i = 127 then TXIDX_END else Suc i), j_off := TXOFF_NIL\<rparr>"
    if "i < MAX_TXJOBS" for i using txq_ini_at [OF that] .
  have hd: "rd_idx (txq_ini n) (head_link k) = (if k = 0 then 0 else TXIDX_END)" if "k < Suc n" for k
    using that by (auto simp: head_link_def txq_ini_def Let_def split: nat.splits)
  have "path (nxt (txq_ini n)) TXIDX_END 0 [0..<Suc 127]"
    by (rule path_upt) (auto simp: nxt_def at tx_consts)
  then have p: "path (nxt (txq_ini n)) TXIDX_END 0 [0..<MAX_TXJOBS]" by (simp add: tx_consts)
  have ln: "length (txjobs (txq_ini n)) = MAX_TXJOBS" "length (heads (txq_ini n)) = n"
    "length (txdata (txq_ini n)) = MAX_TXDATA" "txdataInUse (txq_ini n) = 0"
    by (simp_all add: txq_ini_def Let_def)
  have L: "([0..<MAX_TXJOBS] # replicate n []) ! k = (if k = 0 then [0..<MAX_TXJOBS] else [])" if "k < Suc n" for k
    using that by (auto simp: nth_Cons split: nat.splits)
  have "links_ok (txq_ini n) ([0..<MAX_TXJOBS] # replicate n [])"
    unfolding links_ok_def using ln p hd L by auto
  moreover have "data_ok (txq_ini n) []"
    using ln at by (auto simp: data_ok_def has_frame_def tx_consts)
  ultimately show ?thesis using at by (simp add: txq_ok_def)
qed

text \<open>Queueing and unqueueing a job under the whole invariant.\<close>

lemma txq_insJob_ok:
  assumes ok: "txq_ok q ls bs" and k: "k < length ls" "ls ! k = us @ ys"
    and j: "j < MAX_TXJOBS" "nxt q j = TXIDX_NIL" and free: "k = 0 \<Longrightarrow> j_off (txjobs q ! j) = TXOFF_NIL"
  shows "\<exists>q'. txq_insJob (link_at k us) j q = Some q' \<and> txq_ok q' (ls[k := us @ j # ys]) bs \<and> next_only q q'"
proof -
  obtain q' where q': "txq_insJob (link_at k us) j q = Some q'" "links_ok q' (ls[k := us @ j # ys])"
    "next_only q q'" using txq_insJob_links [of q ls k us ys j] assms by (auto simp: txq_ok_def)
  note o = next_only_fields(1) [OF q'(3)]
  have "set (ls[k := us @ j # ys] ! 0) \<subseteq> set (ls ! 0) \<union> (if k = 0 then {j} else {})"
    using k txq_ok_ls [OF ok] by (cases "k = 0") auto
  then have "\<forall>i \<in> set (ls[k := us @ j # ys] ! 0). j_off (txjobs q' ! i) = TXOFF_NIL"
    using ok free by (auto simp: txq_ok_def o split: if_splits)
  then show ?thesis using q' ok next_only_frame(3) [OF q'(3)] by (auto simp: txq_ok_def)
qed

lemma txq_unqJob_ok:
  assumes ok: "txq_ok q ls bs" and k: "k < length ls" "ls ! k = us @ j # ys"
  shows "\<exists>q'. txq_unqJob (link_at k us) q = Some (Some j, q') \<and> txq_ok q' (ls[k := us @ ys]) bs \<and>
    nxt q' j = TXIDX_NIL \<and> next_only q q'"
proof -
  obtain q' where q': "txq_unqJob (link_at k us) q = Some (Some j, q')" "links_ok q' (ls[k := us @ ys])"
    "nxt q' j = TXIDX_NIL" "next_only q q'" using txq_unqJob_links [of q ls k us j ys] assms by (auto simp: txq_ok_def)
  note o = next_only_fields(1) [OF q'(4)]
  have "set (ls[k := us @ ys] ! 0) \<subseteq> set (ls ! 0)"
    using k txq_ok_ls [OF ok] by (cases "k = 0") auto
  then have "\<forall>i \<in> set (ls[k := us @ ys] ! 0). j_off (txjobs q' ! i) = TXOFF_NIL"
    using ok by (auto simp: txq_ok_def o)
  then show ?thesis using q' ok next_only_frame(3) [OF q'(4)] by (auto simp: txq_ok_def)
qed

lemma path_cong_on: "\<forall>i \<in> set xs. f i = g i \<Longrightarrow> path f e p xs = path g e p xs"
  by (induction xs arbitrary: p) auto

lemma links_ok_cong:
  assumes ok: "links_ok q ls" and same: "length (txjobs q') = length (txjobs q)" "heads q' = heads q"
    "freeJobs q' = freeJobs q" "\<forall>i < MAX_TXJOBS. nxt q' i = nxt q i"
  shows "links_ok q' ls"
proof -
  have "rd_idx q' (head_link k) = rd_idx q (head_link k)" for k
    using same by (cases k) (auto simp: head_link_def)
  moreover have "path (nxt q') TXIDX_END p (ls ! k) = path (nxt q) TXIDX_END p (ls ! k)" if "k < length ls" for k p
    using same(4) links_index [OF ok that] by (intro path_cong_on) auto
  ultimately show ?thesis using ok same by (simp add: links_ok_def)
qed

lemma txq_freeData_keeps:
  assumes ok: "txq_ok q ls bs" and j: "j < MAX_TXJOBS" "nxt q j = TXIDX_NIL"
  shows "\<exists>q'. txq_freeData j q = Some q' \<and> txq_ok q' ls (remove1 j bs) \<and> nxt q' j = TXIDX_NIL \<and>
    j_off (txjobs q' ! j) = TXOFF_NIL \<and> (\<forall>i \<in> set (remove1 j bs). payload q' i = payload q i)"
proof -
  have l: "links_ok q ls" "data_ok q bs" "ls \<noteq> []" using ok txq_ok_ls [OF ok] by (auto simp: txq_ok_def)
  obtain q' where q': "txq_freeData j q = Some q'" "data_ok q' (remove1 j bs)" "off_only j q q'"
    "length (txjobs q') = length (txjobs q)" "\<forall>i \<in> set (remove1 j bs). payload q' i = payload q i"
    using txq_freeData_ok [OF l(2) j(1)] by blast
  have "links_ok q' ls" by (rule links_ok_cong [OF l(1) q'(4)]) (use q'(3) in \<open>auto simp: off_only_def\<close>)
  moreover have "j_off (txjobs q' ! i) = TXOFF_NIL" if "i \<in> set (ls ! 0)" for i
  proof -
    have "i < MAX_TXJOBS" "i \<noteq> j" "j_off (txjobs q ! i) = TXOFF_NIL"
      using that queued_next(1) [OF l(1), of 0 i] links_index [OF l(1), of 0 i] l(3) j(2) ok
      by (auto simp: txq_ok_def)
    then obtain x where "txjobs q' ! i = (txjobs q ! i)\<lparr>j_off := x\<rparr>" "x = TXOFF_NIL"
      using q'(3) unfolding off_only_def by blast
    then show ?thesis by simp
  qed
  moreover have "j_off (txjobs q' ! j) = TXOFF_NIL"
    using q'(3) by (cases "j_off (txjobs q ! j) = TXOFF_NIL") (auto simp: off_only_def)
  moreover have "nxt q' j = TXIDX_NIL" using q'(3) j by (simp add: off_only_def)
  ultimately show ?thesis using q' by (auto simp: txq_ok_def)
qed

lemma txq_freeJob_ok:
  assumes ok: "txq_ok q ls bs" and j: "j < MAX_TXJOBS" "nxt q j = TXIDX_NIL"
  shows "\<exists>q'. txq_freeJob j q = Some q' \<and> txq_ok q' (ls[0 := j # ls ! 0]) (remove1 j bs) \<and>
    (\<forall>i \<in> set (remove1 j bs). payload q' i = payload q i)"
proof -
  obtain q1 where q1: "txq_freeData j q = Some q1" "txq_ok q1 ls (remove1 j bs)" "nxt q1 j = TXIDX_NIL"
    "j_off (txjobs q1 ! j) = TXOFF_NIL" "\<forall>i \<in> set (remove1 j bs). payload q1 i = payload q i"
    using txq_freeData_keeps [OF assms] by blast
  obtain q' where "txq_insJob (link_at 0 []) j q1 = Some q'"
    "txq_ok q' (ls[0 := [] @ j # ls ! 0]) (remove1 j bs)" "next_only q1 q'"
    using txq_insJob_ok [OF q1(2), of 0 "[]" "ls ! 0" j] q1 j(1) txq_ok_ls [OF ok] by auto
  then show ?thesis using q1 next_only_frame(2)
    by (auto simp: txq_freeJob_def link_at_def head_link_def)
qed

text \<open>
  The caller's part between reserving and committing: any fields of the job but its link and its
  offset, and bytes behind the used part of \<open>txdata\<close>.
\<close>

definition filled :: "nat \<Rightarrow> txq \<Rightarrow> txq \<Rightarrow> bool" where
  "filled j q q' \<longleftrightarrow> length (txjobs q') = length (txjobs q) \<and> heads q' = heads q \<and> freeJobs q' = freeJobs q \<and>
     txdataInUse q' = txdataInUse q \<and> length (txdata q') = length (txdata q) \<and>
     (\<forall>i < txdataInUse q. txdata q' ! i = txdata q ! i) \<and>
     (\<forall>i < MAX_TXJOBS. i \<noteq> j \<longrightarrow> txjobs q' ! i = txjobs q ! i) \<and>
     j_next (txjobs q' ! j) = j_next (txjobs q ! j) \<and> j_off (txjobs q' ! j) = j_off (txjobs q ! j)"

lemma filled_frame:
  assumes f: "filled j q q'" and ok: "data_ok q bs" and j: "j \<notin> set bs" "j < MAX_TXJOBS"
    "j_off (txjobs q ! j) = TXOFF_NIL"
  shows "data_ok q' bs" and "\<forall>i \<in> set bs. payload q' i = payload q i"
proof -
  have b: "i < MAX_TXJOBS \<and> i \<noteq> j" if "i \<in> set bs" for i
    using ok that j(1) unfolding data_ok_def has_frame_def by blast
  then have eq: "\<forall>i \<in> set bs. txjobs q' ! i = txjobs q ! i" using f by (simp add: filled_def)
  have t: "tiled (txjobs q) (txdataInUse q) 0 bs" using ok by (simp add: data_ok_def)
  have "has_frame q' i = has_frame q i" for i
    using f j(2,3) by (cases "i = j") (auto simp: has_frame_def filled_def)
  then have "has_frame q' = has_frame q" by (rule ext)
  moreover have "tiled (txjobs q') (txdataInUse q') 0 bs"
    using tiled_cong [OF t, of "txjobs q'"] eq f by (simp add: filled_def)
  moreover have "j_off (txjobs q' ! i) < 2 ^ 16" if "i < MAX_TXJOBS" for i
    using f ok that by (cases "i = j") (auto simp: filled_def data_ok_def)
  ultimately show "data_ok q' bs" using ok f by (simp add: data_ok_def filled_def)
  show "\<forall>i \<in> set bs. payload q' i = payload q i"
  proof
    fix i assume i: "i \<in> set bs"
    have "j_off (txjobs q ! i) + j_len (txjobs q ! i) \<le> txdataInUse q" by (rule tiled_range(2) [OF t i])
    then show "payload q' i = payload q i" using eq i f ok
      by (auto simp: payload_def filled_def data_ok_def intro!: blk_eqI)
  qed
qed

lemma filled_ok:
  assumes "filled j q q'" and ok: "txq_ok q ls bs" and j: "j \<in> set (ls ! 0)"
  shows "txq_ok q' ls bs" and "\<forall>i \<in> set bs. payload q' i = payload q i"
proof -
  have jj: "j < MAX_TXJOBS" "j_off (txjobs q ! j) = TXOFF_NIL"
    using ok j txq_ok_ls [OF ok] links_index [of q ls 0 j] by (auto simp: txq_ok_def)
  then have nb: "j \<notin> set bs" using ok by (auto simp: txq_ok_def data_ok_def has_frame_def)
  have n: "nxt q' i = nxt q i" if "i < MAX_TXJOBS" for i
    using assms(1) that by (cases "i = j") (auto simp: filled_def nxt_def)
  have d: "data_ok q bs" using ok by (simp add: txq_ok_def)
  have "links_ok q' ls"
    by (rule links_ok_cong [of q]) (use ok n assms(1) in \<open>auto simp: txq_ok_def filled_def\<close>)
  moreover have "j_off (txjobs q' ! i) = TXOFF_NIL" if "i \<in> set (ls ! 0)" for i
    using assms(1) that ok txq_ok_ls [OF ok] links_index [of q ls 0 i]
    by (cases "i = j") (auto simp: txq_ok_def filled_def)
  ultimately show "txq_ok q' ls bs" using filled_frame(1) [OF assms(1) d nb jj] by (simp add: txq_ok_def)
  show "\<forall>i \<in> set bs. payload q' i = payload q i" by (rule filled_frame(2) [OF assms(1) d nb jj])
qed

lemma txq_reserveJob_ok:
  assumes ok: "txq_ok q ls bs"
  shows "case ls ! 0 of [] \<Rightarrow> txq_reserveJob q = Some (None, q)
    | j # fs \<Rightarrow> \<exists>q'. txq_reserveJob q = Some (Some j, q') \<and> filled j q q' \<and> j = freeJobs q"
proof -
  have l: "links_ok q ls" "ls \<noteq> []" using ok txq_ok_ls [OF ok] by (auto simp: txq_ok_def)
  have p: "path (nxt q) TXIDX_END (freeJobs q) (ls ! 0)"
    using links_path [OF l(1), of 0] l(2) by (simp add: head_link_def)
  show ?thesis
  proof (cases "ls ! 0")
    case Nil
    then show ?thesis using p by (simp add: txq_reserveJob_def tx_consts)
  next
    case (Cons j fs)
    have j: "j = freeJobs q" "j < MAX_TXJOBS" "nxt q j \<noteq> TXIDX_NIL" "j_off (txjobs q ! j) = TXOFF_NIL"
      using p Cons links_index [OF l(1), of 0 j] queued_next(1) [OF l(1), of 0 j] l(2) ok
      by (auto simp: txq_ok_def)
    then have "txq_reserveJob q = Some (Some j,
        upd_job j (\<lambda>r. zero_txjob\<lparr>j_off := TXOFF_NIL, j_next := j_next r\<rparr>) q)"
      by (simp add: txq_reserveJob_def Let_def nxt_def tx_consts)
    moreover have "filled j q (upd_job j (\<lambda>r. zero_txjob\<lparr>j_off := TXOFF_NIL, j_next := j_next r\<rparr>) q)"
      using j l(1) by (auto simp: filled_def upd_job_def links_ok_def)
    ultimately show ?thesis using j(1) Cons by simp
  qed
qed

lemma txq_commitJob_ok:
  assumes ok: "txq_ok q ls bs" and j: "ls ! 0 = j # fs"
    and len: "j_len (txjobs q ! j) + txdataInUse q \<le> MAX_TXDATA"
  shows "\<exists>q'. txq_commitJob j q = Some q' \<and>
    txq_ok q' (ls[0 := fs]) (if j_len (txjobs q ! j) = 0 then bs else bs @ [j]) \<and>
    nxt q' j = TXIDX_NIL \<and> txdata q' = txdata q \<and> j_len (txjobs q' ! j) = j_len (txjobs q ! j) \<and>
    j_off (txjobs q' ! j) = txdataInUse q \<and> (\<forall>i \<in> set bs. payload q' i = payload q i)"
proof -
  let ?js = "txjobs q" let ?n = "j_len (?js ! j)"
  have l: "links_ok q ls" "data_ok q bs" "ls \<noteq> []" using ok txq_ok_ls [OF ok] by (auto simp: txq_ok_def)
  have jj: "j < MAX_TXJOBS" "j_off (?js ! j) = TXOFF_NIL" "length ?js = MAX_TXJOBS"
    using ok j l links_index [OF l(1), of 0 j] by (auto simp: txq_ok_def links_ok_def)
  let ?q' = "q\<lparr>freeJobs := nxt q j, txjobs := ?js[j := (?js ! j)\<lparr>j_next := TXIDX_NIL, j_off := txdataInUse q\<rparr>],
      txdataInUse := txdataInUse q + ?n\<rparr>"
  obtain q1 where u: "txq_unqJob (link_at 0 []) q = Some (Some j, q1)" "links_ok q1 (ls[0 := [] @ fs])"
    using txq_unqJob_links [OF l(1), of 0 "[]" j fs] j l(3) by auto
  have fj: "freeJobs q = j" using links_path [OF l(1), of 0] j l(3) by (simp add: head_link_def)
  then have q1: "q1 = upd_job j (j_next_update (\<lambda>_. TXIDX_NIL)) (q\<lparr>freeJobs := nxt q j\<rparr>)"
    using u(1) jj(1) by (simp add: link_at_def head_link_def txq_unqJob_def nxt_def Let_def tx_consts)
  have "links_ok ?q' (ls[0 := [] @ fs])"
    by (rule links_ok_cong [OF u(2)]) (use q1 jj in \<open>auto simp: upd_job_def nxt_def nth_list_update\<close>)
  moreover have "\<forall>i \<in> set (ls[0 := fs] ! 0). j_off (txjobs ?q' ! i) = TXOFF_NIL"
  proof -
    have "distinct (j # fs)" using path_distinct [OF links_path [OF l(1), of 0]] j l(3) by simp
    then have "j \<noteq> i" if "i \<in> set fs" for i using that by auto
    then show ?thesis using ok j l(3) by (auto simp: txq_ok_def)
  qed
  moreover have bsj: "j \<notin> set bs" using l(2) jj(2) by (auto simp: data_ok_def has_frame_def)
  have eq: "\<forall>i \<in> set bs. txjobs ?q' ! i = ?js ! i"
  proof
    fix i assume "i \<in> set bs"
    with bsj have "j \<noteq> i" by blast
    then show "txjobs ?q' ! i = ?js ! i" by simp
  qed
  have bs': "set (if ?n = 0 then bs else bs @ [j]) = Collect (has_frame ?q')"
  proof -
    have "has_frame ?q' i \<longleftrightarrow> has_frame q i \<or> (i = j \<and> ?n \<noteq> 0)" for i
      using jj len by (cases "i = j") (auto simp: has_frame_def tx_consts)
    then show ?thesis using l(2) by (auto simp: data_ok_def)
  qed
  have t: "tiled ?js (txdataInUse q) 0 bs" using l(2) by (simp add: data_ok_def)
  have "tiled (txjobs ?q') (txdataInUse q) 0 bs" using tiled_cong [OF t] eq by simp
  then have "tiled (txjobs ?q') (txdataInUse ?q') 0 (if ?n = 0 then bs else bs @ [j])"
    using jj by (auto simp: tiled_append)
  then have "data_ok ?q' (if ?n = 0 then bs else bs @ [j])"
    using l(2) bs' len bsj jj unfolding data_ok_def by (auto simp: nth_list_update tx_consts)
  moreover have "txq_commitJob j q = Some ?q'"
  proof -
    have "txdataInUse q + ?n < 2 ^ 16" using len by (simp add: tx_consts)
    then show ?thesis using fj jj len by (simp add: txq_commitJob_def nxt_def)
  qed
  moreover have "\<forall>i \<in> set bs. payload ?q' i = payload q i" using eq by (simp add: payload_def)
  ultimately show ?thesis using jj unfolding txq_ok_def
    by (intro exI [of _ ?q']) (simp add: nxt_def)
qed

text \<open>
  The pointers a client can hold into list \<open>k\<close>: the head, and what \<open>txq_nextIdx\<close> gives from one.
\<close>

inductive at_link :: "txq \<Rightarrow> nat \<Rightarrow> txlink \<Rightarrow> bool" for q k where
  head: "at_link q k (head_link k)"
| walk: "at_link q k l \<Longrightarrow> txq_nextIdx q l = Some l' \<Longrightarrow> at_link q k l'"

text \<open>
  What the station does with the queue, one call of the interface at a time: reserve a job and fill
  it, with or without committing it; queue a job at any place of a unit's queue; take one out; free
  one that is in no list.
\<close>

inductive txq_step :: "txq \<Rightarrow> txq \<Rightarrow> bool" where
  abandon: "txq_reserveJob q = Some (Some j, q1) \<Longrightarrow> filled j q1 q2 \<Longrightarrow> txq_step q q2"
| commit: "txq_reserveJob q = Some (Some j, q1) \<Longrightarrow> filled j q1 q2 \<Longrightarrow>
    txq_reserveData q2 maxlen = Some p \<Longrightarrow> j_len (txjobs q2 ! j) \<le> maxlen \<Longrightarrow>
    txq_commitJob j q2 = Some q3 \<Longrightarrow> txq_step q q3"
| queue: "at_link q (Suc u) l \<Longrightarrow> u < length (heads q) \<Longrightarrow> j < MAX_TXJOBS \<Longrightarrow> nxt q j = TXIDX_NIL \<Longrightarrow>
    txq_insJob l j q = Some q' \<Longrightarrow> txq_step q q'"
| unqueue: "at_link q (Suc u) l \<Longrightarrow> u < length (heads q) \<Longrightarrow> txq_unqJob l q = Some (r, q') \<Longrightarrow> txq_step q q'"
| free: "j < MAX_TXJOBS \<Longrightarrow> nxt q j = TXIDX_NIL \<Longrightarrow> txq_freeJob j q = Some q' \<Longrightarrow> txq_step q q'"

inductive txq_reach :: "nat \<Rightarrow> txq \<Rightarrow> bool" for n where
  init: "txq_reach n (txq_ini n)"
| step: "txq_reach n q \<Longrightarrow> txq_step q q' \<Longrightarrow> txq_reach n q'"

lemma at_link_split:
  assumes ok: "links_ok q ls" and k: "k < length ls" and l: "at_link q k l"
  shows "\<exists>us ys. ls ! k = us @ ys \<and> l = link_at k us"
  using l
proof induction
  case head
  then show ?case by (intro exI [of _ "[]"] exI [of _ "ls ! k"]) (simp add: link_at_def)
next
  case (walk l l')
  then obtain us ys where u: "ls ! k = us @ ys" "l = link_at k us" by blast
  have rd: "rd_idx q l = (case ys of [] \<Rightarrow> TXIDX_END | z # _ \<Rightarrow> z)"
    unfolding u(2) by (rule rd_link_at [OF ok k u(1)])
  show ?case
  proof (cases ys)
    case Nil
    then show ?thesis using walk rd u by (auto simp: txq_nextIdx_def tx_consts)
  next
    case (Cons z zs)
    have "z < MAX_TXJOBS" using links_index [OF ok k] u(1) Cons by simp
    then have "l' = LNext z" using walk(2) rd Cons by (auto simp: txq_nextIdx_def tx_consts split: if_splits)
    then show ?thesis using u(1) Cons
      by (intro exI [of _ "us @ [z]"] exI [of _ zs]) (simp add: link_at_def)
  qed
qed

lemma at_linkE:
  assumes ok: "txq_ok q ls bs" and l: "at_link q (Suc u) l" "u < length (heads q)"
  obtains us ys where "Suc u < length ls" "ls ! Suc u = us @ ys" "l = link_at (Suc u) us"
proof -
  have "Suc u < length ls" using txq_ok_ls [OF ok] l(2) by simp
  then show ?thesis using at_link_split [of q ls "Suc u" l] ok l(1) that by (auto simp: txq_ok_def)
qed

lemma txq_reserveJobE:
  assumes ok: "txq_ok q ls bs" and r: "txq_reserveJob q = Some (Some j, q1)" and f: "filled j q1 q2"
  obtains fs where "ls ! 0 = j # fs" "txq_ok q2 ls bs" "\<forall>i \<in> set bs. payload q2 i = payload q i"
proof -
  obtain fs where fs: "ls ! 0 = j # fs" "filled j q q1"
    using txq_reserveJob_ok [OF ok] r by (cases "ls ! 0") auto
  have q1: "txq_ok q1 ls bs" "\<forall>i \<in> set bs. payload q1 i = payload q i"
    using filled_ok [OF fs(2) ok] fs(1) by auto
  show ?thesis using filled_ok [OF f q1(1)] fs(1) q1(2) that by auto
qed

lemma txq_reserveData_room: "txq_reserveData q n = Some p \<Longrightarrow> m \<le> n \<Longrightarrow> m + txdataInUse q \<le> MAX_TXDATA"
  by (auto simp: txq_reserveData_def split: if_splits)

lemma has_frame_iff: "txq_ok q ls bs \<Longrightarrow> i \<in> set bs \<longleftrightarrow> has_frame q i"
  by (auto simp: txq_ok_def data_ok_def)

text \<open>Every step keeps the invariant and the bytes of the frames that stay.\<close>

lemma txq_step_ok:
  assumes ok: "txq_ok q ls bs" and step: "txq_step q q'"
  shows "\<exists>ls' bs'. txq_ok q' ls' bs' \<and> (\<forall>i. has_frame q i \<longrightarrow> has_frame q' i \<longrightarrow> payload q' i = payload q i)"
  using step
proof cases
  case (abandon j q1)
  then show ?thesis using txq_reserveJobE [OF ok abandon(1,2)] has_frame_iff [OF ok] by metis
next
  case (commit j q1 q2 maxlen p)
  obtain fs where fs: "ls ! 0 = j # fs" "txq_ok q2 ls bs" "\<forall>i \<in> set bs. payload q2 i = payload q i"
    using txq_reserveJobE [OF ok commit(1,2)] by blast
  show ?thesis using txq_commitJob_ok [OF fs(2,1) txq_reserveData_room [OF commit(3,4)]] commit(5) fs(3) has_frame_iff [OF ok] by auto
next
  case (queue u l j)
  obtain us ys where "Suc u < length ls" "ls ! Suc u = us @ ys" "l = link_at (Suc u) us"
    using at_linkE [OF ok queue(1,2)] .
  then show ?thesis using txq_insJob_ok [OF ok _ _ queue(3,4)] queue(5) next_only_frame(2) by fastforce
next
  case (unqueue u l r)
  obtain us ys where s: "Suc u < length ls" "ls ! Suc u = us @ ys" "l = link_at (Suc u) us"
    using at_linkE [OF ok unqueue(1,2)] .
  show ?thesis
  proof (cases ys)
    case Nil
    have "rd_idx q l = TXIDX_END" using rd_link_at [of q ls "Suc u" us ys] ok s Nil by (simp add: txq_ok_def)
    then have "q' = q" using unqueue(3) by (auto simp: txq_unqJob_def tx_consts)
    then show ?thesis using ok by blast
  next
    case (Cons j zs)
    then show ?thesis using txq_unqJob_ok [OF ok s(1), of us j zs] s unqueue(3) next_only_frame(2) by fastforce
  qed
next
  case (free j)
  have "i \<in> set (remove1 j bs)" if "has_frame q i" "txq_ok q' ls' (remove1 j bs)" "has_frame q' i" for i ls'
    using that has_frame_iff by blast
  then show ?thesis using txq_freeJob_ok [OF ok free(1,2)] free(3) by (metis option.inject)
qed

lemma txq_reach_ok: "txq_reach n q \<Longrightarrow> \<exists>ls bs. txq_ok q ls bs"
  by (induction rule: txq_reach.induct) (use txq_ini_ok txq_step_ok in blast)+

text \<open>A frame of any length can be committed while there is a job and room.\<close>

lemma txq_reach_commit:
  assumes r: "txq_reach n q" and ok: "txq_ok q ls bs" and j: "ls ! 0 = j # fs"
    and room: "m + txdataInUse q \<le> MAX_TXDATA" and m: "0 < m"
  shows "\<exists>q'. txq_reach n q' \<and> txq_ok q' (ls[0 := fs]) (bs @ [j]) \<and> j_len (txjobs q' ! j) = m \<and>
    j_off (txjobs q' ! j) = txdataInUse q \<and> nxt q' j = TXIDX_NIL \<and> has_frame q' j"
proof -
  obtain q1 where q1: "txq_reserveJob q = Some (Some j, q1)" "filled j q q1"
    using txq_reserveJob_ok [OF ok] j by auto
  have jj: "j < length (txjobs q1)" using ok j links_index [of q ls 0 j] txq_ok_ls [OF ok] q1(2)
    by (auto simp: filled_def txq_ok_def links_ok_def)
  let ?q2 = "upd_job j (\<lambda>r. r\<lparr>j_len := m\<rparr>) q1"
  have f: "filled j q1 ?q2" using jj by (auto simp: filled_def upd_job_def nth_list_update)
  have len: "j_len (txjobs ?q2 ! j) = m" using jj by (simp add: upd_job_def)
  have iu: "txdataInUse ?q2 = txdataInUse q" using f q1(2) by (simp add: filled_def)
  have ok2: "txq_ok ?q2 ls bs" using txq_reserveJobE [OF ok q1(1) f] by blast
  have "j_len (txjobs ?q2 ! j) + txdataInUse ?q2 \<le> MAX_TXDATA" using room len iu by simp
  then obtain q' where q': "txq_commitJob j ?q2 = Some q'" "nxt q' j = TXIDX_NIL"
    "txq_ok q' (ls[0 := fs]) (if j_len (txjobs ?q2 ! j) = 0 then bs else bs @ [j])"
    "j_len (txjobs q' ! j) = j_len (txjobs ?q2 ! j)" "j_off (txjobs q' ! j) = txdataInUse ?q2"
    using txq_commitJob_ok [OF ok2 j] by blast
  have "txq_reserveData ?q2 m = Some (txdataInUse ?q2)" using room iu by (auto simp: txq_reserveData_def)
  then have "txq_step q q'" by (rule txq_step.commit [OF q1(1) f _ _ q'(1)]) (simp add: len)
  then have "txq_reach n q'" by (rule txq_reach.step [OF r])
  moreover have "txq_ok q' (ls[0 := fs]) (bs @ [j])" using q'(3) len m by simp
  moreover from this have "has_frame q' j" using has_frame_iff [of q' "ls[0 := fs]" "bs @ [j]" j] by simp
  ultimately show ?thesis using q' len iu by (intro exI [of _ q']) simp
qed

text \<open>Two frames in the queue: job 0 with \<open>a\<close> bytes in front of job 1 with \<open>b\<close> bytes.\<close>

lemma txq_reach_two:
  assumes "0 < a" and "0 < b" and "a + b \<le> MAX_TXDATA"
  shows "\<exists>q. txq_reach n q \<and> txq_ok q ([2..<MAX_TXJOBS] # replicate n []) [0, 1] \<and>
    j_len (txjobs q ! 0) = a \<and> j_len (txjobs q ! 1) = b \<and> nxt q 0 = TXIDX_NIL \<and> nxt q 1 = TXIDX_NIL"
proof -
  have u: "[0..<MAX_TXJOBS] = 0 # 1 # [2..<MAX_TXJOBS]" by (simp add: tx_consts upt_conv_Cons del: upt_Suc)
  obtain q1 where q1: "txq_reach n q1" "txq_ok q1 ((1 # [2..<MAX_TXJOBS]) # replicate n []) [0]"
    "j_len (txjobs q1 ! 0) = a"
    using txq_reach_commit [OF txq_reach.init [of n] txq_ini_ok [of n], of 0 "1 # [2..<MAX_TXJOBS]" a] assms
    by (auto simp: u txq_ini_def Let_def)
  have in1: "txdataInUse q1 = a" using q1(2,3) by (simp add: txq_ok_def data_ok_def)
  obtain q where q: "txq_reach n q" "txq_ok q ([2..<MAX_TXJOBS] # replicate n []) [0, 1]"
    "j_len (txjobs q ! 1) = b" "j_off (txjobs q ! 1) = txdataInUse q1" "nxt q 1 = TXIDX_NIL"
    using txq_reach_commit [OF q1(1,2), of 1 "[2..<MAX_TXJOBS]" b] assms in1 by auto
  have "j_len (txjobs q ! 0) = a" using q(2,4) in1 by (simp add: txq_ok_def data_ok_def)
  moreover have "nxt q 0 = TXIDX_NIL"
  proof -
    have "k < Suc n \<Longrightarrow> 0 \<notin> set (([2..<MAX_TXJOBS] # replicate n []) ! k)" for k
      by (cases k) auto
    moreover have "links_ok q ([2..<MAX_TXJOBS] # replicate n [])" using q(2) by (simp add: txq_ok_def)
    ultimately show ?thesis unfolding links_ok_def by (metis length_Cons length_replicate MAX_TXJOBS_def zero_less_numeral)
  qed
  ultimately show ?thesis using q by blast
qed

section \<open>TX queue: properties\<close>





text \<open>Freeing a frame can make the code call \<open>memcpy\<close> with overlapping regions, which C leaves
  undefined: with a 1 byte frame in front of a 2 byte frame, freeing the first asks for a copy of 2
  bytes from offset 1 to offset 0.\<close>

definition memcpy_overlaps :: "txq \<Rightarrow> nat \<Rightarrow> bool" where
  "memcpy_overlaps q j \<longleftrightarrow>
     (let dst = j_off (txjobs q ! j); src = dst + j_len (txjobs q ! j); n = txdataInUse q - src
      in dst \<noteq> TXOFF_NIL \<and> src < txdataInUse q \<and> dst < src + n \<and> src < dst + n)"

theorem txq_freeData_overlap: "\<exists>q. txq_reach 1 q \<and> nxt q 0 = TXIDX_NIL \<and> memcpy_overlaps q 0"
proof -
  obtain q where q: "txq_reach 1 q" "txq_ok q ([2..<MAX_TXJOBS] # replicate 1 []) [0, 1]" "nxt q 0 = TXIDX_NIL"
    "j_len (txjobs q ! 0) = 1" "j_len (txjobs q ! 1) = 2"
    using txq_reach_two [of 1 2 1] by (auto simp: tx_consts)
  then have "memcpy_overlaps q 0" by (auto simp: memcpy_overlaps_def txq_ok_def data_ok_def tx_consts Let_def)
  with q show ?thesis by blast
qed

end
