(* ===== verification/Rxq.thy ===== *)
theory Rxq
  imports Prelude "HOL-Library.Monad_Syntax"
begin

text \<open>
  The queue of received frames of src/src/xq.c: a window \<open>first..next\<close> of an array of jobs, with the
  frames one after the other in \<open>rxdata\<close>; both move to the front when they reach the end.
  \<open>rxq_ok\<close> is the invariant, \<open>rx_items\<close> what the queue holds.
\<close>

section \<open>State\<close>

definition MAX_RXJOBS :: nat where "MAX_RXJOBS = 64"
definition MAX_RXDATA :: nat where "MAX_RXDATA = 10240"
definition MAX_RXFRAME_LEN :: nat where "MAX_RXFRAME_LEN = 255"

lemmas rx_consts = MAX_RXJOBS_def MAX_RXDATA_def MAX_RXFRAME_LEN_def

record rxjob =
  r_rctx :: sL
  r_xtime :: sL
  r_fts :: s4
  r_freq :: u4
  r_off :: u2
  r_rssi :: u1
  r_snr :: s1
  r_dr :: u1
  r_len :: u1

record rxq =
  rxjobs :: "rxjob list"
  rxdata :: bytes
  rx_first :: u1
  rx_next :: u1

definition rx_upd :: "nat \<Rightarrow> (rxjob \<Rightarrow> rxjob) \<Rightarrow> rxq \<Rightarrow> rxq" where
  "rx_upd i f q = q\<lparr>rxjobs := (rxjobs q)[i := f (rxjobs q ! i)]\<rparr>"

lemma rx_upd_fields [simp]:
  "rx_first (rx_upd i f q) = rx_first q" "rx_next (rx_upd i f q) = rx_next q"
  "rxdata (rx_upd i f q) = rxdata q" "length (rxjobs (rx_upd i f q)) = length (rxjobs q)"
  by (simp_all add: rx_upd_def)

section \<open>Operations\<close>

definition rxq_ini :: "rxq \<Rightarrow> rxq" where
  "rxq_ini q = q\<lparr>rx_first := 0, rx_next := 0\<rparr>"

text \<open>
  The jump target \<open>check_rxdata\<close>: \<open>end\<close> is the end of the used data; the data moves to the front
  when the longest frame does not fit behind it. \<open>None\<close> inside stands for \<open>NULL\<close>.
\<close>

definition shift_offs :: "nat \<Rightarrow> nat \<Rightarrow> nat \<Rightarrow> rxjob list \<Rightarrow> rxjob list" where
  "shift_offs first next off js =
     take first js @ map (\<lambda>j. j\<lparr>r_off := to_u 16 (int (r_off j) - int off)\<rparr>) (take (next - first) (drop first js)) @
     drop next js"

partial_function (option) check_rxdata :: "nat \<Rightarrow> nat \<Rightarrow> nat \<Rightarrow> rxq \<Rightarrow> (nat option \<times> rxq) option" where
  "check_rxdata first next e q =
     (if e + MAX_RXFRAME_LEN > MAX_RXDATA then
        let off = r_off (rxjobs q ! first) in
        if off = 0 then Some (None, q)
        else check_rxdata first next (to_u 16 (int e - int off))
          (q\<lparr>rxdata := memmove 0 off (e - off) (rxdata q),
             rxjobs := shift_offs first next off (rxjobs q)\<rparr>)
      else Some (Some next, rx_upd next (\<lambda>j. j\<lparr>r_off := e, r_len := 0, r_fts := - 1\<rparr>) q))"

definition rxq_nextJob :: "rxq \<Rightarrow> (nat option \<times> rxq) option" where
  "rxq_nextJob q =
     (let first = rx_first q; next = rx_next q in
      if first = next then
        Some (Some 0, rx_upd 0 (\<lambda>j. j\<lparr>r_off := 0, r_len := 0, r_fts := - 1\<rparr>) (q\<lparr>rx_first := 0, rx_next := 0\<rparr>))
      else if next \<ge> MAX_RXJOBS \<and> first = 0 then Some (None, q)
      else
        let (first, next, q) =
              (if next \<ge> MAX_RXJOBS
               then (0, next - first, q\<lparr>rxjobs := memmove 0 first (next - first) (rxjobs q),
                       rx_next := next - first, rx_first := 0\<rparr>)
               else (first, next, q));
            last = rxjobs q ! (next - 1);
            e = (r_off last + r_len last) mod 2 ^ 16
        in check_rxdata first next e q)"

definition rxq_commitJob :: "nat \<Rightarrow> rxq \<Rightarrow> rxq option" where
  "rxq_commitJob p q = (if p \<noteq> rx_next q then None else Some (q\<lparr>rx_next := (rx_next q + 1) mod 256\<rparr>))"

text \<open>
  Dropping job \<open>p\<close>: the code also moves the element behind the last job (it copies
  \<open>last - p + 1\<close> of them), which lies outside the array when the last slot is in use. The result
  has the index of the new last job.
\<close>

definition rxq_dropJob :: "nat \<Rightarrow> rxq \<Rightarrow> (nat \<times> rxq) option" where
  "rxq_dropJob p q =
     (let last = rx_next q - 1; jobs = rxjobs q;
          poff = r_off (jobs ! p); pend = (poff + r_len (jobs ! p)) mod 2 ^ 16;
          n = r_off (jobs ! last) + r_len (jobs ! last) - pend in
      if \<not> (0 < rx_next q \<and> p < last) then None
      else if last + 1 \<ge> MAX_RXJOBS \<or> pend > r_off (jobs ! last) + r_len (jobs ! last) \<or>
              r_off (jobs ! last) + r_len (jobs ! last) > MAX_RXDATA then None
      else Some (last - 1, q\<lparr>rx_next := last, rxdata := memmove poff pend n (rxdata q),
             rxjobs := shift_offs p (last + 1) (pend - poff) (memmove p (p + 1) (last - p + 1) jobs)\<rparr>))"

section \<open>Invariant\<close>

text \<open>
  The frames lie one after the other; a job is shown as its fields with the offset blanked out, and
  its bytes.
\<close>

definition rx_job :: "rxq \<Rightarrow> nat \<Rightarrow> rxjob" where "rx_job q i = rxjobs q ! i"

definition rx_end :: "rxq \<Rightarrow> nat \<Rightarrow> nat" where
  "rx_end q i = r_off (rx_job q i) + r_len (rx_job q i)"

definition rxq_ok :: "rxq \<Rightarrow> bool" where
  "rxq_ok q \<longleftrightarrow> length (rxjobs q) = MAX_RXJOBS \<and> length (rxdata q) = MAX_RXDATA \<and>
     rx_first q \<le> rx_next q \<and> rx_next q \<le> MAX_RXJOBS \<and>
     (\<forall>i. rx_first q \<le> i \<and> Suc i < rx_next q \<longrightarrow> r_off (rx_job q (Suc i)) = rx_end q i) \<and>
     (\<forall>i. rx_first q \<le> i \<and> i < rx_next q \<longrightarrow> rx_end q i \<le> MAX_RXDATA)"

definition rx_item :: "rxq \<Rightarrow> nat \<Rightarrow> rxjob \<times> bytes" where
  "rx_item q i = ((rx_job q i)\<lparr>r_off := 0\<rparr>, blk (r_off (rx_job q i)) (r_len (rx_job q i)) (rxdata q))"

definition rx_items :: "rxq \<Rightarrow> (rxjob \<times> bytes) list" where
  "rx_items q = map (rx_item q) [rx_first q ..< rx_next q]"

lemma length_shift_offs [simp]: "a \<le> b \<Longrightarrow> b \<le> length js \<Longrightarrow> length (shift_offs a b d js) = length js"
  by (simp add: shift_offs_def)

lemma nth_shift_offs:
  assumes "a \<le> b" and "b \<le> length js" and "i < length js"
  shows "shift_offs a b d js ! i = (if a \<le> i \<and> i < b
    then (js ! i)\<lparr>r_off := to_u 16 (int (r_off (js ! i)) - int d)\<rparr> else js ! i)"
  using assms by (auto simp: shift_offs_def nth_append)

lemma rx_offs_mono:
  assumes ok: "rxq_ok q" and "rx_first q \<le> i" and "i \<le> j" and "j < rx_next q"
  shows "r_off (rx_job q i) \<le> r_off (rx_job q j)" and "i < j \<Longrightarrow> rx_end q i \<le> r_off (rx_job q j)"
    and "rx_end q i \<le> rx_end q j"
proof -
  have step: "r_off (rx_job q (Suc m)) = rx_end q m" if "rx_first q \<le> m" "Suc m < rx_next q" for m
    using ok that by (simp add: rxq_ok_def)
  have "i < j \<Longrightarrow> rx_end q i \<le> r_off (rx_job q j)" if "j < rx_next q" for j
    using that
  proof (induction j)
    case (Suc m)
    have s: "r_off (rx_job q (Suc m)) = rx_end q m" using step [of m] Suc.prems assms(2) by simp
    show ?case
    proof (cases "i = m")
      case False
      then have "rx_end q i \<le> r_off (rx_job q m)" using Suc by simp
      then show ?thesis using s by (simp add: rx_end_def)
    qed (use s in simp)
  qed simp
  then show e: "i < j \<Longrightarrow> rx_end q i \<le> r_off (rx_job q j)" using assms(4) by blast
  then show "r_off (rx_job q i) \<le> r_off (rx_job q j)" "rx_end q i \<le> rx_end q j"
    using assms(3) by (cases "i = j"; simp add: rx_end_def)+
qed

section \<open>Correctness of the operations\<close>

lemma rx_itemI:
  assumes "(rx_job q' i')\<lparr>r_off := 0\<rparr> = (rx_job q i)\<lparr>r_off := 0\<rparr>"
    and "rx_end q i \<le> length (rxdata q)" and "rx_end q' i' \<le> length (rxdata q')"
    and "\<And>t. t < r_len (rx_job q i) \<Longrightarrow>
      rxdata q' ! (r_off (rx_job q' i') + t) = rxdata q ! (r_off (rx_job q i) + t)"
  shows "rx_item q' i' = rx_item q i"
proof -
  have "r_len ((rx_job q' i')\<lparr>r_off := 0\<rparr>) = r_len ((rx_job q i)\<lparr>r_off := 0\<rparr>)" by (simp only: assms(1))
  then have "r_len (rx_job q' i') = r_len (rx_job q i)" by simp
  then have "blk (r_off (rx_job q' i')) (r_len (rx_job q' i')) (rxdata q') =
      blk (r_off (rx_job q i)) (r_len (rx_job q i)) (rxdata q)"
    using assms(2-4) by (auto simp: rx_end_def intro!: blk_eqI)
  then show ?thesis using assms(1) by (simp add: rx_item_def)
qed

text \<open>Moving the data to the front: the same items, and the first frame at offset 0.\<close>

definition rx_shift :: "nat \<Rightarrow> nat \<Rightarrow> nat \<Rightarrow> rxq \<Rightarrow> rxq" where
  "rx_shift first next e q = (let off = r_off (rxjobs q ! first) in
     q\<lparr>rxdata := memmove 0 off (e - off) (rxdata q), rxjobs := shift_offs first next off (rxjobs q)\<rparr>)"

lemma rx_shift_ok:
  assumes ok: "rxq_ok q" and ne: "rx_first q < rx_next q" and e: "e = rx_end q (rx_next q - 1)"
  defines "q' \<equiv> rx_shift (rx_first q) (rx_next q) e q"
  shows "rxq_ok q'" and "rx_items q' = rx_items q" and "r_off (rx_job q' (rx_first q)) = 0"
    and "rx_end q' (rx_next q - 1) = e - r_off (rx_job q (rx_first q))"
    and "rx_first q' = rx_first q" "rx_next q' = rx_next q"
proof -
  let ?f = "rx_first q" let ?n = "rx_next q" let ?o = "r_off (rx_job q ?f)"
  have c: "length (rxjobs q) = MAX_RXJOBS" "length (rxdata q) = MAX_RXDATA" "?n \<le> MAX_RXJOBS"
    "\<And>i. ?f \<le> i \<Longrightarrow> Suc i < ?n \<Longrightarrow> r_off (rx_job q (Suc i)) = rx_end q i"
    "\<And>i. ?f \<le> i \<Longrightarrow> i < ?n \<Longrightarrow> rx_end q i \<le> MAX_RXDATA"
    using ok by (simp_all add: rxq_ok_def)
  have fn: "rx_first q' = ?f" "rx_next q' = ?n" by (simp_all add: q'_def rx_shift_def Let_def)
  have lo: "?o \<le> r_off (rx_job q i)" "r_off (rx_job q i) \<le> MAX_RXDATA" "rx_end q i \<le> e"
    if "?f \<le> i" "i < ?n" for i
    using rx_offs_mono [OF ok, of ?f i] rx_offs_mono [OF ok that(1), of "?n - 1"] c(5) [OF that] that
    by (auto simp: e rx_end_def)
  have at: "rx_job q' i = (rx_job q i)\<lparr>r_off := r_off (rx_job q i) - ?o\<rparr>" if "?f \<le> i" "i < ?n" for i
  proof -
    have "to_u 16 (int (r_off (rx_job q i)) - int ?o) = r_off (rx_job q i) - ?o"
      using lo [OF that] by (subst to_u_id) (auto simp: rx_consts)
    then show ?thesis using that c(1,3)
      by (simp add: q'_def rx_shift_def Let_def rx_job_def nth_shift_offs)
  qed
  have en: "rx_end q' i = rx_end q i - ?o" if "?f \<le> i" "i < ?n" for i
    using at [OF that] lo [OF that] by (simp add: rx_end_def)
  have "e \<le> MAX_RXDATA" using c(5) [of "?n - 1"] ne by (simp add: e)
  then have dt: "rxdata q' ! t = rxdata q ! (?o + t)" "length (rxdata q') = MAX_RXDATA" if "t < e - ?o" for t
    using that c(2) by (simp_all add: q'_def rx_shift_def Let_def rx_job_def nth_memmove)
  have "rxdata q' = memmove 0 ?o (e - ?o) (rxdata q)" by (simp add: q'_def rx_shift_def Let_def rx_job_def)
  then have ld: "length (rxdata q') = MAX_RXDATA" using \<open>e \<le> MAX_RXDATA\<close> c(2) lo(1) [of "?n - 1"]
    by (cases "?o \<le> e") (auto simp: memmove_def)
  have item: "rx_item q' i = rx_item q i" if "?f \<le> i" "i < ?n" for i
  proof (rule rx_itemI)
    fix t assume "t < r_len (rx_job q i)"
    then have "r_off (rx_job q i) - ?o + t < e - ?o" using lo [OF that] by (simp add: rx_end_def)
    then show "rxdata q' ! (r_off (rx_job q' i) + t) = rxdata q ! (r_off (rx_job q i) + t)"
      using dt at [OF that] lo [OF that] by simp
  qed (use at [OF that] en [OF that] c(2,5) that ld in \<open>auto simp: le_diff_conv trans_le_add1\<close>)
  show "rx_items q' = rx_items q" using item fn by (auto simp: rx_items_def)
  show "r_off (rx_job q' ?f) = 0" using at [of ?f] ne by simp
  show "rx_end q' (?n - 1) = e - ?o" using en [of "?n - 1"] ne by (simp add: e)
  have "r_off (rx_job q' (Suc i)) = rx_end q' i" if "?f \<le> i" "Suc i < ?n" for i
    using at [of "Suc i"] en [of i] c(4) [OF that] that by simp
  moreover have "rx_end q' i \<le> MAX_RXDATA" if "?f \<le> i" "i < ?n" for i
    using en [OF that] c(5) [OF that] by simp
  moreover have "length (rxjobs q') = MAX_RXJOBS" using c(1,3) ne by (simp add: q'_def rx_shift_def Let_def)
  ultimately show "rxq_ok q'" using ok fn ld by (auto simp: rxq_ok_def)
  show "rx_first q' = ?f" "rx_next q' = ?n" by (fact fn)+
qed

text \<open>Moving the jobs to the front.\<close>

definition rx_compact :: "rxq \<Rightarrow> rxq" where
  "rx_compact q = q\<lparr>rxjobs := memmove 0 (rx_first q) (rx_next q - rx_first q) (rxjobs q),
     rx_next := rx_next q - rx_first q, rx_first := 0\<rparr>"

lemma rx_compact_ok:
  assumes ok: "rxq_ok q"
  shows "rxq_ok (rx_compact q)" and "rx_items (rx_compact q) = rx_items q"
    and "rx_first (rx_compact q) = 0" "rx_next (rx_compact q) = rx_next q - rx_first q"
proof -
  let ?f = "rx_first q" let ?n = "rx_next q" let ?q = "rx_compact q"
  have c: "length (rxjobs q) = MAX_RXJOBS" "?f \<le> ?n" "?n \<le> MAX_RXJOBS" using ok by (simp_all add: rxq_ok_def)
  have at: "rx_job ?q i = rx_job q (?f + i)" if "?f + i < ?n" for i
    using c that by (simp add: rx_job_def rx_compact_def nth_memmove)
  then have en: "rx_end ?q i = rx_end q (?f + i)" if "?f + i < ?n" for i using that by (simp add: rx_end_def)
  show "rxq_ok ?q" using ok at en by (auto simp: rxq_ok_def rx_compact_def)
  have "rx_item ?q i = rx_item q (?f + i)" if "?f + i < ?n" for i
    using at [OF that] by (simp add: rx_item_def rx_compact_def)
  then have "rx_items ?q = map (\<lambda>i. rx_item q (?f + i)) [0..<?n - ?f]"
    by (auto simp: rx_items_def rx_compact_def)
  also have "\<dots> = rx_items q" using c(2)
    by (intro nth_equalityI) (auto simp: rx_items_def)
  finally show "rx_items ?q = rx_items q" .
qed (simp_all add: rx_compact_def)

lemma rx_upd_ok:
  assumes "rxq_ok q" and "i \<ge> rx_next q"
  shows "rxq_ok (rx_upd i f q)" and "rx_items (rx_upd i f q) = rx_items q"
    and "m < rx_next q \<Longrightarrow> rx_end (rx_upd i f q) m = rx_end q m"
proof -
  have at: "rx_job (rx_upd i f q) m = rx_job q m" if "m < rx_next q" for m
    using assms(2) that by (simp add: rx_job_def rx_upd_def)
  then have en: "rx_end (rx_upd i f q) m = rx_end q m" if "m < rx_next q" for m using that by (simp add: rx_end_def)
  then show "m < rx_next q \<Longrightarrow> rx_end (rx_upd i f q) m = rx_end q m" .
  show "rxq_ok (rx_upd i f q)" using assms(1) at en by (auto simp: rxq_ok_def rx_upd_def)
  have "rx_item (rx_upd i f q) m = rx_item q m" if "m < rx_next q" for m
    using at [OF that] by (simp add: rx_item_def rx_upd_def)
  then show "rx_items (rx_upd i f q) = rx_items q" by (auto simp: rx_items_def rx_upd_def)
qed

text \<open>The bytes of all frames in the queue.\<close>

definition rx_bytes :: "rxq \<Rightarrow> nat" where
  "rx_bytes q = (\<Sum>it \<leftarrow> rx_items q. length (snd it))"

lemma rx_bytes_span:
  assumes ok: "rxq_ok q" and ne: "rx_first q < rx_next q"
  shows "rx_bytes q = rx_end q (rx_next q - 1) - r_off (rx_job q (rx_first q))"
proof -
  have len: "length (snd (rx_item q i)) = r_len (rx_job q i)" if "rx_first q \<le> i" "i < rx_next q" for i
    using ok that by (auto simp: rx_item_def rxq_ok_def rx_end_def)
  have "(\<Sum>i \<leftarrow> [rx_first q ..< Suc m]. length (snd (rx_item q i))) + r_off (rx_job q (rx_first q)) = rx_end q m"
    if "rx_first q \<le> m" "m < rx_next q" for m
    using that
  proof (induction m)
    case (Suc m)
    show ?case
    proof (cases "rx_first q = Suc m")
      case True
      then show ?thesis using Suc.prems len [of "Suc m"] by (simp add: rx_end_def)
    next
      case False
      then have "r_off (rx_job q (Suc m)) = rx_end q m" using ok Suc.prems by (simp add: rxq_ok_def)
      then show ?thesis using False Suc len [of "Suc m"] by (simp add: rx_end_def)
    qed
  qed (simp add: rx_end_def len)
  moreover have "Suc (rx_next q - 1) = rx_next q" "rx_first q \<le> rx_next q - 1" using ne by simp_all
  ultimately have "(\<Sum>i \<leftarrow> [rx_first q ..< rx_next q]. length (snd (rx_item q i))) + r_off (rx_job q (rx_first q)) =
      rx_end q (rx_next q - 1)" by (metis Suc_n_not_le_n not_le)
  then show ?thesis by (simp add: rx_bytes_def rx_items_def comp_def)
qed

text \<open>The allocation step on a non-empty queue whose next slot is inside the array.\<close>

lemma check_rxdata_ok:
  assumes ok: "rxq_ok q" and ne: "rx_first q < rx_next q" and e: "e = rx_end q (rx_next q - 1)"
  shows "\<exists>r q'. check_rxdata (rx_first q) (rx_next q) e q = Some (r, q') \<and> rxq_ok q' \<and>
    rx_items q' = rx_items q \<and> rx_first q' = rx_first q \<and> rx_next q' = rx_next q \<and>
    (case r of None \<Rightarrow> rx_bytes q + MAX_RXFRAME_LEN > MAX_RXDATA
     | Some p \<Rightarrow> p = rx_next q \<and> rx_end q' (p - 1) + MAX_RXFRAME_LEN \<le> MAX_RXDATA \<and>
         (p < MAX_RXJOBS \<longrightarrow> r_off (rx_job q' p) = rx_end q' (p - 1) \<and> r_len (rx_job q' p) = 0))"
proof -
  let ?f = "rx_first q" let ?n = "rx_next q"
  let ?init = "\<lambda>e q. rx_upd ?n (\<lambda>j. j\<lparr>r_off := e, r_len := 0, r_fts := - 1\<rparr>) q"
  have fits: "\<exists>q'. check_rxdata ?f ?n e q = Some (Some ?n, q') \<and> rxq_ok q' \<and> rx_items q' = rx_items q \<and>
      rx_first q' = ?f \<and> rx_next q' = ?n \<and> rx_end q' (?n - 1) + MAX_RXFRAME_LEN \<le> MAX_RXDATA \<and>
      (?n < MAX_RXJOBS \<longrightarrow> r_off (rx_job q' ?n) = rx_end q' (?n - 1) \<and> r_len (rx_job q' ?n) = 0)"
    if q: "rxq_ok q" "rx_first q = ?f" "rx_next q = ?n" "e = rx_end q (?n - 1)" "e + MAX_RXFRAME_LEN \<le> MAX_RXDATA"
    for q e
  proof -
    have "check_rxdata ?f ?n e q = Some (Some ?n, ?init e q)"
      using q(5) by (subst check_rxdata.simps) simp
    moreover have "?n < MAX_RXJOBS \<Longrightarrow> r_off (rx_job (?init e q) ?n) = e \<and> r_len (rx_job (?init e q) ?n) = 0"
      using q(1) by (simp add: rx_upd_def rx_job_def rxq_ok_def)
    moreover have "rx_end (?init e q) (?n - 1) = e" using rx_upd_ok(3) [OF q(1)] q(3,4) ne by simp
    moreover have "rxq_ok (?init e q)" "rx_items (?init e q) = rx_items q"
      using rx_upd_ok [OF q(1), of ?n] q(3) by simp_all
    ultimately show ?thesis using q(2,3,5) by (intro exI [of _ "?init e q"]) simp
  qed
  show ?thesis
  proof (cases "e + MAX_RXFRAME_LEN \<le> MAX_RXDATA")
    case True
    obtain q' where "check_rxdata ?f ?n e q = Some (Some ?n, q')" "rxq_ok q'" "rx_items q' = rx_items q"
      "rx_first q' = ?f" "rx_next q' = ?n" "rx_end q' (?n - 1) + MAX_RXFRAME_LEN \<le> MAX_RXDATA"
      "?n < MAX_RXJOBS \<longrightarrow> r_off (rx_job q' ?n) = rx_end q' (?n - 1) \<and> r_len (rx_job q' ?n) = 0"
      using fits [OF ok refl refl e True] by blast
    then show ?thesis by (intro exI [of _ "Some ?n"] exI [of _ q']) simp
  next
    case False
    let ?o = "r_off (rx_job q ?f)"
    have bytes: "rx_bytes q = e - ?o" using rx_bytes_span [OF ok ne] e by simp
    show ?thesis
    proof (cases "?o = 0")
      case True
      have "check_rxdata ?f ?n e q = Some (None, q)"
        using False True by (subst check_rxdata.simps) (simp add: rx_job_def)
      then show ?thesis using False True bytes ok by auto
    next
      case o: False
      let ?q = "rx_shift ?f ?n e q"
      note sh = rx_shift_ok [OF ok ne e]
      have "e \<le> MAX_RXDATA" using ok ne by (simp add: e rxq_ok_def)
      moreover have "?o \<le> r_off (rx_job q (?n - 1))" using rx_offs_mono(1) [OF ok, of ?f "?n - 1"] ne by simp
      moreover have "r_off (rx_job q (?n - 1)) \<le> e" by (simp add: e rx_end_def)
      ultimately have "e \<le> MAX_RXDATA" "?o \<le> e" by simp_all
      then have "to_u 16 (int e - int ?o) = e - ?o" by (subst to_u_id) (auto simp: rx_consts)
      then have step: "check_rxdata ?f ?n e q = check_rxdata ?f ?n (e - ?o) ?q"
        using False o by (subst check_rxdata.simps) (simp add: rx_job_def rx_shift_def Let_def)
      show ?thesis
      proof (cases "e - ?o + MAX_RXFRAME_LEN \<le> MAX_RXDATA")
        case True
        obtain q' where "check_rxdata ?f ?n (e - ?o) ?q = Some (Some ?n, q')" "rxq_ok q'" "rx_items q' = rx_items ?q"
          "rx_first q' = ?f" "rx_next q' = ?n" "rx_end q' (?n - 1) + MAX_RXFRAME_LEN \<le> MAX_RXDATA"
          "?n < MAX_RXJOBS \<longrightarrow> r_off (rx_job q' ?n) = rx_end q' (?n - 1) \<and> r_len (rx_job q' ?n) = 0"
          using fits [OF sh(1) sh(5,6) sh(4) [symmetric] True] by blast
        then show ?thesis using step sh(2) by (intro exI [of _ "Some ?n"] exI [of _ q']) simp
      next
        case no: False
        have "check_rxdata ?f ?n (e - ?o) ?q = Some (None, ?q)"
          using no sh(3) by (subst check_rxdata.simps) (simp add: rx_job_def)
        then show ?thesis using no step sh bytes by auto
      qed
    qed
  qed
qed

lemma rxq_nextJob_ok:
  assumes ok: "rxq_ok q"
  shows "\<exists>r q'. rxq_nextJob q = Some (r, q') \<and> rxq_ok q' \<and> rx_items q' = rx_items q \<and>
    (case r of None \<Rightarrow> length (rx_items q) = MAX_RXJOBS \<or> rx_bytes q + MAX_RXFRAME_LEN > MAX_RXDATA
     | Some p \<Rightarrow> p = rx_next q' \<and> p < MAX_RXJOBS \<and> r_len (rx_job q' p) = 0 \<and>
         r_off (rx_job q' p) = (if rx_first q' < p then rx_end q' (p - 1) else 0) \<and>
         r_off (rx_job q' p) + MAX_RXFRAME_LEN \<le> MAX_RXDATA)"
proof -
  let ?f = "rx_first q" let ?n = "rx_next q"
  have c: "?f \<le> ?n" "?n \<le> MAX_RXJOBS" "length (rxjobs q) = MAX_RXJOBS" using ok by (simp_all add: rxq_ok_def)
  have alloc: "\<exists>r q'. check_rxdata (rx_first s) (rx_next s) ((r_off (rxjobs s ! (rx_next s - 1)) +
        r_len (rxjobs s ! (rx_next s - 1))) mod 2 ^ 16) s = Some (r, q') \<and> rxq_ok q' \<and> rx_items q' = rx_items q \<and>
    (case r of None \<Rightarrow> rx_bytes q + MAX_RXFRAME_LEN > MAX_RXDATA
     | Some p \<Rightarrow> p = rx_next q' \<and> p < MAX_RXJOBS \<and> r_len (rx_job q' p) = 0 \<and>
         r_off (rx_job q' p) = (if rx_first q' < p then rx_end q' (p - 1) else 0) \<and>
         r_off (rx_job q' p) + MAX_RXFRAME_LEN \<le> MAX_RXDATA)"
    if s: "rxq_ok s" "rx_items s = rx_items q" "rx_first s < rx_next s" "rx_next s < MAX_RXJOBS" for s
  proof -
    have "rx_end s (rx_next s - 1) \<le> MAX_RXDATA" using s by (simp add: rxq_ok_def)
    then have e: "(r_off (rxjobs s ! (rx_next s - 1)) + r_len (rxjobs s ! (rx_next s - 1))) mod 2 ^ 16 =
        rx_end s (rx_next s - 1)" by (simp add: rx_end_def rx_job_def rx_consts)
    obtain r q' where r: "check_rxdata (rx_first s) (rx_next s) (rx_end s (rx_next s - 1)) s = Some (r, q')"
      "rxq_ok q'" "rx_items q' = rx_items s" "rx_first q' = rx_first s" "rx_next q' = rx_next s"
      "case r of None \<Rightarrow> rx_bytes s + MAX_RXFRAME_LEN > MAX_RXDATA
        | Some p \<Rightarrow> p = rx_next s \<and> rx_end q' (p - 1) + MAX_RXFRAME_LEN \<le> MAX_RXDATA \<and>
           (p < MAX_RXJOBS \<longrightarrow> r_off (rx_job q' p) = rx_end q' (p - 1) \<and> r_len (rx_job q' p) = 0)"
      using check_rxdata_ok [OF s(1,3) refl] by blast
    have "rx_bytes s = rx_bytes q" using s(2) by (simp add: rx_bytes_def)
    then show ?thesis unfolding e using r s by (intro exI [of _ r] exI [of _ q']) (auto split: option.splits)
  qed
  consider "?f = ?n" | "?f < ?n" "?n < MAX_RXJOBS" | "?f < ?n" "?n = MAX_RXJOBS" "?f = 0" |
    "?f < ?n" "?n = MAX_RXJOBS" "?f \<noteq> 0" using c by linarith
  then show ?thesis
  proof cases
    case 1
    let ?q = "rx_upd 0 (\<lambda>j. j\<lparr>r_off := 0, r_len := 0, r_fts := - 1\<rparr>) (q\<lparr>rx_first := 0, rx_next := 0\<rparr>)"
    have "rxq_nextJob q = Some (Some 0, ?q)" using 1 by (simp add: rxq_nextJob_def)
    moreover have "rxq_ok ?q" "rx_items ?q = rx_items q" using ok 1
      by (auto simp: rxq_ok_def rx_items_def)
    moreover have "r_off (rx_job ?q 0) = 0" "r_len (rx_job ?q 0) = 0"
      using c(3) by (simp_all add: rx_job_def rx_upd_def rx_consts)
    ultimately show ?thesis by (intro exI [of _ "Some 0"] exI [of _ ?q]) (simp add: rx_consts)
  next
    case 2
    have run: "rxq_nextJob q = check_rxdata ?f ?n ((r_off (rxjobs q ! (?n - 1)) + r_len (rxjobs q ! (?n - 1))) mod 2 ^ 16) q"
      using 2 by (simp add: rxq_nextJob_def Let_def)
    show ?thesis using alloc [OF ok refl 2] unfolding run by (elim exE, rename_tac r q', case_tac r) fastforce+
  next
    case 3
    then have "length (rx_items q) = MAX_RXJOBS" by (simp add: rx_items_def)
    moreover have "rxq_nextJob q = Some (None, q)" using 3 by (simp add: rxq_nextJob_def)
    ultimately show ?thesis using ok by (intro exI [of _ None] exI [of _ q]) simp
  next
    case 4
    note k = rx_compact_ok [OF ok]
    have "rxq_nextJob q = check_rxdata (rx_first (rx_compact q)) (rx_next (rx_compact q))
        ((r_off (rxjobs (rx_compact q) ! (rx_next (rx_compact q) - 1)) +
          r_len (rxjobs (rx_compact q) ! (rx_next (rx_compact q) - 1))) mod 2 ^ 16) (rx_compact q)"
      using 4 by (simp add: rxq_nextJob_def rx_compact_def Let_def)
    then have run: "rxq_nextJob q = check_rxdata (rx_first (rx_compact q)) (rx_next (rx_compact q))
        ((r_off (rxjobs (rx_compact q) ! (rx_next (rx_compact q) - 1)) +
          r_len (rxjobs (rx_compact q) ! (rx_next (rx_compact q) - 1))) mod 2 ^ 16) (rx_compact q)" .
    have "rx_first (rx_compact q) < rx_next (rx_compact q)" "rx_next (rx_compact q) < MAX_RXJOBS"
      using 4 k(3,4) by (simp_all add: rx_consts)
    from alloc [OF k(1,2) this] show ?thesis unfolding run by (elim exE, rename_tac r q', case_tac r) fastforce+
  qed
qed

text \<open>Dropping a job in front of the last one.\<close>

lemma rxq_dropJob_ok:
  assumes ok: "rxq_ok q" and p: "rx_first q \<le> p" "Suc p < rx_next q" and n: "rx_next q < MAX_RXJOBS"
  shows "\<exists>q'. rxq_dropJob p q = Some (rx_next q - 2, q') \<and> rxq_ok q' \<and>
    rx_items q' = map (rx_item q) ([rx_first q ..< p] @ [Suc p ..< rx_next q]) \<and>
    rx_first q' = rx_first q \<and> rx_next q' = rx_next q - 1"
proof -
  let ?f = "rx_first q" let ?l = "rx_next q - 1" let ?js = "rxjobs q"
  let ?po = "r_off (?js ! p)" let ?k = "r_len (?js ! p)" let ?e = "rx_end q ?l"
  have c: "length ?js = MAX_RXJOBS" "length (rxdata q) = MAX_RXDATA"
    "\<And>i. ?f \<le> i \<Longrightarrow> Suc i < rx_next q \<Longrightarrow> r_off (rx_job q (Suc i)) = rx_end q i"
    "\<And>i. ?f \<le> i \<Longrightarrow> i < rx_next q \<Longrightarrow> rx_end q i \<le> MAX_RXDATA"
    using ok by (simp_all add: rxq_ok_def)
  have pe: "?po + ?k = rx_end q p" by (simp add: rx_end_def rx_job_def)
  have le: "rx_end q p \<le> r_off (rx_job q ?l)" "?e \<le> MAX_RXDATA"
    using rx_offs_mono(2) [OF ok p(1), of ?l] c(4) [of ?l] p by auto
  have ee: "r_off (?js ! ?l) + r_len (?js ! ?l) = ?e" by (simp add: rx_end_def rx_job_def)
  have "r_off (rx_job q ?l) \<le> ?e" by (simp add: rx_end_def)
  then have pm: "(?po + ?k) mod 2 ^ 16 = ?po + ?k" using le pe by (simp add: rx_consts)
  let ?js' = "shift_offs p (?l + 1) ?k (memmove p (p + 1) (?l - p + 1) ?js)"
  let ?q' = "q\<lparr>rx_next := ?l, rxdata := memmove ?po (?po + ?k) (?e - (?po + ?k)) (rxdata q), rxjobs := ?js'\<rparr>"
  have le2: "rx_end q p \<le> ?e" using le(1) \<open>r_off (rx_job q ?l) \<le> ?e\<close> by simp
  have pl: "p < ?l" using p(2) by simp
  have kk: "?po + ?k \<le> ?e" using pe le2 by simp
  have run: "rxq_dropJob p q = Some (?l - 1, ?q')"
    using p n le(2) le2 ee pm pl kk unfolding rxq_dropJob_def Let_def by simp
  have fit: "p + (?l - p + 1) \<le> length ?js" "(p + 1) + (?l - p + 1) \<le> length ?js"
    using n p c(1) by simp_all
  have at: "rx_job ?q' i = (if i < p then rx_job q i
      else (rx_job q (Suc i))\<lparr>r_off := to_u 16 (int (r_off (rx_job q (Suc i))) - int ?k)\<rparr>)" if "i < ?l" for i
    using that p n c(1) fit by (simp add: rx_job_def nth_shift_offs nth_memmove)
  have sh: "to_u 16 (int (r_off (rx_job q i)) - int ?k) = r_off (rx_job q i) - ?k" "?po + ?k \<le> r_off (rx_job q i)"
    "rx_end q i \<le> ?e" if "p < i" "i < rx_next q" for i
  proof -
    show a: "?po + ?k \<le> r_off (rx_job q i)" using rx_offs_mono(2) [OF ok p(1), of i] that pe by simp
    show b: "rx_end q i \<le> ?e" using rx_offs_mono(3) [OF ok, of i ?l] that p by simp
    have "r_off (rx_job q i) \<le> rx_end q i" by (simp add: rx_end_def)
    then have "r_off (rx_job q i) < 2 ^ 16" using b le(2) by (simp add: rx_consts)
    then show "to_u 16 (int (r_off (rx_job q i)) - int ?k) = r_off (rx_job q i) - ?k"
      using a by (subst to_u_id) auto
  qed
  have en: "rx_end ?q' i = (if i < p then rx_end q i else rx_end q (Suc i) - ?k)" if "i < ?l" for i
  proof (cases "i < p")
    case True
    then show ?thesis using at [OF that] by (simp add: rx_end_def)
  next
    case False
    have si: "Suc i < rx_next q" "p < Suc i" using that False by auto
    have k: "?k \<le> r_off (rx_job q (Suc i))" using sh(2) [OF si(2,1)] by simp
    have "r_off (rx_job ?q' i) = r_off (rx_job q (Suc i)) - ?k" "r_len (rx_job ?q' i) = r_len (rx_job q (Suc i))"
      using at [OF that] False sh(1) [OF si(2,1)] by simp_all
    then show ?thesis using False k unfolding rx_end_def by simp
  qed
  have dl: "length (rxdata ?q') = MAX_RXDATA" using c(2) le(2) le2 pe by simp
  have dt: "rxdata ?q' ! t = (if ?po \<le> t \<and> t < ?e - ?k then rxdata q ! (t + ?k) else rxdata q ! t)"
    if "t < MAX_RXDATA" for t
  proof -
    have b: "?po + (?e - (?po + ?k)) \<le> length (rxdata q)" "?po + ?k + (?e - (?po + ?k)) \<le> length (rxdata q)"
      using c(2) le(2) kk by simp_all
    have "?po + ?k + (t - ?po) = t + ?k" if "?po \<le> t" using that by simp
    moreover have "t < ?po + (?e - (?po + ?k)) \<longleftrightarrow> t < ?e - ?k" using kk by auto
    ultimately show ?thesis using nth_memmove [OF b, of t] that c(2) by (simp add: add.commute)
  qed
  have lj: "length ?js' = MAX_RXJOBS" using fit c(1) p by simp
  define s where "s = ?q'"
  have fs: "rx_first s = ?f" "rx_next s = ?l" "length (rxjobs s) = MAX_RXJOBS" using lj by (simp_all add: s_def)
  note run = run [folded s_def] and at = at [folded s_def] and en = en [folded s_def]
    and dl = dl [folded s_def] and dt = dt [folded s_def]
  have lo: "rx_item s i = rx_item q i" if "?f \<le> i" "i < p" for i
  proof (rule rx_itemI)
    have il: "i < ?l" using that pl by simp
    have ep: "rx_end q i \<le> ?po" using rx_offs_mono(2) [OF ok that(1), of p] that p by (simp add: rx_job_def)
    have j: "rx_job s i = rx_job q i" using at [OF il] that(2) by simp
    then show "(rx_job s i)\<lparr>r_off := 0\<rparr> = (rx_job q i)\<lparr>r_off := 0\<rparr>" by simp
    have "rx_end q i \<le> MAX_RXDATA" using c(4) [of i] that p by simp
    then show "rx_end q i \<le> length (rxdata q)" "rx_end s i \<le> length (rxdata s)"
      using c(2) dl en [OF il] that(2) by simp_all
    fix t assume "t < r_len (rx_job q i)"
    then have "r_off (rx_job q i) + t < rx_end q i" by (simp add: rx_end_def)
    then show "rxdata s ! (r_off (rx_job s i) + t) = rxdata q ! (r_off (rx_job q i) + t)"
      using dt [of "r_off (rx_job q i) + t"] ep \<open>rx_end q i \<le> MAX_RXDATA\<close> unfolding j by simp
  qed
  have hi: "rx_item s i = rx_item q (Suc i)" if "p \<le> i" "i < ?l" for i
  proof (rule rx_itemI)
    have s: "Suc i < rx_next q" "p < Suc i" using that by auto
    note S = sh [OF s(2,1)]
    show "(rx_job s i)\<lparr>r_off := 0\<rparr> = (rx_job q (Suc i))\<lparr>r_off := 0\<rparr>" using at [of i] that by simp
    show "rx_end q (Suc i) \<le> length (rxdata q)" using c(4) [of "Suc i"] c(2) s p(1) by simp
    show "rx_end s i \<le> length (rxdata s)" using en [of i] that S le(2) dl by simp
    fix t assume t: "t < r_len (rx_job q (Suc i))"
    have o: "r_off (rx_job s i) = r_off (rx_job q (Suc i)) - ?k" using at [of i] that S by simp
    have "r_off (rx_job q (Suc i)) + t < ?e" using S(3) t by (simp add: rx_end_def)
    then have x: "?po \<le> r_off (rx_job q (Suc i)) - ?k + t" "r_off (rx_job q (Suc i)) - ?k + t < ?e - ?k"
      "r_off (rx_job q (Suc i)) - ?k + t + ?k = r_off (rx_job q (Suc i)) + t"
      "r_off (rx_job q (Suc i)) - ?k + t < MAX_RXDATA" using S(2) le(2) by arith+
    show "rxdata s ! (r_off (rx_job s i) + t) = rxdata q ! (r_off (rx_job q (Suc i)) + t)"
      unfolding o dt [OF x(4)] using x(1-3) by simp
  qed
  have split: "[?f..<?l] = [?f..<p] @ [p..<?l]" using p upt_add_eq_append [of ?f p "?l - p"] by simp
  have "map (rx_item s) [p..<?l] = map (rx_item q) [Suc p..<rx_next q]"
    using hi p by (intro nth_equalityI) auto
  then have items: "rx_items s = map (rx_item q) ([?f..<p] @ [Suc p..<rx_next q])"
    unfolding rx_items_def fs split map_append using lo by auto
  have "r_off (rx_job s (Suc i)) = rx_end s i" if "?f \<le> i" "Suc i < ?l" for i
  proof (cases "Suc i < p")
    case True
    then show ?thesis using at [of "Suc i"] en [of i] c(3) [of i] that by simp
  next
    case False
    show ?thesis
    proof (cases "Suc i = p")
      case True
      have "r_off (rx_job q (Suc p)) - ?k = ?po" using c(3) [OF p] pe by simp
      then show ?thesis using True at [of "Suc i"] en [of i] sh [of "Suc p"] c(3) [of i] that p
        by (simp add: rx_job_def)
    next
      case f: False
      then show ?thesis using False at [of "Suc i"] en [of i] sh [of "Suc (Suc i)"] c(3) [of "Suc i"] that p by simp
    qed
  qed
  moreover have "rx_end s i \<le> MAX_RXDATA" if "?f \<le> i" "i < ?l" for i
  proof -
    have "rx_end q i \<le> MAX_RXDATA" "rx_end q (Suc i) \<le> MAX_RXDATA" using c(4) [of i] c(4) [of "Suc i"] that by simp_all
    then show ?thesis using en [OF that(2)] by (simp add: le_trans [OF diff_le_self])
  qed
  moreover have "?f \<le> ?l" "?l \<le> MAX_RXJOBS" using p n by simp_all
  ultimately have "rxq_ok s" using dl fs by (simp add: rxq_ok_def)
  with items show ?thesis using run fs
    by (intro exI [of _ s]) (simp add: numeral_2_eq_2)
qed

text \<open>Filling the reserved job \<open>p\<close> with a frame: its fields, its length and its bytes.\<close>

definition rx_fill :: "nat \<Rightarrow> rxjob \<Rightarrow> bytes \<Rightarrow> rxq \<Rightarrow> rxq" where
  "rx_fill p j d q = (let off = r_off (rxjobs q ! p) in
     rx_upd p (\<lambda>_. j\<lparr>r_off := off, r_len := length d\<rparr>) (q\<lparr>rxdata := blit off d (rxdata q)\<rparr>))"

lemma rx_fill_commit:
  assumes ok: "rxq_ok q" and p: "p = rx_next q" "p < MAX_RXJOBS"
    and off: "r_off (rx_job q p) = (if rx_first q < p then rx_end q (p - 1) else 0)"
    and len: "length d \<le> MAX_RXFRAME_LEN" "r_off (rx_job q p) + MAX_RXFRAME_LEN \<le> MAX_RXDATA"
  shows "\<exists>q'. rxq_commitJob p (rx_fill p j d q) = Some q' \<and> rxq_ok q' \<and>
    rx_items q' = rx_items q @ [(j\<lparr>r_off := 0, r_len := length d\<rparr>, d)]"
proof -
  let ?o = "r_off (rx_job q p)"
  have c: "length (rxjobs q) = MAX_RXJOBS" "length (rxdata q) = MAX_RXDATA" "rx_first q \<le> rx_next q"
    using ok by (simp_all add: rxq_ok_def)
  define s where "s = (rx_fill p j d q)\<lparr>rx_next := Suc p\<rparr>"
  have "Suc p < 256" using p(2) by (simp add: rx_consts)
  then have run: "rxq_commitJob p (rx_fill p j d q) = Some s" using p(1)
    by (simp add: rxq_commitJob_def s_def rx_fill_def Let_def)
  have fs: "rx_first s = rx_first q" "rx_next s = Suc p" "length (rxjobs s) = MAX_RXJOBS"
    "rxdata s = blit ?o d (rxdata q)"
    using c(1) by (simp_all add: s_def rx_fill_def rx_job_def Let_def)
  have fit: "?o + length d \<le> MAX_RXDATA" using len by simp
  then have ld: "length (rxdata s) = MAX_RXDATA" using fs(4) c(2) by simp
  have at: "rx_job s i = (if i = p then j\<lparr>r_off := ?o, r_len := length d\<rparr> else rx_job q i)" for i
    using p(2) c(1) by (simp add: s_def rx_fill_def rx_job_def Let_def rx_upd_def)
  have en: "rx_end s i = (if i = p then ?o + length d else rx_end q i)" for i by (simp add: rx_end_def at)
  have below: "rx_end q i \<le> ?o" if "rx_first q \<le> i" "i < p" for i
    using rx_offs_mono(3) [OF ok that(1), of "p - 1"] that off p(1) by simp
  have old: "rx_item s i = rx_item q i" if "rx_first q \<le> i" "i < p" for i
  proof -
    have "blk (r_off (rx_job q i)) (r_len (rx_job q i)) (rxdata s) = blk (r_off (rx_job q i)) (r_len (rx_job q i)) (rxdata q)"
      unfolding fs(4) using below [OF that] fit c(2) by (intro blk_blit_below) (auto simp: rx_end_def)
    then show ?thesis using that at by (simp add: rx_item_def)
  qed
  have new: "rx_item s p = (j\<lparr>r_off := 0, r_len := length d\<rparr>, d)"
    using fit c(2) by (simp add: rx_item_def at fs(4) blk_blit_same)
  have "rx_items s = rx_items q @ [(j\<lparr>r_off := 0, r_len := length d\<rparr>, d)]"
    using old new c(3) p(1) by (simp add: rx_items_def fs)
  moreover have "r_off (rx_job s (Suc i)) = rx_end s i" if "rx_first q \<le> i" "i < p" for i
  proof (cases "Suc i = p")
    case True
    then show ?thesis using that off by (auto simp: at en)
  next
    case False
    then show ?thesis using that ok p(1) by (simp add: at en rxq_ok_def)
  qed
  moreover have "rx_end s i \<le> MAX_RXDATA" if "rx_first q \<le> i" "i < Suc p" for i
    using that fit ok p(1) by (cases "i = p") (simp_all add: en rxq_ok_def)
  ultimately have "rxq_ok s" "rx_items s = rx_items q @ [(j\<lparr>r_off := 0, r_len := length d\<rparr>, d)]"
    using c(3) p fs ld by (simp_all add: rxq_ok_def)
  then show ?thesis using run by blast
qed

section \<open>Properties\<close>

text \<open>C10: Receiving a frame: when the queue hands out a job, a frame of any length up to 255 bytes
  filled into it and committed becomes the last item, and every frame that waits keeps its fields,
  its bytes and its place, whatever was moved to the front to make room. The queue refuses only
  when it holds 64 jobs or the waiting frames leave less than 255 bytes.\<close>

theorem rxq_receive:
  assumes "rxq_ok q"
  shows "\<exists>r q1. rxq_nextJob q = Some (r, q1) \<and> rxq_ok q1 \<and> rx_items q1 = rx_items q \<and>
    (case r of None \<Rightarrow> length (rx_items q) = MAX_RXJOBS \<or> rx_bytes q + MAX_RXFRAME_LEN > MAX_RXDATA
     | Some p \<Rightarrow> \<forall>j d. length d \<le> MAX_RXFRAME_LEN \<longrightarrow> (\<exists>q2. rxq_commitJob p (rx_fill p j d q1) = Some q2 \<and>
         rxq_ok q2 \<and> rx_items q2 = rx_items q @ [(j\<lparr>r_off := 0, r_len := length d\<rparr>, d)]))"
proof -
  obtain r q1 where r: "rxq_nextJob q = Some (r, q1)" "rxq_ok q1" "rx_items q1 = rx_items q"
    "case r of None \<Rightarrow> length (rx_items q) = MAX_RXJOBS \<or> rx_bytes q + MAX_RXFRAME_LEN > MAX_RXDATA
     | Some p \<Rightarrow> p = rx_next q1 \<and> p < MAX_RXJOBS \<and> r_len (rx_job q1 p) = 0 \<and>
         r_off (rx_job q1 p) = (if rx_first q1 < p then rx_end q1 (p - 1) else 0) \<and>
         r_off (rx_job q1 p) + MAX_RXFRAME_LEN \<le> MAX_RXDATA"
    using rxq_nextJob_ok [OF assms] by blast
  show ?thesis
  proof (cases r)
    case None
    then show ?thesis using r by (intro exI [of _ r] exI [of _ q1]) simp
  next
    case (Some p)
    then have f: "p = rx_next q1" "p < MAX_RXJOBS"
      "r_off (rx_job q1 p) = (if rx_first q1 < p then rx_end q1 (p - 1) else 0)"
      "r_off (rx_job q1 p) + MAX_RXFRAME_LEN \<le> MAX_RXDATA" using r(4) [unfolded Some option.case] by blast+
    show ?thesis using r(1-3) Some rx_fill_commit [OF r(2) f(1-3) _ f(4)]
      by (intro exI [of _ r] exI [of _ q1]) simp
  qed
qed

definition rx_empty :: rxq where
  "rx_empty = rxq_ini \<lparr>rxjobs = replicate MAX_RXJOBS \<lparr>r_rctx = 0, r_xtime = 0, r_fts = 0, r_freq = 0, r_off = 0,
     r_rssi = 0, r_snr = 0, r_dr = 0, r_len = 0\<rparr>, rxdata = replicate MAX_RXDATA 0, rx_first = 0, rx_next = 0\<rparr>"

lemma rx_empty_ok: "rxq_ok rx_empty" "rx_items rx_empty = []"
  by (simp_all add: rxq_ok_def rx_empty_def rxq_ini_def rx_items_def)

text \<open>A queue of \<open>n\<close> frames without bytes, for the witnesses.\<close>

definition rx_many :: "nat \<Rightarrow> rxq" where "rx_many n = rx_empty\<lparr>rx_next := n\<rparr>"

lemma rx_many_ok: "n \<le> MAX_RXJOBS \<Longrightarrow> rxq_ok (rx_many n)"
  by (auto simp: rxq_ok_def rx_many_def rx_empty_def rxq_ini_def rx_end_def rx_job_def)

theorem rxq_receive_witness:
  "\<exists>r q1. rxq_nextJob (rx_many 3) = Some (r, q1) \<and> rx_items q1 = rx_items (rx_many 3) \<and> r \<noteq> None"
proof -
  have b: "rx_bytes (rx_many 3) = 0" "length (rx_items (rx_many 3)) = 3"
    by (simp_all add: rx_bytes_def rx_items_def rx_many_def rx_empty_def rxq_ini_def rx_item_def rx_job_def upt_conv_Cons rx_consts)
  have "rxq_ok (rx_many 3)" by (rule rx_many_ok) (simp add: rx_consts)
  from rxq_receive [OF this] show ?thesis unfolding b by (auto simp: rx_consts split: option.splits)
qed



text \<open>Dropping a job while the last slot of the array is in use reads one job beyond the array:
  the count of moved jobs is one too large.\<close>

theorem rxq_drop_overread:
  assumes "rxq_ok q" and "rx_next q = MAX_RXJOBS"
  shows "rxq_dropJob p q = None"
  using assms by (simp add: rxq_dropJob_def Let_def rx_consts)

theorem rxq_drop_overread_witness:
  "rxq_ok (rx_many 64) \<and> rx_next (rx_many 64) = 64 \<and> rxq_dropJob 0 (rx_many 64) = None"
proof -
  have "rxq_ok (rx_many 64)" "rx_next (rx_many 64) = MAX_RXJOBS"
    by (simp_all add: rx_many_ok rx_consts) (simp add: rx_many_def)
  from this rxq_drop_overread [OF this] show ?thesis by (simp add: rx_consts)
qed

end
