(* ===== verification/UjDec.thy ===== *)
theory UjDec
  imports RtText
begin

text \<open>
  The JSON decoder of src/src/uj.c: a pull parser over a buffer in which strings are unescaped in
  place. \<open>ujdec\<close> is its state; every operation gives an error or a value with the new state.
\<close>

section \<open>State and results\<close>

text \<open>
  \<open>uj_error\<close> logs its message and jumps to the handler the caller set up, here the result
  \<open>Inl (UjError msg)\<close>. \<open>UjFault\<close> is a failing assertion or an access outside an array,
  \<open>UjFuel\<close> a bound on the steps of a recursion that was too small.
\<close>

datatype ujerr = UjError string | UjFault | UjFuel

definition bnd :: "'e + 'a \<times> 's \<Rightarrow> ('a \<Rightarrow> 's \<Rightarrow> 'e + 'b \<times> 't) \<Rightarrow> 'e + 'b \<times> 't" where
  "bnd m f = (case m of Inl e \<Rightarrow> Inl e | Inr (x, s) \<Rightarrow> f x s)"

lemma bnd_simps [simp]: "bnd (Inl e) f = Inl e" "bnd (Inr (x, s)) f = f x s"
  by (simp_all add: bnd_def)

lemma bnd_cong [fundef_cong]:
  "m = m' \<Longrightarrow> (\<And>x s. m' = Inr (x, s) \<Longrightarrow> f x s = g x s) \<Longrightarrow> bnd m f = bnd m' g"
  by (auto simp: bnd_def split: sum.splits)

lemma bnd_Inr [simp]: "bnd m f = Inr r \<longleftrightarrow> (\<exists>x s. m = Inr (x, s) \<and> f x s = Inr r)"
  by (auto simp: bnd_def split: sum.splits)

definition UJ_MAX_NEST :: int where "UJ_MAX_NEST = 8"
definition UJ_N_ARY :: nat where "UJ_N_ARY = 0"
definition UJ_N_OBJ :: nat where "UJ_N_OBJ = 1"

datatype ujtype = UJ_UNDEF | UJ_NULL | UJ_BOOL | UJ_SNUM | UJ_UNUM | UJ_FNUM | UJ_STRING | UJ_ARRAY | UJ_OBJECT

text \<open>
  A \<open>double\<close> is the expression the code evaluates, operation by operation, so that no rounding is
  assumed.
\<close>

datatype dbl = DOfU nat | DOfS int | DDiv10 dbl | DMul10 dbl | DAdd dbl dbl | DSign int dbl

text \<open>
  \<open>ujdec_t\<close>. Pointers into the buffer are offsets from \<open>json_beg\<close>; \<open>json_end\<close> is the length of the
  buffer. The value union has its members side by side, of which \<open>ty\<close> tells the valid one:
  \<open>num\<close> is \<open>snum\<close> and \<open>unum\<close>, as 64 bits; \<open>str_len\<close> is \<open>None\<close> in skip mode, where the code
  subtracts from a null pointer. The context union has \<open>index\<close> and the field name side by side:
  the code reads only the one that belongs to the innermost nesting.
\<close>

record ujdec =
  jbuf :: bytes
  read_pos :: nat
  nest_type :: u2
  nest_level :: int
  nest_stack :: "int list"
  skip_mode :: bool
  ty :: ujtype
  num :: uL
  fnum :: dbl
  str_beg :: nat
  str_len :: "nat option"
  str_crc :: u4
  val_pos :: nat
  idx :: int
  fld_name :: "nat option"
  fld_crc :: u4

definition uj_iniDecoder :: "bytes \<Rightarrow> ujdec" where
  "uj_iniDecoder json = \<lparr>jbuf = json, read_pos = 0, nest_type = 0, nest_level = - 1,
     nest_stack = replicate 8 0, skip_mode = False, ty = UJ_UNDEF, num = 0, fnum = DOfU 0, str_beg = 0,
     str_len = Some 0, str_crc = 0, val_pos = 0, idx = 0, fld_name = None, fld_crc = 0\<rparr>"

section \<open>Keyword hash\<close>

definition UJ_UPDATE_CRC :: "u4 \<Rightarrow> nat \<Rightarrow> u4" where
  "UJ_UPDATE_CRC crc c =
     (((crc div 2 ^ 24 * 65537) mod 2 ^ 32) XOR ((crc * 257) mod 2 ^ 32)) XOR (c mod 128)"

definition UJ_FINISH_CRC :: "u4 \<Rightarrow> u4" where
  "UJ_FINISH_CRC crc = (if crc \<noteq> 0 then crc else 1)"

text \<open>The hash of a keyword, as the tool genkwcrcs computes the constants \<open>J_*\<close> of kwcrc.h.\<close>

definition kw :: "string \<Rightarrow> u4" where
  "kw s = UJ_FINISH_CRC (foldl UJ_UPDATE_CRC 0 (bytes_of s))"

section \<open>Scanning\<close>

text \<open>
  The scanners work on the buffer and a position. \<open>ch s p\<close> is \<open>nextChar\<close> at \<open>p\<close>, which gives 0 at
  the end, and the position moves on in any case; \<open>backChar\<close> is one less.
\<close>

function skip_comment :: "bytes \<Rightarrow> nat \<Rightarrow> nat \<Rightarrow> ujerr + nat" where
  "skip_comment s p d =
     (let c = ch s p in
      if c = 0 then Inl (UjError ''Unterminated /*.. comment'')
      else if d = 42 \<and> c = 47 then Inr (Suc p)
      else skip_comment s (Suc p) c)"
  by pat_completeness auto
termination
  by (relation "measure (\<lambda>(s, p, _). length s - p)") (auto simp: ch_def split: if_splits)

declare skip_comment.simps [simp del]

lemma skip_comment_step: "skip_comment s p d = Inr q \<Longrightarrow> p < q \<and> q \<le> length s"
proof (induction s p d rule: skip_comment.induct)
  case (1 s p d)
  then show ?case by (subst (asm) (2) skip_comment.simps)
      (fastforce simp: Let_def ch_def split: if_splits)
qed

function skip_wsp :: "bytes \<Rightarrow> nat \<Rightarrow> ujerr + nat \<times> nat" where
  "skip_wsp s p =
     (let c = ch s p in
      if c = 9 \<or> c = 13 \<or> c = 10 \<or> c = 32 then skip_wsp s (Suc p)
      else if c = 47 then
        (if ch s (Suc p) \<noteq> 42 then Inl (UjError ''Bad start of comment'')
         else (case skip_comment s (p + 2) 0 of Inl e \<Rightarrow> Inl e | Inr q \<Rightarrow> skip_wsp s q))
      else Inr (c, Suc p))"
  by pat_completeness auto
termination
proof (relation "measure (\<lambda>(s, p). length s - p)", goal_cases)
  case (3 s p c q)
  then show ?case using skip_comment_step [of s "p + 2" 0 q] by (auto simp: ch_def split: if_splits)
qed (auto simp: ch_def split: if_splits)

declare skip_wsp.simps [simp del]

definition skipWsp :: "ujdec \<Rightarrow> ujerr + nat \<times> ujdec" where
  "skipWsp d = (case skip_wsp (jbuf d) (read_pos d) of Inl e \<Rightarrow> Inl e
     | Inr (c, p) \<Rightarrow> Inr (c, d\<lparr>read_pos := p\<rparr>))"

definition backChar :: "ujdec \<Rightarrow> ujdec" where
  "backChar d = d\<lparr>read_pos := read_pos d - 1\<rparr>"

fun next_lit :: "bytes \<Rightarrow> nat \<Rightarrow> bytes \<Rightarrow> ujerr + nat" where
  "next_lit s p (c # cs) =
     (if ch s p \<noteq> c then Inl (UjError ''Expecting literal (null,true,false)'')
      else if cs = [] then Inr (Suc p) else next_lit s (Suc p) cs)"
| "next_lit s p [] = Inl UjFault"

definition nextLit :: "string \<Rightarrow> ujdec \<Rightarrow> ujerr + unit \<times> ujdec" where
  "nextLit lit d = (case next_lit (jbuf d) (read_pos d) (bytes_of lit) of Inl e \<Rightarrow> Inl e
     | Inr p \<Rightarrow> Inr ((), d\<lparr>read_pos := p\<rparr>))"

section \<open>Strings\<close>

text \<open>
  One character of a string at \<open>p\<close>: the bytes it stands for, all but the last of them written in
  the loop over \<open>cu\<close>, and the position behind it. The closing quote is \<open>None\<close>.
\<close>

definition utf8_tail :: "nat \<Rightarrow> bytes" where
  "utf8_tail c =
     (if c \<ge> 2 ^ 7 then
        (if c < 2 ^ 11 then [0xC0 OR (c div 2 ^ 6 mod 256)]
         else [0xE0 OR (c div 2 ^ 12), 0x80 OR (c div 2 ^ 6 mod 64)]) @ [0x80 OR (c mod 64)]
      else [c])"

definition esc_unicode :: "bytes \<Rightarrow> nat \<Rightarrow> ujerr + bytes \<times> nat" where
  "esc_unicode s p =
     (let h0 = rt_hexDigit (ch s p); h1 = rt_hexDigit (ch s (p + 1));
          h2 = rt_hexDigit (ch s (p + 2)); h3 = rt_hexDigit (ch s (p + 3)) in
      if h0 < 0 \<or> h1 < 0 \<or> h2 < 0 \<or> h3 < 0 then Inl (UjError (''Malformed '' @ CHR 0x5C # ''u escape sequence''))
      else Inr (utf8_tail (nat (h0 * 4096 + h1 * 256 + h2 * 16 + h3)), p + 4))"

definition str_char :: "bytes \<Rightarrow> nat \<Rightarrow> ujerr + bytes option \<times> nat" where
  "str_char s p =
     (let c = ch s p in
      if c = 0 then Inl (UjError ''Malformed string - no closing quote'')
      else if c = 34 then Inr (None, Suc p)
      else if c = 92 then
        (let e = ch s (Suc p) in
         if e = 34 \<or> e = 92 \<or> e = 47 then Inr (Some [e], p + 2)
         else if e = 98 then Inr (Some [8], p + 2)
         else if e = 102 then Inr (Some [12], p + 2)
         else if e = 110 then Inr (Some [10], p + 2)
         else if e = 114 then Inr (Some [13], p + 2)
         else if e = 116 then Inr (Some [9], p + 2)
         else if e = 117 then
           (case esc_unicode s (p + 2) of Inl x \<Rightarrow> Inl x | Inr (bs, q) \<Rightarrow> Inr (Some bs, q))
         else Inl (UjError ''Illegally escaped character''))
      else Inr (Some [c], Suc p))"

lemma ch_nonzero: "ch s p \<noteq> 0 \<Longrightarrow> p < length s"
  by (simp add: ch_def split: if_splits)

lemma hexDigit_0 [simp]: "rt_hexDigit 0 = - 1"
  by (simp add: rt_hexDigit_def)

lemma utf8_tail_length: "utf8_tail c \<noteq> [] \<and> length (utf8_tail c) \<le> 3"
  by (simp add: utf8_tail_def)

lemma esc_unicode_pos:
  assumes "esc_unicode s p = Inr (bs, q)"
  shows "q = p + 4 \<and> q \<le> length s \<and> bs \<noteq> [] \<and> length bs \<le> 3"
proof -
  have ok: "\<not> (rt_hexDigit (ch s p) < 0 \<or> rt_hexDigit (ch s (p + 1)) < 0 \<or> rt_hexDigit (ch s (p + 2)) < 0 \<or>
      rt_hexDigit (ch s (p + 3)) < 0)"
    using assms unfolding esc_unicode_def Let_def by (metis Inl_Inr_False)
  then have "q = p + 4" "\<exists>c. bs = utf8_tail c" using assms by (auto simp: esc_unicode_def Let_def)
  moreover have "ch s (p + 3) \<noteq> 0" using ok by (metis hexDigit_0 neg_less_0_iff_less zero_less_one)
  then have "p + 3 < length s" by (rule ch_nonzero)
  ultimately show ?thesis using utf8_tail_length by auto
qed

lemma esc_unicode_back:
  assumes "(case esc_unicode s (p + 2) of Inl x \<Rightarrow> Inl x | Inr (bs, q) \<Rightarrow> Inr (Some bs, q)) = Inr (r, q)"
  shows "p < q \<and> q \<le> length s \<and> (\<forall>bs. r = Some bs \<longrightarrow> bs \<noteq> [] \<and> length bs < q - p)"
  using assms esc_unicode_pos [of s "p + 2"] by (fastforce split: sum.splits)

lemma str_char_pos:
  assumes "str_char s p = Inr (r, q)"
  shows "p < q \<and> q \<le> length s \<and> (\<forall>bs. r = Some bs \<longrightarrow> bs \<noteq> [] \<and> length bs \<le> q - p)"
proof -
  let ?c = "ch s p" let ?e = "ch s (Suc p)"
  have c: "?c \<noteq> 0" using assms unfolding str_char_def Let_def by (metis Inl_Inr_False)
  then have p: "p < length s" by (rule ch_nonzero)
  show ?thesis
  proof (cases "?c = 92")
    case False
    then show ?thesis using assms c p by (auto simp: str_char_def Let_def split: if_splits)
  next
    case True
    show ?thesis
    proof (cases "?e = 117")
      case True
      then have "(case esc_unicode s (p + 2) of Inl x \<Rightarrow> Inl x | Inr (bs, q) \<Rightarrow> Inr (Some bs, q)) = Inr (r, q)"
        using \<open>?c = 92\<close> assms by (simp add: str_char_def Let_def)
      from esc_unicode_back [OF this] show ?thesis by fastforce
    next
      case False
      then have "q = p + 2 \<and> (\<exists>x. r = Some [x]) \<and> ?e \<noteq> 0"
        using True assms by (simp add: str_char_def Let_def split: if_splits) auto
      moreover from this have "Suc p < length s" using ch_nonzero by blast
      ultimately show ?thesis by auto
    qed
  qed
qed

fun put_bytes :: "nat \<Rightarrow> bytes \<Rightarrow> bytes \<Rightarrow> bytes" where
  "put_bytes w [] s = s"
| "put_bytes w (c # cs) s = put_bytes (Suc w) cs (s[w := c])"

lemma length_put_bytes [simp]: "length (put_bytes w bs s) = length s"
  by (induction w bs s rule: put_bytes.induct) auto

text \<open>The loop of \<open>parseString\<close>; \<open>wp\<close> is the write position, \<open>None\<close> in skip mode.\<close>

function str_loop :: "bytes \<Rightarrow> nat option \<Rightarrow> nat \<Rightarrow> u4 \<Rightarrow> ujerr + bytes \<times> nat option \<times> nat \<times> u4" where
  "str_loop s wp p crc =
     (case str_char s p of Inl e \<Rightarrow> Inl e
      | Inr (None, q) \<Rightarrow> Inr (case wp of None \<Rightarrow> s | Some w \<Rightarrow> s[w := 0], wp, q, crc)
      | Inr (Some bs, q) \<Rightarrow>
          str_loop (case wp of None \<Rightarrow> s | Some w \<Rightarrow> put_bytes w bs s)
            (map_option (\<lambda>w. w + length bs) wp) q (foldl UJ_UPDATE_CRC crc bs))"
  by pat_completeness auto
termination
  by (relation "measure (\<lambda>(s, _, p, _). length s - p)")
     (auto dest!: str_char_pos split: option.splits)

declare str_loop.simps [simp del]

definition parseString :: "ujdec \<Rightarrow> ujerr + unit \<times> ujdec" where
  "parseString d =
     (let beg = read_pos d in
      if \<not> (0 < beg \<and> ch (jbuf d) (beg - 1) = 34) then Inl UjFault
      else case str_loop (jbuf d) (if skip_mode d then None else Some beg) beg 0 of
        Inl e \<Rightarrow> Inl e
      | Inr (s, wp, q, crc) \<Rightarrow> Inr ((), d\<lparr>jbuf := s, read_pos := q, str_beg := beg,
          str_crc := UJ_FINISH_CRC crc, str_len := map_option (\<lambda>w. w - beg) wp\<rparr>))"

section \<open>Numbers\<close>

text \<open>Digits from \<open>p\<close> on: the value, their number, the character that ends them and the position behind it.\<close>

function dec_digits :: "bytes \<Rightarrow> nat \<Rightarrow> uL \<Rightarrow> nat \<Rightarrow> uL \<times> nat \<times> nat \<times> nat" where
  "dec_digits s p v n =
     (let c = ch s p in
      if 48 \<le> c \<and> c \<le> 57 then dec_digits s (Suc p) ((v * 10 + c - 48) mod 2 ^ 64) (n + 1)
      else (v, n, c, Suc p))"
  by pat_completeness auto
termination
  by (relation "measure (\<lambda>(s, p, _). length s - p)") (auto simp: ch_def split: if_splits)

declare dec_digits.simps [simp del]

definition decDigits :: "ujdec \<Rightarrow> ujerr + (uL \<times> nat \<times> nat) \<times> ujdec" where
  "decDigits d = (case dec_digits (jbuf d) (read_pos d) 0 0 of (v, n, c, p) \<Rightarrow>
     if n = 0 then Inl (UjError ''Expecting some decimal digits'') else Inr ((v, n, c), d\<lparr>read_pos := p\<rparr>))"

definition nextChar :: "ujdec \<Rightarrow> nat \<times> ujdec" where
  "nextChar d = (ch (jbuf d) (read_pos d), d\<lparr>read_pos := Suc (read_pos d)\<rparr>)"

text \<open>The double of a number with a fraction or an exponent; \<open>ex\<close> is the exponent as \<open>sL_t\<close>.\<close>

definition dec_double :: "int \<Rightarrow> uL \<Rightarrow> uL \<Rightarrow> nat \<Rightarrow> int \<Rightarrow> sL \<Rightarrow> dbl" where
  "dec_double signum v frac nFrac expSign ex =
     (let f = (DDiv10 ^^ nFrac) (DOfU frac);
          f = DAdd f (DOfU v);
          f = (if expSign \<noteq> 0 then ((if expSign > 0 then DMul10 else DDiv10) ^^ nat ex) f else f)
      in DSign signum f)"

text \<open>The sign and digits of an exponent.\<close>

definition parse_exp :: "ujdec \<Rightarrow> ujerr + (int \<times> sL) \<times> ujdec" where
  "parse_exp d =
     (let (c, d) = nextChar d;
          expSign = (if c = 45 then - 1 else 1);
          d = (if c = 45 \<or> c = 43 then d else backChar d)
      in bnd (decDigits d) (\<lambda>(ex, _, _) d. Inr ((expSign, to_s 64 (int ex)), d)))"

definition parseNumber :: "int \<Rightarrow> ujdec \<Rightarrow> ujerr + unit \<times> ujdec" where
  "parseNumber signum d =
     bnd (decDigits d) (\<lambda>(v, _, c) d.
     bnd (if c = 46 then decDigits d else Inr ((0, 0, c), d)) (\<lambda>(frac, nFrac, c) d.
     bnd (if c = 101 \<or> c = 69 then parse_exp d else Inr ((0, 0), d)) (\<lambda>(expSign, ex) d.
     let d = backChar d in
     if nFrac = 0 \<and> expSign = 0 then
       Inr ((), d\<lparr>ty := if signum < 0 then UJ_SNUM else UJ_UNUM, num := to_u 64 (signum * int v)\<rparr>)
     else Inr ((), d\<lparr>fnum := dec_double signum v frac nFrac expSign ex, ty := UJ_FNUM\<rparr>))))"

section \<open>Objects and arrays\<close>

definition do_enter :: "nat \<Rightarrow> nat \<Rightarrow> string \<Rightarrow> ujdec \<Rightarrow> ujerr + unit \<times> ujdec" where
  "do_enter what brace err d =
     bnd (skipWsp d) (\<lambda>c d.
     if c \<noteq> brace then Inl (UjError err)
     else if nest_level d = UJ_MAX_NEST then Inl (UjError ''JSON nested too deeply'')
     else
       let nl = nest_level d in
       bnd (if nl \<ge> 0 then
              (if nest_type d mod 2 = UJ_N_OBJ then
                 (case fld_name d of None \<Rightarrow> Inl UjFault
                  | Some p \<Rightarrow> Inr ((), d\<lparr>nest_stack := (nest_stack d)[nat nl := int p]\<rparr>))
               else if idx d < 0 then Inl UjFault
               else Inr ((), d\<lparr>nest_stack := (nest_stack d)[nat nl := idx d]\<rparr>))
            else Inr ((), d)) (\<lambda>_ d.
       let nt = (if nl \<ge> 0 then nest_type d * 2 mod 2 ^ 16 else nest_type d)
       in Inr ((), d\<lparr>nest_type := nt OR what, nest_level := nl + 1\<rparr>)))"

definition do_exit :: "nat \<Rightarrow> nat \<Rightarrow> string \<Rightarrow> ujdec \<Rightarrow> ujerr + unit \<times> ujdec" where
  "do_exit what brace err d =
     (if nest_level d < 0 \<or> nest_type d mod 2 \<noteq> what then Inl (UjError ''Internal parser error - do_exit'')
      else bnd (skipWsp d) (\<lambda>c d.
        if c \<noteq> brace then Inl (UjError err)
        else
          let d = d\<lparr>nest_level := nest_level d - 1, nest_type := nest_type d div 2, ty := UJ_UNDEF\<rparr> in
          Inr ((), if nest_level d < 0 then d\<lparr>fld_name := None, fld_crc := 0, idx := - 1\<rparr>
            else if nest_type d mod 2 = UJ_N_OBJ then
              d\<lparr>fld_name := Some (nat (nest_stack d ! nat (nest_level d))), fld_crc := 0\<rparr>
            else d\<lparr>idx := nest_stack d ! nat (nest_level d)\<rparr>)))"

definition uj_enterObject :: "ujdec \<Rightarrow> ujerr + unit \<times> ujdec" where
  "uj_enterObject d = bnd (do_enter UJ_N_OBJ 123 ''Expecting an object'' d)
     (\<lambda>_ d. Inr ((), d\<lparr>fld_name := None, fld_crc := 0\<rparr>))"

definition uj_enterArray :: "ujdec \<Rightarrow> ujerr + unit \<times> ujdec" where
  "uj_enterArray d = bnd (do_enter UJ_N_ARY 91 ''Expecting an array'' d) (\<lambda>_ d. Inr ((), d\<lparr>idx := - 1\<rparr>))"

definition uj_exitObject :: "ujdec \<Rightarrow> ujerr + unit \<times> ujdec" where
  "uj_exitObject = do_exit UJ_N_OBJ 125 ''Expecting a closing }''"

definition uj_exitArray :: "ujdec \<Rightarrow> ujerr + unit \<times> ujdec" where
  "uj_exitArray = do_exit UJ_N_ARY 93 ''Expecting a closing ]''"

definition uj_nextField :: "ujdec \<Rightarrow> ujerr + u4 \<times> ujdec" where
  "uj_nextField d0 =
     bnd (skipWsp (d0\<lparr>ty := UJ_UNDEF\<rparr>)) (\<lambda>c d.
     if c = 125 then Inr (0, backChar d)
     else
       bnd (if fld_name d \<noteq> None then
              (if c \<noteq> 44 then Inl (UjError ''Expecting a comma'') else skipWsp d)
            else Inr (c, d)) (\<lambda>c d.
       if c \<noteq> 34 then Inl (UjError ''Expecting a field'')
       else bnd (parseString d) (\<lambda>_ d.
         let d = d\<lparr>fld_name := Some (str_beg d), fld_crc := str_crc d\<rparr> in
         bnd (skipWsp d) (\<lambda>c d.
           if c \<noteq> 58 then Inl (UjError ''Expecting a colon'') else Inr (fld_crc d, d)))))"

definition uj_nextSlot :: "ujdec \<Rightarrow> ujerr + int \<times> ujdec" where
  "uj_nextSlot d0 =
     bnd (skipWsp (d0\<lparr>ty := UJ_UNDEF\<rparr>)) (\<lambda>c d.
     if c = 93 then Inr (- 1, backChar d)
     else if idx d \<ge> 0 \<and> c \<noteq> 44 then Inl (UjError ''Expecting a comma'')
     else
       let d = (if idx d \<ge> 0 then d else backChar d);
           d = d\<lparr>idx := idx d + 1\<rparr>
       in Inr (idx d, d))"

section \<open>Values\<close>

definition uj_nextValue :: "ujdec \<Rightarrow> ujerr + ujtype \<times> ujdec" where
  "uj_nextValue d0 =
     (if ty d0 \<noteq> UJ_UNDEF then Inr (ty d0, d0)
      else bnd (skipWsp d0) (\<lambda>c d.
        let d = d\<lparr>val_pos := read_pos d - 1\<rparr> in
        bnd (if c = 0 then Inl (UjError ''Unexpected EOF'')
             else if c = 34 then parseString (d\<lparr>ty := UJ_STRING\<rparr>)
             else if c = 45 then parseNumber (- 1) d
             else if 48 \<le> c \<and> c \<le> 57 then parseNumber 1 (backChar d)
             else if c = 116 then bnd (nextLit ''rue'' d) (\<lambda>_ d. Inr ((), d\<lparr>ty := UJ_BOOL, num := 1\<rparr>))
             else if c = 102 then bnd (nextLit ''alse'' d) (\<lambda>_ d. Inr ((), d\<lparr>ty := UJ_BOOL, num := 0\<rparr>))
             else if c = 110 then bnd (nextLit ''ull'' d) (\<lambda>_ d. Inr ((), d\<lparr>ty := UJ_NULL, num := 0\<rparr>))
             else if c = 123 then Inr ((), backChar (d\<lparr>ty := UJ_OBJECT\<rparr>))
             else if c = 91 then Inr ((), backChar (d\<lparr>ty := UJ_ARRAY\<rparr>))
             else Inl (UjError ''Syntax error''))
          (\<lambda>_ d. Inr (ty d, d))))"

text \<open>\<open>skipValue\<close> and its two loops, with a bound on the calls.\<close>

fun skipValue :: "nat \<Rightarrow> ujdec \<Rightarrow> ujerr + unit \<times> ujdec"
and skip_fields :: "nat \<Rightarrow> ujdec \<Rightarrow> ujerr + unit \<times> ujdec"
and skip_slots :: "nat \<Rightarrow> ujdec \<Rightarrow> ujerr + unit \<times> ujdec" where
  "skipValue 0 d = Inl UjFuel"
| "skipValue (Suc n) d =
     bnd (uj_nextValue d) (\<lambda>_ d.
     if ty d = UJ_OBJECT then
       bnd (uj_enterObject d) (\<lambda>_ d. bnd (skip_fields n d) (\<lambda>_ d. uj_exitObject d))
     else if ty d = UJ_ARRAY then
       bnd (uj_enterArray d) (\<lambda>_ d. bnd (skip_slots n d) (\<lambda>_ d. uj_exitArray d))
     else Inr ((), d))"
| "skip_fields 0 d = Inl UjFuel"
| "skip_fields (Suc n) d =
     bnd (uj_nextField d) (\<lambda>crc d.
     if crc \<noteq> 0 then bnd (skipValue n d) (\<lambda>_ d. skip_fields n d) else Inr ((), d))"
| "skip_slots 0 d = Inl UjFuel"
| "skip_slots (Suc n) d =
     bnd (uj_nextSlot d) (\<lambda>i d.
     if i \<ge> 0 then bnd (skipValue n d) (\<lambda>_ d. skip_slots n d) else Inr ((), d))"

text \<open>The skipped text as offset and size.\<close>

definition uj_skipValue :: "nat \<Rightarrow> ujdec \<Rightarrow> ujerr + (nat \<times> nat) \<times> ujdec" where
  "uj_skipValue fuel d =
     bnd (skipWsp d) (\<lambda>_ d.
     let d = backChar d; beg = read_pos d in
     bnd (skipValue fuel (d\<lparr>skip_mode := True\<rparr>)) (\<lambda>_ d.
     Inr ((beg, read_pos d - beg), d\<lparr>skip_mode := False\<rparr>)))"

section \<open>Reading a value of a type\<close>

text \<open>Error messages with arguments are kept as their format.\<close>

definition uj_null :: "ujdec \<Rightarrow> ujerr + bool \<times> ujdec" where
  "uj_null d = bnd (uj_nextValue d) (\<lambda>t d. Inr (t = UJ_NULL, d))"

definition uj_bool :: "ujdec \<Rightarrow> ujerr + nat \<times> ujdec" where
  "uj_bool d = bnd (uj_nextValue d) (\<lambda>t d.
     if t \<noteq> UJ_BOOL then Inl (UjError ''Expecting a bool value'') else Inr (num d, d))"

definition uj_int :: "ujdec \<Rightarrow> ujerr + sL \<times> ujdec" where
  "uj_int d = bnd (uj_nextValue d) (\<lambda>t d.
     if t \<noteq> UJ_SNUM \<and> t \<noteq> UJ_UNUM then Inl (UjError ''Expecting an integer value'')
     else Inr (to_s 64 (int (num d)), d))"

definition uj_uint :: "ujdec \<Rightarrow> ujerr + uL \<times> ujdec" where
  "uj_uint d = bnd (uj_nextValue d) (\<lambda>t d.
     if t \<noteq> UJ_UNUM then Inl (UjError ''Expecting a positive integer value'') else Inr (num d, d))"

definition uj_num :: "ujdec \<Rightarrow> ujerr + dbl \<times> ujdec" where
  "uj_num d = bnd (uj_nextValue d) (\<lambda>t d.
     if t = UJ_SNUM then Inr (DOfS (to_s 64 (int (num d))), d)
     else if t = UJ_UNUM then Inr (DOfU (num d), d)
     else if t \<noteq> UJ_FNUM then Inl (UjError ''Expecting a number'')
     else Inr (fnum d, d))"

definition uj_str :: "ujdec \<Rightarrow> ujerr + nat \<times> ujdec" where
  "uj_str d = bnd (uj_nextValue d) (\<lambda>t d.
     if t \<noteq> UJ_STRING then Inl (UjError ''Expecting a string value'') else Inr (str_beg d, d))"

definition uj_keyword :: "ujdec \<Rightarrow> ujerr + u4 \<times> ujdec" where
  "uj_keyword d = bnd (uj_nextValue d) (\<lambda>t d.
     if t \<noteq> UJ_STRING then Inl (UjError ''Expecting a string value'') else Inr (str_crc d, d))"

text \<open>The bytes of the string value.\<close>

definition str_bytes :: "ujdec \<Rightarrow> bytes option" where
  "str_bytes d = map_option (\<lambda>n. blk (str_beg d) n (jbuf d)) (str_len d)"

fun hex_pairs :: "bytes \<Rightarrow> bytes option" where
  "hex_pairs (a # b # s) =
     (if rt_hexDigit a < 0 \<or> rt_hexDigit b < 0 then None
      else map_option ((#) (nat (rt_hexDigit a * 16 + rt_hexDigit b))) (hex_pairs s))"
| "hex_pairs s = Some []"

definition uj_hexstr :: "nat \<Rightarrow> ujdec \<Rightarrow> ujerr + bytes \<times> ujdec" where
  "uj_hexstr bufsiz d = bnd (uj_nextValue d) (\<lambda>t d.
     if t \<noteq> UJ_STRING then Inl (UjError ''Expecting a string value with hex digits'')
     else case str_bytes d of None \<Rightarrow> Inl UjFault | Some s \<Rightarrow>
       if odd (length s) then Inl (UjError ''Hex string has odd number of characters'')
       else if length s div 2 > bufsiz then Inl (UjError ''Hex string too long: %d bytes, buffer is %d'')
       else case hex_pairs s of
         None \<Rightarrow> Inl (UjError ''Hex string contains illegal characters: %c%c'')
       | Some bs \<Rightarrow> Inr (bs, d))"

text \<open>The loop over the characters of an EUI; \<open>i\<close> is relative to the string at \<open>beg\<close>.\<close>

function eui_loop :: "bytes \<Rightarrow> nat \<Rightarrow> nat \<Rightarrow> nat \<Rightarrow> uL \<Rightarrow> ujerr + uL" where
  "eui_loop s beg len i eui =
     (if i < len then
        let a = rt_hexDigit (ch s (beg + i)); b = rt_hexDigit (ch s (beg + i + 1)) in
        if a < 0 \<or> b < 0 then Inl (UjError ''EUI contains illegal hex characters: %c%c'')
        else eui_loop s beg len (i + (if ch s (beg + i + 2) = 45 then 1 else 0) + 2)
               ((eui * 256 mod 2 ^ 64) OR nat (a * 16 + b))
      else Inr eui)"
  by pat_completeness auto
termination by (relation "measure (\<lambda>(_, _, len, i, _). len - i)") auto

declare eui_loop.simps [simp del]

definition uj_eui :: "ujdec \<Rightarrow> ujerr + uL \<times> ujdec" where
  "uj_eui d = bnd (uj_nextValue d) (\<lambda>t d.
     if t = UJ_SNUM \<or> t = UJ_UNUM then Inr (num d, d)
     else if t \<noteq> UJ_STRING then Inl (UjError ''Expecting a string value with an EUI'')
     else case str_len d of None \<Rightarrow> Inl UjFault | Some n \<Rightarrow>
       (case eui_loop (jbuf d) (str_beg d) n 0 0 of Inl e \<Rightarrow> Inl e | Inr eui \<Rightarrow> Inr (eui, d)))"

definition uj_intRange :: "sL \<Rightarrow> sL \<Rightarrow> ujdec \<Rightarrow> ujerr + sL \<times> ujdec" where
  "uj_intRange minval maxval d = bnd (uj_int d) (\<lambda>v d.
     if v < minval \<or> v > maxval then Inl (UjError ''Field value not in range [%ld..%ld]: %ld'')
     else Inr (v, d))"

definition uj_intRangeOr :: "sL \<Rightarrow> sL \<Rightarrow> sL \<Rightarrow> ujdec \<Rightarrow> ujerr + sL \<times> ujdec" where
  "uj_intRangeOr minval maxval orval d = bnd (uj_int d) (\<lambda>v d.
     if v \<noteq> orval \<and> (v < minval \<or> v > maxval)
     then Inl (UjError ''Field value not %ld or in range [%ld..%ld]: %ld'') else Inr (v, d))"

definition uj_assertEOF :: "ujdec \<Rightarrow> ujerr + unit \<times> ujdec" where
  "uj_assertEOF d = bnd (skipWsp d) (\<lambda>c d.
     if c \<noteq> 0 then Inl (UjError ''Expecting EOF but found garbage: %.20s'') else Inr ((), d))"

text \<open>\<open>strncmp(s + p, t, length t) = 0\<close>: \<open>t\<close> has no zero byte.\<close>

definition at_text :: "bytes \<Rightarrow> nat \<Rightarrow> bytes \<Rightarrow> bool" where
  "at_text s p t = list_all (\<lambda>(i, c). ch s (p + i) = c) (enumerate 0 t)"

definition uj_indexedField :: "bytes \<Rightarrow> ujdec \<Rightarrow> int" where
  "uj_indexedField prefix d =
     (case fld_name d of None \<Rightarrow> - 1
      | Some f \<Rightarrow>
        if fld_crc d = 0 \<or> \<not> at_text (jbuf d) f prefix then - 1
        else
          let p = f + length prefix; (v, q) = rt_readDec (jbuf d) p in
          if q = p \<or> ch (jbuf d) q \<noteq> 0 then - 1 else to_s 32 v)"

section \<open>Peeking at the message type\<close>

lemma skip_wsp_blank: "ch s p = 9 \<or> ch s p = 13 \<or> ch s p = 10 \<or> ch s p = 32 \<Longrightarrow> skip_wsp s p = skip_wsp s (Suc p)"
  by (subst skip_wsp.simps) (simp add: Let_def)

lemma skip_wsp_here [simp]: "ch s p \<notin> {9, 13, 10, 32, 47} \<Longrightarrow> skip_wsp s p = Inr (ch s p, Suc p)"
  by (subst skip_wsp.simps) (simp add: Let_def)

lemma skip_wsp_comment: "ch s p = 47 \<Longrightarrow> skip_wsp s p =
    (if ch s (Suc p) \<noteq> 42 then Inl (UjError ''Bad start of comment'')
     else (case skip_comment s (p + 2) 0 of Inl e \<Rightarrow> Inl e | Inr q \<Rightarrow> skip_wsp s q))"
  by (subst skip_wsp.simps) (simp add: Let_def)

lemma skip_wsp_step: "skip_wsp s p = Inr (c, q) \<Longrightarrow> p < q \<and> c = ch s (q - 1)"
proof (induction s p rule: skip_wsp.induct)
  case (1 s p)
  let ?c = "ch s p"
  consider "?c = 9 \<or> ?c = 13 \<or> ?c = 10 \<or> ?c = 32" | "?c = 47" | "?c \<notin> {9, 13, 10, 32, 47}" by auto
  then show ?case
  proof cases
    case 1
    then have "p < q - 0 \<and> c = ch s (q - 1)"
      using "1.IH"(1) [OF refl 1] "1.prems" skip_wsp_blank [OF 1] by auto
    then show ?thesis by simp
  next
    case 2
    then obtain m where m: "ch s (Suc p) = 42" "skip_comment s (p + 2) 0 = Inr m" "skip_wsp s m = Inr (c, q)"
      using "1.prems" skip_wsp_comment [OF 2] by (auto split: if_splits sum.splits)
    have "m < q \<and> c = ch s (q - 1)" using "1.IH"(2) [OF refl _ 2 _ m(2,3)] 2 m(1) by simp
    then show ?thesis using skip_comment_step [OF m(2)] by auto
  next
    case 3
    then show ?thesis using "1.prems" by auto
  qed
qed

text \<open>
  \<open>uj_msgtype\<close> looks at every seventh character: a letter of the keyword leads back to the quote in
  front of it by a table packed into a constant.
\<close>

definition msgtype_letter :: "nat \<Rightarrow> bool" where
  "msgtype_letter c \<longleftrightarrow> c AND 0xE0 = 0x60 \<and> odd ((0x21920A0 :: nat) div 2 ^ (c mod 32))"

definition msgtype_back :: "nat \<Rightarrow> nat" where
  "msgtype_back c = 0x10005030742006 div 16 ^ (c mod 16) mod 16"

text \<open>The message type up to its closing quote: its end and hash.\<close>

function type_text :: "bytes \<Rightarrow> nat \<Rightarrow> u4 \<Rightarrow> (nat \<times> u4) option \<times> nat" where
  "type_text s p crc =
     (let c = ch s p in
      if c = 34 then (Some (p, crc), Suc p)
      else if c = 0 \<or> c = 92 then (None, Suc p)
      else type_text s (Suc p) (UJ_UPDATE_CRC crc c))"
  by pat_completeness auto
termination by (relation "measure (\<lambda>(s, p, _). length s - p)") (auto simp: ch_def split: if_splits)

declare type_text.simps [simp del]

lemma type_text_step: "p < snd (type_text s p crc)"
proof (induction s p crc rule: type_text.induct)
  case (1 s p crc)
  then show ?case by (subst type_text.simps) (auto simp: Let_def)
qed

text \<open>
  The text after the keyword at \<open>p\<close>: the type and its hash, or where the string began, if one did, and
  the position to go on from.
\<close>

definition after_msgtype :: "bytes \<Rightarrow> nat \<Rightarrow> ujerr + ((nat \<times> nat \<times> u4) + nat option) \<times> nat" where
  "after_msgtype s p =
     (case skip_wsp s p of Inl e \<Rightarrow> Inl e
      | Inr (c, q) \<Rightarrow>
        if c \<noteq> 58 then Inr (Inr None, q)
        else (case skip_wsp s q of Inl e \<Rightarrow> Inl e
          | Inr (c, r) \<Rightarrow>
            if c \<noteq> 34 then Inr (Inr None, r)
            else (case type_text s r 0 of
                (None, t) \<Rightarrow> Inr (Inr (Some r), t)
              | (Some (e, crc), t) \<Rightarrow> Inr (Inl (r, e - r, UJ_FINISH_CRC crc), t))))"

lemma after_msgtype_step: "after_msgtype s p = Inr (r, q) \<Longrightarrow> p < q"
  by (auto simp: after_msgtype_def split: sum.splits if_splits prod.splits option.splits dest!: skip_wsp_step)
     (metis less_trans snd_conv type_text_step)+

lemma msgtype_letter_cases:
  assumes "msgtype_letter c"
  shows "c mod 32 \<in> {5, 7, 13, 16, 19, 20, 25}"
proof -
  have "c mod 32 < 32" by simp
  then have "c mod 32 \<in> set [0..<32]" by simp
  moreover have "\<forall>k \<in> set [0..<32]. odd ((0x21920A0 :: nat) div 2 ^ k) \<longrightarrow> k \<in> {5, 7, 13, 16, 19, 20, 25}"
    by (simp add: upt_conv_Cons del: set_upt upt_Suc)
  ultimately show ?thesis using assms by (simp add: msgtype_letter_def)
qed

lemma msgtype_back_le: "msgtype_letter c \<Longrightarrow> msgtype_back c \<le> 7"
proof -
  assume "msgtype_letter c"
  then have "c mod 32 \<in> {5, 7, 13, 16, 19, 20, 25}" by (rule msgtype_letter_cases)
  moreover have "c mod 16 = c mod 32 mod 16" by (simp add: mod_mod_cancel)
  ultimately show ?thesis by (auto simp: msgtype_back_def)
qed

function msgtype_scan :: "ujdec \<Rightarrow> nat \<Rightarrow> ujerr + u4 \<times> ujdec" where
  "msgtype_scan d s =
     (if s < length (jbuf d) then
        let c = ch (jbuf d) s; beg = s - msgtype_back c in
        if \<not> msgtype_letter c then msgtype_scan d (s + 7)
        else if s < msgtype_back c \<or> beg + 10 > length (jbuf d) then msgtype_scan d (s + 7)
        else if \<not> at_text (jbuf d) beg (bytes_of ''\"msgtype\"'') then msgtype_scan d (s + 7)
        else (case after_msgtype (jbuf d) (beg + 9) of
            Inl e \<Rightarrow> Inl e
          | Inr (Inl (b, len, crc), _) \<Rightarrow>
              Inr (crc, d\<lparr>str_beg := b, str_len := Some len, str_crc := crc, read_pos := 0\<rparr>)
          | Inr (Inr b, q) \<Rightarrow>
              msgtype_scan (d\<lparr>str_beg := (case b of None \<Rightarrow> str_beg d | Some b \<Rightarrow> b), read_pos := 0\<rparr>) q)
      else Inr (0, d))"
  by pat_completeness auto
termination
proof (relation "measure (\<lambda>(d, s). length (jbuf d) - s)", goal_cases)
  case (5 d s c beg r m q)
  then have "beg + 9 < q" "msgtype_back c \<le> 7" using after_msgtype_step msgtype_back_le by auto
  with 5 show ?case by auto
qed auto

declare msgtype_scan.simps [simp del]

definition uj_msgtype :: "ujdec \<Rightarrow> ujerr + u4 \<times> ujdec" where
  "uj_msgtype d = msgtype_scan d 0"

end
