(* ===== verification/UjText.thy ===== *)
theory UjText
  imports UjDec
begin

text \<open>
  What the JSON decoder of UjDec computes on well-formed text: strings are unescaped in place and
  hashed, the message type is found, and a value of any shape is skipped exactly, with a bound on
  the calls that is always enough.
\<close>

section \<open>Strings\<close>

text \<open>The bytes a string body stands for, read off the JSON grammar; \<open>None\<close> for a malformed one.\<close>

definition simple_escape :: "nat \<Rightarrow> nat option" where
  "simple_escape e =
     map_of [(34, 34), (92, 92), (47, 47), (98, 8), (102, 12), (110, 10), (114, 13), (116, 9)] e"

definition hex4 :: "nat \<Rightarrow> nat \<Rightarrow> nat \<Rightarrow> nat \<Rightarrow> nat option" where
  "hex4 a b c d = (if list_all (\<lambda>x. 0 \<le> rt_hexDigit x) [a, b, c, d]
     then Some (nat (rt_hexDigit a * 4096 + rt_hexDigit b * 256 + rt_hexDigit c * 16 + rt_hexDigit d))
     else None)"

fun unescape :: "bytes \<Rightarrow> bytes option" where
  "unescape [] = Some []"
| "unescape (c # cs) =
     (if c = 0 \<or> c = 34 then None
      else if c \<noteq> 92 then map_option ((#) c) (unescape cs)
      else (case cs of [] \<Rightarrow> None
        | e # ds \<Rightarrow>
          (case simple_escape e of
             Some x \<Rightarrow> map_option ((#) x) (unescape ds)
           | None \<Rightarrow>
             (case ds of a # b # x # y # es \<Rightarrow>
                if e = 117 then
                  (case hex4 a b x y of None \<Rightarrow> None | Some u \<Rightarrow> map_option ((@) (utf8_tail u)) (unescape es))
                else None
              | _ \<Rightarrow> None))))"

text \<open>One step of the decoder against one step of the grammar.\<close>

lemma ch_append [simp]: "ch (pre @ c # s) (length pre) = c"
  by (simp add: ch_def)

lemma ch_drop: "drop p s = t \<Longrightarrow> ch s (p + i) = ch t i"
proof -
  assume a: "drop p s = t"
  show "ch s (p + i) = ch t i"
  proof (cases "p + i < length s")
    case True
    then show ?thesis using a by (auto simp: ch_def)
  next
    case False
    then have "length t \<le> i" using a by auto
    then show ?thesis using False by (simp add: ch_def)
  qed
qed

lemma str_char_close: "drop p s = 34 # rest \<Longrightarrow> str_char s p = Inr (None, Suc p)"
  using ch_drop [of p s _ 0] by (simp add: str_char_def ch_def [of "34 # rest"])

lemma str_char_plain: "drop p s = c # rest \<Longrightarrow> c \<notin> {0, 34, 92} \<Longrightarrow> str_char s p = Inr (Some [c], Suc p)"
  using ch_drop [of p s _ 0] by (simp add: str_char_def ch_def [of "c # rest"])

lemma str_char_simple:
  assumes "drop p s = 92 # e # rest" and "simple_escape e = Some x"
  shows "str_char s p = Inr (Some [x], p + 2)"
proof -
  have "ch s p = 92" "ch s (Suc p) = e"
    using ch_drop [OF assms(1), of 0] ch_drop [OF assms(1), of 1] by (simp_all add: ch_def)
  then show ?thesis using assms(2) by (auto simp: str_char_def Let_def simple_escape_def split: if_splits)
qed

lemma str_char_unicode:
  assumes "drop p s = 92 # 117 # a # b # x # y # rest" and "hex4 a b x y = Some u"
  shows "str_char s p = Inr (Some (utf8_tail u), p + 6)"
proof -
  note c = ch_drop [OF assms(1)]
  have "ch s p = 92" "ch s (Suc p) = 117" "ch s (p + 2) = a" "ch s (p + 3) = b" "ch s (p + 4) = x" "ch s (p + 5) = y"
    using c [of 0] c [of 1] c [of 2] c [of 3] c [of 4] c [of 5] by (simp_all add: ch_def)
  moreover have e: "p + 2 + 1 = p + 3" "p + 2 + 2 = p + 4" "p + 2 + 3 = p + 5" "p + 2 + 4 = p + 6" by simp_all
  moreover have "0 \<le> rt_hexDigit a" "0 \<le> rt_hexDigit b" "0 \<le> rt_hexDigit x" "0 \<le> rt_hexDigit y"
    "u = nat (rt_hexDigit a * 4096 + rt_hexDigit b * 256 + rt_hexDigit x * 16 + rt_hexDigit y)"
    using assms(2) by (auto simp: hex4_def split: if_splits)
  ultimately have "ch s p = 92" "ch s (Suc p) = 117" "esc_unicode s (p + 2) = Inr (utf8_tail u, p + 6)"
    unfolding esc_unicode_def Let_def e by simp_all
  then show ?thesis using \<open>ch s p = 92\<close> \<open>ch s (Suc p) = 117\<close> by (simp add: str_char_def)
qed

text \<open>A body is a chunk followed by a body.\<close>

lemma unescape_chunk:
  assumes "unescape (c # cs) = Some bs"
  obtains chunk rest us bs' where "c # cs = chunk @ rest" "unescape rest = Some bs'" "bs = us @ bs'"
    "chunk \<noteq> []" "us \<noteq> []" "length us \<le> length chunk"
    "\<And>s p t. drop p s = chunk @ t \<Longrightarrow> str_char s p = Inr (Some us, p + length chunk)"
proof (cases "c = 92")
  case False
  then obtain bs' where "unescape cs = Some bs'" "bs = c # bs'" "c \<noteq> 0" "c \<noteq> 34"
    using assms by (auto split: if_splits)
  then show ?thesis using False str_char_plain by (intro that [of "[c]" cs bs' "[c]"]) auto
next
  case True
  then obtain e ds where cs: "cs = e # ds" using assms by (cases cs) auto
  show ?thesis
  proof (cases "simple_escape e")
    case (Some x)
    then obtain bs' where "unescape ds = Some bs'" "bs = x # bs'" using assms True cs by auto
    then show ?thesis using True cs Some str_char_simple by (intro that [of "[92, e]" ds bs' "[x]"]) auto
  next
    case None
    then obtain a b x y es where ds: "ds = a # b # x # y # es"
      using assms True cs by (auto split: list.splits)
    then obtain u bs' where u: "e = 117" "hex4 a b x y = Some u" "unescape es = Some bs'" "bs = utf8_tail u @ bs'"
      using assms True cs None by (auto split: option.splits if_splits)
    have "str_char s p = Inr (Some (utf8_tail u), p + length [92, e, a, b, x, y])"
      if "drop p s = [92, e, a, b, x, y] @ t" for s p t
      using str_char_unicode [of p s a b x y t u] that u by simp
    then show ?thesis using True cs ds u utf8_tail_length [of u]
      by (intro that [of "[92, e, a, b, x, y]" es bs' "utf8_tail u"]) auto
  qed
qed

lemma put_bytes_append: "put_bytes w (us @ vs) s = put_bytes (w + length us) vs (put_bytes w us s)"
  by (induction w us s rule: put_bytes.induct) auto

lemma drop_put_bytes: "w + length us \<le> p \<Longrightarrow> drop p (put_bytes w us s) = drop p s"
  by (induction w us s rule: put_bytes.induct) auto

lemma take_put_bytes: "p \<le> w \<Longrightarrow> take p (put_bytes w us s) = take p s"
  by (induction w us s rule: put_bytes.induct) auto

lemma nth_put_bytes_below: "i < w \<Longrightarrow> put_bytes w us s ! i = s ! i"
  by (induction w us s rule: put_bytes.induct) auto

lemma blk_put_bytes: "w + length us \<le> length s \<Longrightarrow> blk w (length us) (put_bytes w us s) = us"
proof (induction w us s rule: put_bytes.induct)
  case (2 w c cs s)
  let ?t = "put_bytes (Suc w) cs (s[w := c])"
  have w: "w < length s" using 2(2) by simp
  have "blk (Suc w) (length cs) ?t = cs" using 2 by simp
  moreover have "?t ! w = c" using w by (simp add: nth_put_bytes_below)
  moreover have "drop w ?t = ?t ! w # drop (Suc w) ?t" using w by (simp add: Cons_nth_drop_Suc)
  ultimately show ?case by (simp add: blk_def)
qed (simp add: blk_def)

text \<open>The loop of \<open>parseString\<close> on a well-formed body.\<close>

lemma str_loop_unescape:
  "unescape body = Some bs \<Longrightarrow> drop p s = body @ 34 # rest \<Longrightarrow> (\<And>w. wp = Some w \<Longrightarrow> w \<le> p) \<Longrightarrow>
   str_loop s wp p crc =
     Inr (case wp of None \<Rightarrow> s | Some w \<Rightarrow> put_bytes w (bs @ [0]) s, map_option (\<lambda>w. w + length bs) wp,
          p + length body + 1, foldl UJ_UPDATE_CRC crc bs)"
proof (induction "length body" arbitrary: body bs p s wp crc rule: less_induct)
  case less
  show ?case
  proof (cases body)
    case Nil
    then show ?thesis using less.prems str_char_close [of p s rest]
      by (subst str_loop.simps) (auto split: option.splits)
  next
    case (Cons c cs)
    obtain chunk tl us bs' where b: "c # cs = chunk @ tl" "unescape tl = Some bs'" "bs = us @ bs'"
      "chunk \<noteq> []" "us \<noteq> []" "length us \<le> length chunk"
      "\<And>s p t. drop p s = chunk @ t \<Longrightarrow> str_char s p = Inr (Some us, p + length chunk)"
      using unescape_chunk [OF less.prems(1) [unfolded Cons]] by metis
    have d: "drop p s = chunk @ (tl @ 34 # rest)" using less.prems(2) Cons b(1) by simp
    let ?q = "p + length chunk"
    let ?s = "case wp of None \<Rightarrow> s | Some w \<Rightarrow> put_bytes w us s"
    have "drop ?q s = tl @ 34 # rest" using d by (metis add.commute append_eq_conv_conj drop_drop)
    moreover have "drop ?q ?s = drop ?q s"
      using less.prems(3) b(6) by (auto intro!: drop_put_bytes split: option.splits)
    ultimately have d2: "drop ?q ?s = tl @ 34 # rest" by simp
    have "str_loop s wp p crc = str_loop ?s (map_option (\<lambda>w. w + length us) wp) ?q (foldl UJ_UPDATE_CRC crc us)"
      using b(7) [OF d] by (subst str_loop.simps) simp
    also have "\<dots> = Inr (case map_option (\<lambda>w. w + length us) wp of None \<Rightarrow> ?s | Some w \<Rightarrow> put_bytes w (bs' @ [0]) ?s,
        map_option (\<lambda>w. w + length bs') (map_option (\<lambda>w. w + length us) wp), ?q + length tl + 1,
        foldl UJ_UPDATE_CRC (foldl UJ_UPDATE_CRC crc us) bs')"
    proof (rule less.hyps [OF _ b(2) d2])
      show "length tl < length body" using Cons b(1,4) by (metis length_append length_greater_0_conv less_add_same_cancel2)
      show "w \<le> ?q" if "map_option (\<lambda>w. w + length us) wp = Some w" for w
        using that less.prems(3) b(6) by (auto intro: add_mono)
    qed
    also have "length body = length chunk + length tl" using Cons b(1) by (metis length_append)
    ultimately show ?thesis using b(3)
      by (cases wp) (simp_all add: put_bytes_append)
  qed
qed

lemma unescape_length: "unescape body = Some bs \<Longrightarrow> length bs \<le> length body"
proof (induction "length body" arbitrary: body bs rule: less_induct)
  case less
  show ?case
  proof (cases body)
    case (Cons c cs)
    obtain chunk tl us bs' where b: "c # cs = chunk @ tl" "unescape tl = Some bs'" "bs = us @ bs'"
      "chunk \<noteq> []" "length us \<le> length chunk"
      using unescape_chunk [OF less.prems(1) [unfolded Cons]] by metis
    have l: "length body = length chunk + length tl" using Cons b(1) by (metis length_append)
    have "length tl < length body" using l b(4) by simp
    then have "length bs' \<le> length tl" using less.hyps b(2) by simp
    then show ?thesis using b(3,5) l by simp
  qed (use less in simp)
qed

lemma parseString_ok:
  assumes p: "0 < read_pos d" "ch (jbuf d) (read_pos d - 1) = 34"
    and s: "drop (read_pos d) (jbuf d) = body @ 34 # rest" "unescape body = Some bs"
  shows "parseString d = Inr ((), d\<lparr>
    jbuf := (if skip_mode d then jbuf d else put_bytes (read_pos d) (bs @ [0]) (jbuf d)),
    read_pos := read_pos d + length body + 1, str_beg := read_pos d,
    str_crc := UJ_FINISH_CRC (foldl UJ_UPDATE_CRC 0 bs),
    str_len := (if skip_mode d then None else Some (length bs))\<rparr>)"
proof (cases "skip_mode d")
  case True
  then show ?thesis using p str_loop_unescape [OF s(2,1), of None 0] by (simp add: parseString_def Let_def)
next
  case False
  then show ?thesis using p str_loop_unescape [OF s(2,1), of "Some (read_pos d)" 0]
    by (simp add: parseString_def Let_def)
qed

section \<open>Skipping a value\<close>

text \<open>
  JSON values by their text: a string is its body, a number its digits, fraction and exponent.
\<close>

datatype json =
    JNull
  | JBool bool
  | JNum bool bytes "bytes option" "(nat option \<times> bytes) option"
  | JStr bytes
  | JArr "json list"
  | JObj "(bytes \<times> json) list"

definition num_text :: "bool \<Rightarrow> bytes \<Rightarrow> bytes option \<Rightarrow> (nat option \<times> bytes) option \<Rightarrow> bytes" where
  "num_text neg ds frac ex =
     (if neg then [45] else []) @ ds @ (case frac of None \<Rightarrow> [] | Some fs \<Rightarrow> 46 # fs) @
     (case ex of None \<Rightarrow> [] | Some (sg, es) \<Rightarrow> 101 # (case sg of None \<Rightarrow> [] | Some c \<Rightarrow> [c]) @ es)"

text \<open>Elements with a comma between them.\<close>

fun commas :: "bytes list \<Rightarrow> bytes" where
  "commas [] = []"
| "commas [t] = t"
| "commas (t # ts) = t @ 44 # commas ts"

fun json_text :: "json \<Rightarrow> bytes" where
  "json_text JNull = bytes_of ''null''"
| "json_text (JBool b) = bytes_of (if b then ''true'' else ''false'')"
| "json_text (JNum neg ds frac ex) = num_text neg ds frac ex"
| "json_text (JStr body) = 34 # body @ [34]"
| "json_text (JArr vs) = 91 # commas (map json_text vs) @ [93]"
| "json_text (JObj fs) = 123 # commas (map (\<lambda>(k, v). 34 # k @ 34 # 58 # json_text v) fs) @ [125]"

definition digits :: "bytes \<Rightarrow> bool" where
  "digits ds \<longleftrightarrow> ds \<noteq> [] \<and> (\<forall>c \<in> set ds. 48 \<le> c \<and> c \<le> 57)"

fun json_ok :: "json \<Rightarrow> bool" where
  "json_ok (JNum neg ds frac ex) =
     (digits ds \<and> (\<forall>fs. frac = Some fs \<longrightarrow> digits fs) \<and>
      (\<forall>sg es. ex = Some (sg, es) \<longrightarrow> digits es \<and> (sg = None \<or> sg = Some 43 \<or> sg = Some 45)))"
| "json_ok (JStr body) = (unescape body \<noteq> None)"
| "json_ok (JArr vs) = (\<forall>v \<in> set vs. json_ok v)"
| "json_ok (JObj fs) = (\<forall>(k, v) \<in> set fs. unescape k \<noteq> None \<and> json_ok v)"
| "json_ok _ = True"

fun depth :: "json \<Rightarrow> nat" where
  "depth (JArr vs) = Suc (Max (insert 0 (depth ` set vs)))"
| "depth (JObj fs) = Suc (Max (insert 0 ((\<lambda>(k, v). depth v) ` set fs)))"
| "depth _ = 0"

text \<open>The text ahead of the decoder.\<close>

abbreviation ahead :: "ujdec \<Rightarrow> bytes \<Rightarrow> bool" where
  "ahead d t \<equiv> drop (read_pos d) (jbuf d) = t"

lemma ahead_ch: "ahead d t \<Longrightarrow> ch (jbuf d) (read_pos d + i) = ch t i"
  by (rule ch_drop)

lemma ahead_shift: "drop p s = t @ r \<Longrightarrow> drop (p + length t) s = r"
  by (metis add.commute append_eq_conv_conj drop_drop)

lemma skipWsp_here: "ahead d (c # t) \<Longrightarrow> c \<notin> {9, 13, 10, 32, 47} \<Longrightarrow>
    skipWsp d = Inr (c, d\<lparr>read_pos := Suc (read_pos d)\<rparr>)"
  using ahead_ch [of d "c # t" 0] by (simp add: skipWsp_def ch_def [of "c # t"])

text \<open>What scanning a scalar leaves alone.\<close>

definition same_ctx :: "ujdec \<Rightarrow> ujdec \<Rightarrow> bool" where
  "same_ctx d d' \<longleftrightarrow> jbuf d' = jbuf d \<and> skip_mode d' = skip_mode d \<and> nest_type d' = nest_type d \<and>
     nest_level d' = nest_level d \<and> nest_stack d' = nest_stack d \<and> idx d' = idx d \<and> fld_name d' = fld_name d"

lemma dec_digits_text:
  "drop p s = ds @ rest \<Longrightarrow> (\<forall>c \<in> set ds. 48 \<le> c \<and> c \<le> 57) \<Longrightarrow> \<not> (48 \<le> ch rest 0 \<and> ch rest 0 \<le> 57) \<Longrightarrow>
   \<exists>v'. dec_digits s p v n = (v', n + length ds, ch rest 0, p + length ds + 1)"
proof (induction ds arbitrary: p v n)
  case Nil
  then have "ch s p = ch rest 0" using ch_drop [of p s rest 0] by simp
  then show ?case using Nil by (subst dec_digits.simps) (auto simp: Let_def)
next
  case (Cons c ds)
  have c: "ch s p = c" using ch_drop [OF Cons.prems(1), of 0] by (simp add: ch_def)
  have d: "drop (Suc p) s = ds @ rest" using ahead_shift [of p s "[c]" "ds @ rest"] Cons.prems(1) by simp
  have r: "48 \<le> c \<and> c \<le> 57" using Cons.prems(2) by simp
  obtain v' where "dec_digits s (Suc p) ((v * 10 + c - 48) mod 2 ^ 64) (n + 1) =
      (v', n + 1 + length ds, ch rest 0, Suc p + length ds + 1)"
    using Cons.IH [OF d] Cons.prems(2,3) by fastforce
  moreover have "dec_digits s p v n = dec_digits s (Suc p) ((v * 10 + c - 48) mod 2 ^ 64) (n + 1)"
    by (subst dec_digits.simps) (simp add: Let_def c r)
  ultimately show ?case by simp
qed

lemma decDigits_text:
  assumes "ahead d (ds @ rest)" and "digits ds" and "\<not> (48 \<le> ch rest 0 \<and> ch rest 0 \<le> 57)"
  shows "\<exists>v. decDigits d = Inr ((v, length ds, ch rest 0), d\<lparr>read_pos := read_pos d + length ds + 1\<rparr>)"
proof -
  obtain v where "dec_digits (jbuf d) (read_pos d) 0 0 = (v, 0 + length ds, ch rest 0, read_pos d + length ds + 1)"
    using dec_digits_text [OF assms(1), of 0 0] assms(2,3) by (auto simp: digits_def)
  then show ?thesis using assms(2) by (simp add: decDigits_def digits_def)
qed

text \<open>What may follow a value: not a character that could continue a number.\<close>

definition ends_value :: "bytes \<Rightarrow> bool" where
  "ends_value rest \<longleftrightarrow> \<not> (48 \<le> ch rest 0 \<and> ch rest 0 \<le> 57) \<and> ch rest 0 \<noteq> 46 \<and> ch rest 0 \<noteq> 101 \<and> ch rest 0 \<noteq> 69"

text \<open>The digits, fraction and exponent of a number.\<close>

lemma ahead_next: "ahead d (t @ r) \<Longrightarrow> read_pos d' = read_pos d + length t \<Longrightarrow> jbuf d' = jbuf d \<Longrightarrow> ahead d' r"
  using ahead_shift [of "read_pos d" "jbuf d" t r] by simp

lemma exponent_text:
  assumes a: "ahead d ((case sg of None \<Rightarrow> [] | Some c \<Rightarrow> [c]) @ es @ rest)" and e: "digits es"
    and sg: "sg = None \<or> sg = Some 43 \<or> sg = Some 45" and r: "ends_value rest"
  shows "\<exists>x v. parse_exp d = Inr ((x, v), d\<lparr>read_pos := Suc (read_pos d + (case sg of None \<Rightarrow> 0 | Some _ \<Rightarrow> 1) + length es)\<rparr>)"
proof -
  let ?k = "case sg of None \<Rightarrow> 0 | Some _ \<Rightarrow> (1::nat)"
  obtain c0 cs where es: "es = c0 # cs" "48 \<le> c0" "c0 \<le> 57" using e by (cases es) (auto simp: digits_def)
  let ?d = "d\<lparr>read_pos := read_pos d + ?k\<rparr>"
  have a2: "ahead ?d (es @ rest)"
    by (rule ahead_next [OF a]) (auto split: option.splits)
  have nd: "\<not> (48 \<le> ch rest 0 \<and> ch rest 0 \<le> 57)" using r by (simp add: ends_value_def)
  then obtain v where v: "decDigits ?d = Inr ((v, length es, ch rest 0), ?d\<lparr>read_pos := read_pos ?d + length es + 1\<rparr>)"
    using decDigits_text [OF a2 e nd] by blast
  have c: "ch (jbuf d) (read_pos d) = (case sg of None \<Rightarrow> c0 | Some c \<Rightarrow> c)"
    using ahead_ch [OF a, of 0] es(1) by (auto simp: ch_def split: option.splits)
  show ?thesis
  proof (cases sg)
    case None
    then have "c0 \<noteq> 45 \<and> c0 \<noteq> 43" using es by auto
    then show ?thesis using v c None by (simp add: parse_exp_def nextChar_def backChar_def)
  next
    case (Some s)
    then show ?thesis using v c sg by (auto simp: parse_exp_def nextChar_def)
  qed
qed

lemma bnd_eq: "m = Inr (x, s) \<Longrightarrow> bnd m f = f x s"
  by simp

lemma parseNumber_text:
  assumes a: "ahead d (num_text False ds frac ex @ rest)" and ok: "json_ok (JNum False ds frac ex)"
    and r: "ends_value rest"
  shows "\<exists>d'. parseNumber signum d = Inr ((), d') \<and> same_ctx d d' \<and>
    read_pos d' = read_pos d + length (num_text False ds frac ex) \<and> (ty d' = UJ_SNUM \<or> ty d' = UJ_UNUM \<or> ty d' = UJ_FNUM)"
proof -
  let ?F = "case frac of None \<Rightarrow> [] | Some fs \<Rightarrow> 46 # fs"
  let ?E = "case ex of None \<Rightarrow> [] | Some (sg, es) \<Rightarrow> 101 # (case sg of None \<Rightarrow> [] | Some c \<Rightarrow> [c]) @ es"
  have dg: "digits ds" using ok by simp
  have a1: "ahead d (ds @ (?F @ ?E @ rest))" using a by (simp add: num_text_def)
  have n1: "\<not> (48 \<le> ch (?F @ ?E @ rest) 0 \<and> ch (?F @ ?E @ rest) 0 \<le> 57)"
    using r by (auto simp: ends_value_def ch_def split: option.splits)
  obtain v where v: "decDigits d = Inr ((v, length ds, ch (?F @ ?E @ rest) 0), d\<lparr>read_pos := read_pos d + length ds + 1\<rparr>)"
    using decDigits_text [OF a1 dg n1] by blast
  let ?d1 = "d\<lparr>read_pos := read_pos d + length ds + 1\<rparr>"
  text \<open>After the fraction, the position is one behind the rest of the text.\<close>
  have "\<exists>fr nf. (if ch (?F @ ?E @ rest) 0 = 46 then decDigits ?d1 else Inr ((0, 0, ch (?F @ ?E @ rest) 0), ?d1)) =
      Inr ((fr, nf, ch (?E @ rest) 0), d\<lparr>read_pos := read_pos d + length (ds @ ?F) + 1\<rparr>)"
  proof (cases frac)
    case None
    then have "ch (?E @ rest) 0 \<noteq> 46" using r by (auto simp: ends_value_def ch_def split: option.splits)
    then show ?thesis using None by simp
  next
    case (Some fs)
    have "ahead ?d1 (fs @ (?E @ rest))"
      by (rule ahead_next [where t = "ds @ [46]"]) (use a1 Some in auto)
    moreover have "\<not> (48 \<le> ch (?E @ rest) 0 \<and> ch (?E @ rest) 0 \<le> 57)"
      using r by (auto simp: ends_value_def ch_def split: option.splits)
    moreover have "digits fs" using ok Some by simp
    ultimately obtain w where "decDigits ?d1 = Inr ((w, length fs, ch (?E @ rest) 0),
        ?d1\<lparr>read_pos := read_pos ?d1 + length fs + 1\<rparr>)" using decDigits_text by blast
    then show ?thesis using Some by (simp add: ch_def)
  qed
  then obtain fr nf where fr: "(if ch (?F @ ?E @ rest) 0 = 46 then decDigits ?d1
        else Inr ((0, 0, ch (?F @ ?E @ rest) 0), ?d1)) =
      Inr ((fr, nf, ch (?E @ rest) 0), d\<lparr>read_pos := read_pos d + length (ds @ ?F) + 1\<rparr>)" by blast
  let ?d2 = "d\<lparr>read_pos := read_pos d + length (ds @ ?F) + 1\<rparr>"
  have "\<exists>x e. (if ch (?E @ rest) 0 = 101 \<or> ch (?E @ rest) 0 = 69 then parse_exp ?d2 else Inr ((0, 0), ?d2)) = Inr ((x, e), d\<lparr>read_pos := read_pos d + length (ds @ ?F @ ?E) + 1\<rparr>)"
  proof (cases ex)
    case None
    then have "ch (?E @ rest) 0 \<noteq> 101 \<and> ch (?E @ rest) 0 \<noteq> 69" using r by (auto simp: ends_value_def)
    then show ?thesis using None by simp
  next
    case (Some se)
    obtain sg es where se: "se = (sg, es)" by (cases se)
    have "ahead ?d2 ((case sg of None \<Rightarrow> [] | Some c \<Rightarrow> [c]) @ es @ rest)"
      by (rule ahead_next [where t = "ds @ ?F @ [101]"]) (use a1 Some se in auto)
    moreover have "digits es" "sg = None \<or> sg = Some 43 \<or> sg = Some 45" using ok Some se by simp_all
    moreover have "ch (?E @ rest) 0 = 101" using Some se by (simp add: ch_def)
    moreover have "Suc (read_pos ?d2 + (case sg of None \<Rightarrow> 0 | Some _ \<Rightarrow> 1) + length es) =
        read_pos d + length (ds @ ?F @ ?E) + 1" using Some se by (auto split: option.splits)
    ultimately show ?thesis using exponent_text [of ?d2 sg es rest] r by auto
  qed
  then obtain x e where x: "(if ch (?E @ rest) 0 = 101 \<or> ch (?E @ rest) 0 = 69 then parse_exp ?d2 else Inr ((0, 0), ?d2)) = Inr ((x, e), d\<lparr>read_pos := read_pos d + length (ds @ ?F @ ?E) + 1\<rparr>)" by blast
  show ?thesis
    unfolding parseNumber_def bnd_eq [OF v] prod.case bnd_eq [OF fr] bnd_eq [OF x] Let_def
    by (cases "nf = 0 \<and> x = 0") (auto simp: backChar_def same_ctx_def num_text_def)
qed

lemma next_lit_text: "drop p s = lit @ rest \<Longrightarrow> lit \<noteq> [] \<Longrightarrow> next_lit s p lit = Inr (p + length lit)"
proof (induction lit arbitrary: p)
  case (Cons c cs)
  have "ch s p = c" using ch_drop [OF Cons.prems(1), of 0] by (simp add: ch_def)
  moreover have "drop (Suc p) s = cs @ rest" using ahead_shift [of p s "[c]" "cs @ rest"] Cons.prems(1) by simp
  ultimately show ?case using Cons.IH [of "Suc p"] by (cases "cs = []") auto
qed simp

lemma nextLit_text:
  "ahead d (bytes_of lit @ rest) \<Longrightarrow> lit \<noteq> [] \<Longrightarrow>
    nextLit lit d = Inr ((), d\<lparr>read_pos := read_pos d + length lit\<rparr>)"
  using next_lit_text [of "read_pos d" "jbuf d" "bytes_of lit" rest] by (simp add: nextLit_def bytes_of_def)

lemma uj_nextValue_at:
  assumes "ahead d (c # t)" and "c \<notin> {9, 13, 10, 32, 47}" and "ty d = UJ_UNDEF"
  shows "uj_nextValue d = (let d = d\<lparr>read_pos := Suc (read_pos d), val_pos := read_pos d\<rparr> in
        bnd (if c = 0 then Inl (UjError ''Unexpected EOF'')
             else if c = 34 then parseString (d\<lparr>ty := UJ_STRING\<rparr>)
             else if c = 45 then parseNumber (- 1) d
             else if 48 \<le> c \<and> c \<le> 57 then parseNumber 1 (backChar d)
             else if c = 116 then bnd (nextLit ''rue'' d) (\<lambda>_ d. Inr ((), d\<lparr>ty := UJ_BOOL, num := 1\<rparr>))
             else if c = 102 then bnd (nextLit ''alse'' d) (\<lambda>_ d. Inr ((), d\<lparr>ty := UJ_BOOL, num := 0\<rparr>))
             else if c = 110 then bnd (nextLit ''ull'' d) (\<lambda>_ d. Inr ((), d\<lparr>ty := UJ_NULL, num := 0\<rparr>))
             else if c = 123 then Inr ((), backChar (d\<lparr>ty := UJ_OBJECT\<rparr>))
             else if c = 91 then Inr ((), backChar (d\<lparr>ty := UJ_ARRAY\<rparr>))
             else Inl (UjError ''Syntax error''))
          (\<lambda>_ d. Inr (ty d, d)))"
  using skipWsp_here [OF assms(1,2)] assms(3) by (simp add: uj_nextValue_def Let_def)

lemma bytes_of_simps [simp]: "bytes_of [] = []" "bytes_of (c # s) = of_char c # bytes_of s"
  by (simp_all add: bytes_of_def)

fun scalar :: "json \<Rightarrow> bool" where
  "scalar (JArr _) = False"
| "scalar (JObj _) = False"
| "scalar _ = True"

lemma uj_nextValue_scalar:
  assumes v: "scalar v" "json_ok v" and a: "ahead d (json_text v @ rest)" and r: "ends_value rest"
    and u: "ty d = UJ_UNDEF" and sk: "skip_mode d"
  shows "\<exists>t d'. uj_nextValue d = Inr (t, d') \<and> same_ctx d d' \<and>
    read_pos d' = read_pos d + length (json_text v) \<and> ty d' \<noteq> UJ_OBJECT \<and> ty d' \<noteq> UJ_ARRAY"
proof (cases v)
  case JNull
  then have a': "ahead d (110 # bytes_of ''ull'' @ rest)" using a by simp
  let ?d = "d\<lparr>read_pos := Suc (read_pos d), val_pos := read_pos d\<rparr>"
  have "ahead ?d (bytes_of ''ull'' @ rest)" by (rule ahead_next [where t = "[110]"]) (use a' in auto)
  from nextLit_text [OF this] show ?thesis using uj_nextValue_at [OF a' _ u] JNull
    by (simp add: Let_def same_ctx_def)
next
  case (JBool b)
  show ?thesis
  proof (cases b)
    case True
    then have a': "ahead d (116 # bytes_of ''rue'' @ rest)" using a JBool by simp
    let ?d = "d\<lparr>read_pos := Suc (read_pos d), val_pos := read_pos d\<rparr>"
    have "ahead ?d (bytes_of ''rue'' @ rest)" by (rule ahead_next [where t = "[116]"]) (use a' in auto)
    from nextLit_text [OF this] show ?thesis using uj_nextValue_at [OF a' _ u] JBool True
      by (simp add: Let_def same_ctx_def)
  next
    case False
    then have a': "ahead d (102 # bytes_of ''alse'' @ rest)" using a JBool by simp
    let ?d = "d\<lparr>read_pos := Suc (read_pos d), val_pos := read_pos d\<rparr>"
    have "ahead ?d (bytes_of ''alse'' @ rest)" by (rule ahead_next [where t = "[102]"]) (use a' in auto)
    from nextLit_text [OF this] show ?thesis using uj_nextValue_at [OF a' _ u] JBool False
      by (simp add: Let_def same_ctx_def)
  qed
next
  case (JStr body)
  then have a': "ahead d (34 # body @ 34 # rest)" using a by simp
  obtain bs where bs: "unescape body = Some bs" using v JStr by auto
  let ?d = "d\<lparr>read_pos := Suc (read_pos d), val_pos := read_pos d, ty := UJ_STRING\<rparr>"
  have b: "ahead ?d (body @ 34 # rest)" by (rule ahead_next [where t = "[34]"]) (use a' in auto)
  have c: "0 < read_pos ?d" "ch (jbuf ?d) (read_pos ?d - 1) = 34" using ahead_ch [OF a', of 0] by (simp_all add: ch_def)
  from parseString_ok [OF c b bs] show ?thesis using uj_nextValue_at [OF a' _ u] JStr sk
    by (simp add: Let_def same_ctx_def)
next
  case (JNum neg ds frac ex)
  have ok: "json_ok (JNum False ds frac ex)" using v JNum by simp
  let ?d = "d\<lparr>read_pos := Suc (read_pos d), val_pos := read_pos d\<rparr>"
  show ?thesis
  proof (cases neg)
    case True
    then have a': "ahead d (45 # num_text False ds frac ex @ rest)" using a JNum by (simp add: num_text_def)
    have "ahead ?d (num_text False ds frac ex @ rest)" by (rule ahead_next [where t = "[45]"]) (use a' in auto)
    then obtain d' where d': "parseNumber (- 1) ?d = Inr ((), d')" "same_ctx ?d d'"
      "read_pos d' = read_pos ?d + length (num_text False ds frac ex)" "ty d' = UJ_SNUM \<or> ty d' = UJ_UNUM \<or> ty d' = UJ_FNUM"
      using parseNumber_text [OF _ ok r] by blast
    then show ?thesis using uj_nextValue_at [OF a' _ u] JNum True
      by (auto simp: Let_def same_ctx_def num_text_def)
  next
    case False
    obtain c cs where ds: "ds = c # cs" "48 \<le> c" "c \<le> 57" using ok by (cases ds) (auto simp: digits_def)
    have nt: "num_text False ds frac ex = c # tl (num_text False ds frac ex)" by (simp add: num_text_def ds)
    have a0: "ahead d (num_text False ds frac ex @ rest)" using a JNum False by simp
    then have a': "ahead d (c # tl (num_text False ds frac ex) @ rest)" using nt by (metis append_Cons)
    have c: "c \<notin> {9, 13, 10, 32, 47}" using ds by auto
    let ?e = "backChar ?d"
    have "ahead ?e (num_text False ds frac ex @ rest)" using a0 by (simp add: backChar_def)
    then obtain d' where d': "parseNumber 1 ?e = Inr ((), d')" "same_ctx ?e d'"
      "read_pos d' = read_pos ?e + length (num_text False ds frac ex)" "ty d' = UJ_SNUM \<or> ty d' = UJ_UNUM \<or> ty d' = UJ_FNUM"
      using parseNumber_text [OF _ ok r] by blast
    have "c \<noteq> 0" "c \<noteq> 34" "c \<noteq> 45" using ds by auto
    then have "uj_nextValue d = Inr (ty d', d')"
      using uj_nextValue_at [OF a' c u] ds d'(1) by (simp add: Let_def)
    then show ?thesis using d' JNum False by (auto simp: same_ctx_def backChar_def)
  qed
qed (use v in auto)

text \<open>
  \<open>nested d\<close> is the invariant of the nesting: the levels fit the stack, the type bits fit the
  levels, and the context of the innermost level is set. \<open>back_in d d'\<close> says \<open>d'\<close> is in the same
  place of the same nesting as \<open>d\<close>.
\<close>

definition nested :: "ujdec \<Rightarrow> bool" where
  "nested d \<longleftrightarrow> skip_mode d \<and> - 1 \<le> nest_level d \<and> nest_level d \<le> UJ_MAX_NEST \<and> length (nest_stack d) = 8 \<and>
     nest_type d < 2 ^ nat (nest_level d + 1) \<and>
     (0 \<le> nest_level d \<longrightarrow> (if nest_type d mod 2 = UJ_N_OBJ then fld_name d \<noteq> None else 0 \<le> idx d))"

definition back_in :: "ujdec \<Rightarrow> ujdec \<Rightarrow> bool" where
  "back_in d d' \<longleftrightarrow> jbuf d' = jbuf d \<and> skip_mode d' = skip_mode d \<and> nest_type d' = nest_type d \<and>
     nest_level d' = nest_level d \<and> length (nest_stack d') = length (nest_stack d) \<and>
     (\<forall>i < nat (nest_level d). nest_stack d' ! i = nest_stack d ! i) \<and>
     (0 \<le> nest_level d \<longrightarrow> (if nest_type d mod 2 = UJ_N_OBJ then fld_name d' = fld_name d else idx d' = idx d))"

lemma back_in_trans: "back_in d d' \<Longrightarrow> back_in d' d'' \<Longrightarrow> back_in d d''"
  by (auto simp: back_in_def split: if_splits)

lemma back_in_nested: "nested d \<Longrightarrow> back_in d d' \<Longrightarrow> nested d'"
  by (auto simp: back_in_def nested_def split: if_splits)

lemma same_ctx_back_in: "same_ctx d d' \<Longrightarrow> back_in d d'"
  by (auto simp: same_ctx_def back_in_def)

text \<open>The state inside a container entered from \<open>d\<close>.\<close>

definition inside :: "nat \<Rightarrow> ujdec \<Rightarrow> ujdec \<Rightarrow> bool" where
  "inside what d d1 \<longleftrightarrow> jbuf d1 = jbuf d \<and> skip_mode d1 = skip_mode d \<and> nest_level d1 = nest_level d + 1 \<and>
     nest_type d1 = nest_type d * 2 + what \<and> length (nest_stack d1) = length (nest_stack d) \<and>
     (\<forall>i < nat (nest_level d). nest_stack d1 ! i = nest_stack d ! i) \<and>
     (0 \<le> nest_level d \<longrightarrow> nest_stack d1 ! nat (nest_level d) =
        (if nest_type d mod 2 = UJ_N_OBJ then int (the (fld_name d)) else idx d))"

lemma inside_back_in: "inside w d d1 \<Longrightarrow> back_in d1 d2 \<Longrightarrow> - 1 \<le> nest_level d \<Longrightarrow> inside w d d2"
  unfolding inside_def back_in_def by (auto simp: nat_add_distrib zless_nat_eq_int_zless)

lemma inside_keeps: "inside w d d1 \<Longrightarrow> jbuf d2 = jbuf d1 \<Longrightarrow> skip_mode d2 = skip_mode d1 \<Longrightarrow>
    nest_level d2 = nest_level d1 \<Longrightarrow> nest_type d2 = nest_type d1 \<Longrightarrow> nest_stack d2 = nest_stack d1 \<Longrightarrow> inside w d d2"
  by (simp add: inside_def)

lemma do_enter_ok:
  assumes n: "nested d" and lv: "nest_level d < UJ_MAX_NEST" and a: "ahead d (brace # t)"
    and b: "brace \<notin> {9, 13, 10, 32, 47}" and w: "what = UJ_N_ARY \<or> what = UJ_N_OBJ"
  shows "\<exists>d1. do_enter what brace err d = Inr ((), d1) \<and> inside what d d1 \<and> read_pos d1 = Suc (read_pos d)"
proof -
  note sk = skipWsp_here [OF a b]
  have w2: "(x * 2) OR what = x * 2 + what" for x :: nat
    using w by (auto simp: UJ_N_ARY_def UJ_N_OBJ_def or_Suc_0_eq)
  show ?thesis
  proof (cases "0 \<le> nest_level d")
    case False
    then have "nest_level d = - 1" "nest_type d = 0" using n by (auto simp: nested_def)
    then show ?thesis using sk w2 [of 0] lv
      by (auto simp: do_enter_def Let_def inside_def UJ_MAX_NEST_def)
  next
    case True
    have "nest_type d < 2 ^ nat (nest_level d + 1)" "nat (nest_level d + 1) \<le> 8"
      using n lv by (auto simp: nested_def UJ_MAX_NEST_def)
    then have "nest_type d < 2 ^ 8" by (meson less_le_trans one_le_numeral power_increasing)
    then have m: "nest_type d * 2 mod 2 ^ 16 = nest_type d * 2" by (intro mod_less) simp
    have l8: "nat (nest_level d) < length (nest_stack d)" using n lv True by (simp add: nested_def UJ_MAX_NEST_def)
    show ?thesis
    proof (cases "nest_type d mod 2 = UJ_N_OBJ")
      case obj: True
      then obtain p where "fld_name d = Some p" using n True by (auto simp: nested_def)
      then show ?thesis using sk obj True lv m w2 l8
        by (auto simp: do_enter_def Let_def inside_def)
    next
      case ary: False
      then have "0 \<le> idx d" using n True by (auto simp: nested_def)
      then show ?thesis using sk ary True lv m w2 l8
        by (auto simp: do_enter_def Let_def inside_def)
    qed
  qed
qed

lemma do_exit_ok:
  assumes n: "nested d" and i: "inside what d d2" and a: "ahead d2 (brace # t)"
    and b: "brace \<notin> {9, 13, 10, 32, 47}" and w: "what = UJ_N_ARY \<or> what = UJ_N_OBJ"
  shows "\<exists>d3. do_exit what brace err d2 = Inr ((), d3) \<and> back_in d d3 \<and> read_pos d3 = Suc (read_pos d2) \<and> ty d3 = UJ_UNDEF"
proof -
  note sk = skipWsp_here [OF a b]
  have lt: "- 1 \<le> nest_level d" using n by (simp add: nested_def)
  have bits: "nest_type d2 mod 2 = what" "nest_type d2 div 2 = nest_type d"
    using i w by (auto simp: inside_def UJ_N_ARY_def UJ_N_OBJ_def)
  have lv: "nest_level d2 = nest_level d + 1" using i by (simp add: inside_def)
  show ?thesis
  proof (cases "0 \<le> nest_level d")
    case False
    then show ?thesis using sk bits lv lt i by (auto simp: do_exit_def Let_def back_in_def inside_def)
  next
    case True
    show ?thesis
    proof (cases "nest_type d mod 2 = UJ_N_OBJ")
      case obj: True
      then obtain p where "fld_name d = Some p" using n True by (auto simp: nested_def)
      then show ?thesis using sk bits lv i True obj by (auto simp: do_exit_def Let_def back_in_def inside_def)
    next
      case ary: False
      then show ?thesis using sk bits lv i True by (auto simp: do_exit_def Let_def back_in_def inside_def)
    qed
  qed
qed

lemma inside_nested:
  assumes "nested d" and "nest_level d < UJ_MAX_NEST" and "inside w d d1"
    and "w = UJ_N_ARY \<and> 0 \<le> idx d1 \<or> w = UJ_N_OBJ \<and> fld_name d1 \<noteq> None"
  shows "nested d1"
proof -
  have "- 1 \<le> nest_level d" using assms(1) by (simp add: nested_def)
  then have e: "nat (nest_level d + 1 + 1) = Suc (nat (nest_level d + 1))" by arith
  have "w \<le> 1" using assms(4) by (auto simp: UJ_N_ARY_def UJ_N_OBJ_def)
  moreover have "nest_type d < 2 ^ nat (nest_level d + 1)" using assms(1) by (simp add: nested_def)
  ultimately have "nest_type d * 2 + w < 2 ^ nat (nest_level d + 1 + 1)" unfolding e by simp
  then show ?thesis using assms by (auto simp: nested_def inside_def UJ_N_ARY_def UJ_N_OBJ_def)
qed

lemma json_text_head:
  assumes "json_ok v"
  obtains c t where "json_text v = c # t" "c \<notin> {9, 13, 10, 32, 47, 93, 44, 125}"
proof (cases v)
  case (JNum neg ds frac ex)
  then obtain c cs where "ds = c # cs" "48 \<le> c" "c \<le> 57" using assms by (cases ds) (auto simp: digits_def)
  then show ?thesis using JNum that by (cases neg) (auto simp: num_text_def)
next
  case (JBool b)
  then show ?thesis using that by (cases b) auto
qed (use that in auto)

text \<open>The text in front of the closing bracket, with the comma that is due when an element was read.\<close>

definition tail_text :: "bool \<Rightarrow> bytes list \<Rightarrow> bytes" where
  "tail_text cm ts = (if cm \<and> ts \<noteq> [] then 44 # commas ts else commas ts)"

lemma tail_text_Cons: "tail_text cm (t # ts) = (if cm then [44] else []) @ t @ tail_text True ts"
  by (cases ts) (auto simp: tail_text_def)

lemma tail_text_Nil [simp]: "tail_text cm [] = []"
  by (simp add: tail_text_def)

lemma ends_value_tail: "c \<in> {93, 125} \<Longrightarrow> ends_value (tail_text True ts @ c # rest)"
  by (cases ts) (auto simp: tail_text_def ends_value_def ch_def)

text \<open>What the induction over values provides for the elements.\<close>

definition skips :: "json \<Rightarrow> bool" where
  "skips v \<longleftrightarrow> (\<forall>d rest n. nested d \<longrightarrow> nest_level d + int (depth v) \<le> UJ_MAX_NEST \<longrightarrow> ty d = UJ_UNDEF \<longrightarrow>
     ahead d (json_text v @ rest) \<longrightarrow> ends_value rest \<longrightarrow> 2 * length (json_text v) \<le> n \<longrightarrow>
     (\<exists>d'. skipValue n d = Inr ((), d') \<and> back_in d d' \<and> read_pos d' = read_pos d + length (json_text v)))"

lemma skipsD: "skips v \<Longrightarrow> nested d \<Longrightarrow> nest_level d + int (depth v) \<le> UJ_MAX_NEST \<Longrightarrow> ty d = UJ_UNDEF \<Longrightarrow>
    ahead d (json_text v @ rest) \<Longrightarrow> ends_value rest \<Longrightarrow> 2 * length (json_text v) \<le> n \<Longrightarrow>
    \<exists>d'. skipValue n d = Inr ((), d') \<and> back_in d d' \<and> read_pos d' = read_pos d + length (json_text v)"
  unfolding skips_def by blast

lemma skip_slots_text:
  assumes "\<forall>v \<in> set vs. skips v \<and> json_ok v \<and> nest_level d0 + 1 + int (depth v) \<le> UJ_MAX_NEST"
    and d0: "nested d0" "nest_level d0 < UJ_MAX_NEST"
    and "inside UJ_N_ARY d0 d" and "- 1 \<le> idx d"
    and "ahead d (tail_text (0 \<le> idx d) (map json_text vs) @ 93 # rest)"
    and "2 * length (tail_text (0 \<le> idx d) (map json_text vs)) < n"
  shows "\<exists>d'. skip_slots n d = Inr ((), d') \<and> inside UJ_N_ARY d0 d' \<and>
    read_pos d' = read_pos d + length (tail_text (0 \<le> idx d) (map json_text vs))"
  using assms(1,4-)
proof (induction vs arbitrary: d n)
  case Nil
  then obtain m where n: "n = Suc m" by (cases n) auto
  have "ahead (d\<lparr>ty := UJ_UNDEF\<rparr>) (93 # rest)" using Nil by simp
  from skipWsp_here [OF this] have "uj_nextSlot d = Inr (- 1, d\<lparr>ty := UJ_UNDEF\<rparr>)"
    by (simp add: uj_nextSlot_def backChar_def)
  then show ?case using Nil.prems n by (auto simp: inside_def)
next
  case (Cons v vs)
  then obtain m where n: "n = Suc m" by (cases n) auto
  have lv: "nest_level d = nest_level d0 + 1" using Cons.prems(2) by (simp add: inside_def)
  let ?T = "tail_text True (map json_text vs)"
  have a: "ahead d ((if 0 \<le> idx d then [44] else []) @ json_text v @ ?T @ 93 # rest)"
    using Cons.prems(4) by (simp add: tail_text_Cons)
  have v: "json_ok v" "skips v" "nest_level d0 + 1 + int (depth v) \<le> UJ_MAX_NEST" using Cons.prems(1) by simp_all
  obtain c t where t: "json_text v = c # t" "c \<notin> {9, 13, 10, 32, 47, 93, 44, 125}" using json_text_head [OF v(1)] .
  let ?k = "if 0 \<le> idx d then 1 else 0 :: nat"
  let ?d1 = "d\<lparr>ty := UJ_UNDEF, read_pos := read_pos d + ?k, idx := idx d + 1\<rparr>"
  have slot: "uj_nextSlot d = Inr (idx d + 1, ?d1)"
  proof (cases "0 \<le> idx d")
    case True
    then have "ahead (d\<lparr>ty := UJ_UNDEF\<rparr>) (44 # json_text v @ ?T @ 93 # rest)" using a by simp
    from skipWsp_here [OF this] True show ?thesis by (simp add: uj_nextSlot_def Let_def)
  next
    case False
    then have "ahead (d\<lparr>ty := UJ_UNDEF\<rparr>) (c # t @ ?T @ 93 # rest)" using a t by simp
    from skipWsp_here [OF this] t(2) False show ?thesis
      by (auto simp: uj_nextSlot_def Let_def backChar_def)
  qed
  have i1: "inside UJ_N_ARY d0 ?d1" by (rule inside_keeps [OF Cons.prems(2)]) simp_all
  have n1: "nested ?d1" by (rule inside_nested [OF d0 i1]) (use Cons.prems(3) in auto)
  have a1: "ahead ?d1 (json_text v @ ?T @ 93 # rest)"
    by (rule ahead_next [OF a]) auto
  have len: "2 * length (json_text v) \<le> m" "2 * length ?T < m" "json_text v \<noteq> []"
    using Cons.prems(5) n t(1) by (auto simp: tail_text_Cons)
  obtain d2 where d2: "skipValue m ?d1 = Inr ((), d2)" "back_in ?d1 d2"
    "read_pos d2 = read_pos ?d1 + length (json_text v)"
    using skipsD [OF v(2) n1 _ _ a1 _ len(1)] v(3) lv ends_value_tail [of 93] by auto
  have lo: "- 1 \<le> nest_level d0" using d0 by (simp add: nested_def)
  have i2: "inside UJ_N_ARY d0 d2" by (rule inside_back_in [OF i1 d2(2) lo])
  have "0 \<le> nest_level ?d1" "nest_type ?d1 mod 2 \<noteq> UJ_N_OBJ" using lo lv Cons.prems(2)
    by (auto simp: inside_def UJ_N_ARY_def UJ_N_OBJ_def)
  then have x2: "idx d2 = idx d + 1" using d2(2) by (simp add: back_in_def)
  have b2: "jbuf d2 = jbuf ?d1" using d2(2) by (simp add: back_in_def)
  have a2: "ahead d2 (?T @ 93 # rest)" by (rule ahead_next [OF a1 d2(3) b2])
  have p2: "0 \<le> idx d2" "(0 \<le> idx d2) = True" using x2 Cons.prems(3) by auto
  obtain d3 where d3: "skip_slots m d2 = Inr ((), d3)" "inside UJ_N_ARY d0 d3"
    "read_pos d3 = read_pos d2 + length ?T"
    using Cons.IH [OF _ i2, of m] Cons.prems(1) p2 a2 len(2) by auto
  have "skip_slots n d = Inr ((), d3)" using n slot d2(1) d3(1) Cons.prems(3) by simp
  then show ?case using d3 d2(3) by (auto simp: tail_text_Cons)
qed

abbreviation field_text :: "bytes \<times> json \<Rightarrow> bytes" where
  "field_text f \<equiv> 34 # fst f @ 34 # 58 # json_text (snd f)"

text \<open>Reading the name of a field up to its colon.\<close>

lemma uj_nextField_text:
  assumes a: "ahead d ((if fld_name d \<noteq> None then [44] else []) @ 34 # k @ 34 # 58 # t)"
    and k: "unescape k = Some bs" and sk: "skip_mode d"
  shows "\<exists>crc d'. uj_nextField d = Inr (crc, d') \<and> crc \<noteq> 0 \<and> jbuf d' = jbuf d \<and> skip_mode d' = skip_mode d \<and>
    nest_level d' = nest_level d \<and> nest_type d' = nest_type d \<and> nest_stack d' = nest_stack d \<and>
    fld_name d' \<noteq> None \<and> ty d' = UJ_UNDEF \<and>
    read_pos d' = read_pos d + (if fld_name d \<noteq> None then 1 else 0) + length k + 3"
proof -
  let ?k = "if fld_name d \<noteq> None then 1 else 0 :: nat"
  let ?d1 = "d\<lparr>ty := UJ_UNDEF, read_pos := read_pos d + ?k + 1\<rparr>"
  have first: "bnd (skipWsp (d\<lparr>ty := UJ_UNDEF\<rparr>)) (\<lambda>c d. if c = 125 then Inr (0, backChar d) else
       bnd (if fld_name d \<noteq> None then (if c \<noteq> 44 then Inl (UjError ''Expecting a comma'') else skipWsp d)
            else Inr (c, d)) f) = f 34 ?d1" for f :: "nat \<Rightarrow> ujdec \<Rightarrow> ujerr + u4 \<times> ujdec"
  proof (cases "fld_name d")
    case None
    then have "ahead (d\<lparr>ty := UJ_UNDEF\<rparr>) (34 # k @ 34 # 58 # t)" using a by simp
    from skipWsp_here [OF this] None show ?thesis by simp
  next
    case (Some n)
    then have e: "ahead (d\<lparr>ty := UJ_UNDEF\<rparr>) (44 # 34 # k @ 34 # 58 # t)" using a by simp
    have "ahead (d\<lparr>ty := UJ_UNDEF, read_pos := Suc (read_pos d)\<rparr>) (34 # k @ 34 # 58 # t)"
      by (rule ahead_next [where t = "[44]"]) (use e in auto)
    from skipWsp_here [OF this] skipWsp_here [OF e] Some show ?thesis by simp
  qed
  have a1: "ahead ?d1 (k @ 34 # 58 # t)"
    by (rule ahead_next [where t = "(if fld_name d \<noteq> None then [44] else []) @ [34]" and d = d]) (use a in auto)
  have q: "0 < read_pos ?d1" "ch (jbuf ?d1) (read_pos ?d1 - 1) = 34"
    using ahead_ch [OF a, of "?k"] by (auto simp: ch_def split: if_splits)
  note ps = parseString_ok [OF q a1 k]
  let ?c = "UJ_FINISH_CRC (foldl UJ_UPDATE_CRC 0 bs)"
  let ?d2 = "?d1\<lparr>read_pos := read_pos ?d1 + length k + 1, str_beg := read_pos ?d1, str_crc := ?c, str_len := None,
      fld_name := Some (read_pos ?d1), fld_crc := ?c\<rparr>"
  have "ahead ?d2 (58 # t)" by (rule ahead_next [where t = "k @ [34]" and d = ?d1]) (use a1 in auto)
  note colon = skipWsp_here [OF this]
  have "uj_nextField d = Inr (?c, ?d2\<lparr>read_pos := Suc (read_pos ?d2)\<rparr>)"
    unfolding uj_nextField_def first using ps colon sk by (simp add: Let_def)
  moreover have "?c \<noteq> 0" by (simp add: UJ_FINISH_CRC_def)
  ultimately show ?thesis by auto
qed

lemma skip_fields_text:
  assumes "\<forall>f \<in> set fs. unescape (fst f) \<noteq> None \<and> skips (snd f) \<and> nest_level d0 + 1 + int (depth (snd f)) \<le> UJ_MAX_NEST"
    and d0: "nested d0" "nest_level d0 < UJ_MAX_NEST"
    and "inside UJ_N_OBJ d0 d"
    and "ahead d (tail_text (fld_name d \<noteq> None) (map field_text fs) @ 125 # rest)"
    and "2 * length (tail_text (fld_name d \<noteq> None) (map field_text fs)) < n"
  shows "\<exists>d'. skip_fields n d = Inr ((), d') \<and> inside UJ_N_OBJ d0 d' \<and>
    read_pos d' = read_pos d + length (tail_text (fld_name d \<noteq> None) (map field_text fs))"
  using assms(1,4-)
proof (induction fs arbitrary: d n)
  case Nil
  then obtain m where n: "n = Suc m" by (cases n) auto
  have "ahead (d\<lparr>ty := UJ_UNDEF\<rparr>) (125 # rest)" using Nil by simp
  from skipWsp_here [OF this] have "uj_nextField d = Inr (0, d\<lparr>ty := UJ_UNDEF\<rparr>)"
    by (simp add: uj_nextField_def backChar_def)
  then show ?case using Nil.prems n by (auto simp: inside_def)
next
  case (Cons f fs)
  then obtain m where n: "n = Suc m" by (cases n) auto
  obtain k v where f: "f = (k, v)" by (cases f)
  obtain bs where k: "unescape k = Some bs" using Cons.prems(1) f by auto
  have v: "skips v" "nest_level d0 + 1 + int (depth v) \<le> UJ_MAX_NEST" using Cons.prems(1) f by simp_all
  have lv: "nest_level d = nest_level d0 + 1" "skip_mode d"
    using Cons.prems(2) d0(1) by (simp_all add: inside_def nested_def)
  let ?T = "tail_text True (map field_text fs)"
  let ?t = "json_text v @ ?T @ 125 # rest"
  have a: "ahead d ((if fld_name d \<noteq> None then [44] else []) @ 34 # k @ 34 # 58 # ?t)"
    using Cons.prems(3) f by (simp add: tail_text_Cons)
  obtain crc d1 where d1: "uj_nextField d = Inr (crc, d1)" "crc \<noteq> 0" "jbuf d1 = jbuf d" "skip_mode d1 = skip_mode d"
    "nest_level d1 = nest_level d" "nest_type d1 = nest_type d" "nest_stack d1 = nest_stack d"
    "fld_name d1 \<noteq> None" "ty d1 = UJ_UNDEF"
    "read_pos d1 = read_pos d + (if fld_name d \<noteq> None then 1 else 0) + length k + 3"
    using uj_nextField_text [OF a k lv(2)] by blast
  have i1: "inside UJ_N_OBJ d0 d1" by (rule inside_keeps [OF Cons.prems(2) d1(3-7)])
  have n1: "nested d1" by (rule inside_nested [OF d0 i1]) (use d1(8) in auto)
  have a1: "ahead d1 (json_text v @ ?T @ 125 # rest)"
    by (rule ahead_next [where t = "(if fld_name d \<noteq> None then [44] else []) @ 34 # k @ [34, 58]" and d = d])
       (use a d1(3,10) in auto)
  have len: "2 * length (json_text v) \<le> m" "2 * length ?T < m"
    using Cons.prems(4) n f by (auto simp: tail_text_Cons)
  obtain d2 where d2: "skipValue m d1 = Inr ((), d2)" "back_in d1 d2"
    "read_pos d2 = read_pos d1 + length (json_text v)"
    using skipsD [OF v(1) n1 _ d1(9) a1 _ len(1)] v(2) lv d1(5) ends_value_tail [of 125] by auto
  have lo: "- 1 \<le> nest_level d0" using d0 by (simp add: nested_def)
  have i2: "inside UJ_N_OBJ d0 d2" by (rule inside_back_in [OF i1 d2(2) lo])
  have "nest_type d1 = nest_type d0 * 2 + 1" using i1 by (simp add: inside_def UJ_N_OBJ_def)
  then have "nest_type d1 mod 2 = UJ_N_OBJ" unfolding UJ_N_OBJ_def by presburger
  moreover have "0 \<le> nest_level d1" using lo lv(1) d1(5) by simp
  ultimately have x2: "fld_name d2 \<noteq> None" "(fld_name d2 \<noteq> None) = True" using d2(2) d1(8) by (simp_all add: back_in_def)
  have b2: "jbuf d2 = jbuf d1" using d2(2) by (simp add: back_in_def)
  have a2: "ahead d2 (?T @ 125 # rest)" by (rule ahead_next [OF a1 d2(3) b2])
  obtain d3 where d3: "skip_fields m d2 = Inr ((), d3)" "inside UJ_N_OBJ d0 d3"
    "read_pos d3 = read_pos d2 + length ?T"
    using Cons.IH [OF _ i2, of m] Cons.prems(1) x2 a2 len(2) by auto
  have "skip_fields n d = Inr ((), d3)" using n d1(1,2) d2(1) d3(1) by simp
  then show ?case using d3 d2(3) d1(10) f by (auto simp: tail_text_Cons)
qed

lemma depth_less:
  assumes "l + int (Suc (Max (insert 0 (f ` S)))) \<le> m" and "finite S"
  shows "l < m" and "\<And>x. x \<in> S \<Longrightarrow> l + 1 + int (f x) \<le> m"
proof -
  show "l < m" using assms(1) by simp
  fix x assume "x \<in> S"
  then have "f x \<le> Max (insert 0 (f ` S))" using assms(2) by (intro Max_ge) auto
  then show "l + 1 + int (f x) \<le> m" using assms(1) by simp
qed

text \<open>A container, given the loop over its elements.\<close>

lemma skips_container:
  assumes t: "json_text v = ob # tail_text False ts @ [cb]"
    and ob: "(ob, cb, what) = (91, 93, UJ_N_ARY) \<or> (ob, cb, what) = (123, 125, UJ_N_OBJ)"
    and loop: "\<And>d d1 rest m. nested d \<Longrightarrow> nest_level d + int (depth v) \<le> UJ_MAX_NEST \<Longrightarrow> inside what d d1 \<Longrightarrow>
      (if what = UJ_N_ARY then idx d1 = - 1 else fld_name d1 = None) \<Longrightarrow>
      ahead d1 (tail_text False ts @ cb # rest) \<Longrightarrow> 2 * length (tail_text False ts) < m \<Longrightarrow>
      \<exists>d2. (if what = UJ_N_ARY then skip_slots m d1 else skip_fields m d1) = Inr ((), d2) \<and> inside what d d2 \<and>
        read_pos d2 = read_pos d1 + length (tail_text False ts)"
    and dp: "0 < depth v"
  shows "skips v"
  unfolding skips_def
proof (intro allI impI)
  fix d rest n
  assume d: "nested d" "nest_level d + int (depth v) \<le> UJ_MAX_NEST" "ty d = UJ_UNDEF"
    and a: "ahead d (json_text v @ rest)" and "ends_value rest" and n: "2 * length (json_text v) \<le> n"
  obtain m where m: "n = Suc m" "2 * length (tail_text False ts) < m" using n t by (cases n) auto
  have obc: "ob \<notin> {9, 13, 10, 32, 47}" "cb \<notin> {9, 13, 10, 32, 47}" "what = UJ_N_ARY \<or> what = UJ_N_OBJ" using ob by auto
  have a1: "ahead d (ob # tail_text False ts @ cb # rest)" using a t by simp
  let ?d1 = "d\<lparr>val_pos := read_pos d, ty := if what = UJ_N_ARY then UJ_ARRAY else UJ_OBJECT\<rparr>"
  have neq: "UJ_N_ARY \<noteq> UJ_N_OBJ" by (simp add: UJ_N_ARY_def UJ_N_OBJ_def)
  have nv: "uj_nextValue d = Inr (ty ?d1, ?d1)"
  proof (cases "what = UJ_N_ARY")
    case True
    then have "ob = 91" using ob neq by auto
    then show ?thesis using uj_nextValue_at [OF a1 obc(1) d(3)] True by (simp add: Let_def backChar_def)
  next
    case False
    then have "ob = 123" using ob by auto
    then show ?thesis using uj_nextValue_at [OF a1 obc(1) d(3)] False by (simp add: Let_def backChar_def)
  qed
  have n1: "nested ?d1" using d(1) by (simp add: nested_def)
  have lv: "nest_level ?d1 < UJ_MAX_NEST" using d(2) dp by simp
  have a1': "ahead ?d1 (ob # tail_text False ts @ cb # rest)" using a1 by simp
  obtain d2 where d2: "do_enter what ob (if what = UJ_N_ARY then ''Expecting an array'' else ''Expecting an object'') ?d1 = Inr ((), d2)"
    "inside what ?d1 d2" "read_pos d2 = Suc (read_pos ?d1)" using do_enter_ok [OF n1 lv a1' obc(1,3)] by blast
  let ?d3 = "if what = UJ_N_ARY then d2\<lparr>idx := - 1\<rparr> else d2\<lparr>fld_name := None, fld_crc := 0\<rparr>"
  have i3: "inside what d ?d3" using d2(2) by (auto simp: inside_def)
  have a3: "ahead ?d3 (tail_text False ts @ cb # rest)"
    by (rule ahead_next [where t = "[ob]" and d = d]) (use a1 d2 in \<open>auto simp: inside_def\<close>)
  have c3: "if what = UJ_N_ARY then idx ?d3 = - 1 else fld_name ?d3 = None" by simp
  obtain d4 where d4: "(if what = UJ_N_ARY then skip_slots m ?d3 else skip_fields m ?d3) = Inr ((), d4)" "inside what d d4"
    "read_pos d4 = read_pos ?d3 + length (tail_text False ts)"
    using loop [OF d(1,2) i3 c3 a3 m(2)] by blast
  have a4: "ahead d4 (cb # rest)"
    by (rule ahead_next [OF a3 d4(3)]) (use i3 d4(2) in \<open>simp add: inside_def\<close>)
  obtain d5 where d5: "do_exit what cb (if what = UJ_N_ARY then ''Expecting a closing ]'' else ''Expecting a closing }'') d4 = Inr ((), d5)"
    "back_in d d5" "read_pos d5 = Suc (read_pos d4)" using do_exit_ok [OF d(1) d4(2) a4 obc(2,3)] by blast
  have "skipValue n d = Inr ((), d5)"
  proof (cases "what = UJ_N_ARY")
    case True
    then have "ob = 91" "cb = 93" using ob neq by auto
    then show ?thesis using nv d2(1) d4(1) d5(1) m(1) True by (simp add: uj_enterArray_def uj_exitArray_def)
  next
    case False
    then have "ob = 123" "cb = 125" "what = UJ_N_OBJ" using ob by auto
    then show ?thesis using nv d2(1) d4(1) d5(1) m(1) False by (simp add: uj_enterObject_def uj_exitObject_def)
  qed
  moreover have "read_pos d5 = read_pos d + length (json_text v)" using d5(3) d4(3) d2(3) t by simp
  ultimately show "\<exists>d'. skipValue n d = Inr ((), d') \<and> back_in d d' \<and> read_pos d' = read_pos d + length (json_text v)"
    using d5(2) by blast
qed

lemma skips_scalar:
  assumes "scalar v" and "json_ok v"
  shows "skips v"
  unfolding skips_def
proof (intro allI impI)
  fix d rest n
  assume d: "nested d" "ty d = UJ_UNDEF" "ahead d (json_text v @ rest)" "ends_value rest" "2 * length (json_text v) \<le> n"
  obtain c t where "json_text v = c # t" using json_text_head [OF assms(2)] by blast
  then obtain m where m: "n = Suc m" using d(5) by (cases n) auto
  have "skip_mode d" using d(1) by (simp add: nested_def)
  then obtain t d' where "uj_nextValue d = Inr (t, d')" "same_ctx d d'" "read_pos d' = read_pos d + length (json_text v)"
    "ty d' \<noteq> UJ_OBJECT" "ty d' \<noteq> UJ_ARRAY" using uj_nextValue_scalar [OF assms d(3,4,2)] by blast
  then show "\<exists>d'. skipValue n d = Inr ((), d') \<and> back_in d d' \<and> read_pos d' = read_pos d + length (json_text v)"
    using m same_ctx_back_in by auto
qed

lemma skips_json: "json_ok v \<Longrightarrow> skips v"
proof (induction v)
  case (JArr vs)
  have el: "\<forall>v \<in> set vs. skips v \<and> json_ok v" using JArr by auto
  show ?case
  proof (rule skips_container [where ts = "map json_text vs" and ob = 91 and cb = 93 and what = UJ_N_ARY])
    show "json_text (JArr vs) = 91 # tail_text False (map json_text vs) @ [93]" by (simp add: tail_text_def)
    fix d d1 rest m
    assume h: "nested d" "nest_level d + int (depth (JArr vs)) \<le> UJ_MAX_NEST" "inside UJ_N_ARY d d1"
      "if UJ_N_ARY = UJ_N_ARY then idx d1 = - 1 else fld_name d1 = None"
      "ahead d1 (tail_text False (map json_text vs) @ 93 # rest)" "2 * length (tail_text False (map json_text vs)) < m"
    note dl = depth_less [OF h(2) [unfolded depth.simps] finite_set]
    have x: "(0 \<le> idx d1) = False" "- 1 \<le> idx d1" using h(4) by simp_all
    show "\<exists>d2. (if UJ_N_ARY = UJ_N_ARY then skip_slots m d1 else skip_fields m d1) = Inr ((), d2) \<and>
        inside UJ_N_ARY d d2 \<and> read_pos d2 = read_pos d1 + length (tail_text False (map json_text vs))"
      using skip_slots_text [OF _ h(1) dl(1) h(3) x(2), of vs rest m] el dl(2) h(5,6) unfolding x(1) by simp
  qed simp_all
next
  case (JObj fs)
  have el: "\<forall>f \<in> set fs. unescape (fst f) \<noteq> None \<and> skips (snd f)" using JObj by fastforce
  have neq: "UJ_N_OBJ \<noteq> UJ_N_ARY" by (simp add: UJ_N_ARY_def UJ_N_OBJ_def)
  show ?case
  proof (rule skips_container [where ts = "map field_text fs" and ob = 123 and cb = 125 and what = UJ_N_OBJ])
    have "(\<lambda>(k, v). 34 # k @ 34 # 58 # json_text v) = field_text" by (auto simp: fun_eq_iff)
    then show "json_text (JObj fs) = 123 # tail_text False (map field_text fs) @ [125]" by (simp add: tail_text_def)
    fix d d1 rest m
    assume h: "nested d" "nest_level d + int (depth (JObj fs)) \<le> UJ_MAX_NEST" "inside UJ_N_OBJ d d1"
      "if UJ_N_OBJ = UJ_N_ARY then idx d1 = - 1 else fld_name d1 = None"
      "ahead d1 (tail_text False (map field_text fs) @ 125 # rest)" "2 * length (tail_text False (map field_text fs)) < m"
    have e: "(\<lambda>(k, v). depth v) = (\<lambda>f. depth (snd f))" by (auto simp: fun_eq_iff)
    note dl = depth_less [OF h(2) [unfolded depth.simps e] finite_set]
    have x: "(fld_name d1 \<noteq> None) = False" using h(4) neq by simp
    show "\<exists>d2. (if UJ_N_OBJ = UJ_N_ARY then skip_slots m d1 else skip_fields m d1) = Inr ((), d2) \<and>
        inside UJ_N_OBJ d d2 \<and> read_pos d2 = read_pos d1 + length (tail_text False (map field_text fs))"
      using skip_fields_text [OF _ h(1) dl(1) h(3), of fs rest m] el dl(2) h(5,6) neq unfolding x by simp
  qed simp_all
qed (auto intro: skips_scalar)

end
