(* ===== verification/UjTotal.thy ===== *)
theory UjTotal
  imports UjText
begin

text \<open>
  The decoder on arbitrary input, malformed or not: every scanner moves forward inside the buffer,
  and skipping a value needs a number of calls that is linear in the text that is left.
\<close>

section \<open>Progress of the scanners\<close>

lemma bndE:
  assumes "bnd m f = Inr r"
  obtains x s where "m = Inr (x, s)" "f x s = Inr r"
  using assms by (auto simp: bnd_def split: sum.splits)

definition forth :: "nat \<Rightarrow> ujdec \<Rightarrow> ujdec \<Rightarrow> bool" where
  "forth k d d' \<longleftrightarrow> length (jbuf d') = length (jbuf d) \<and> read_pos d + k \<le> read_pos d'"

lemma forth_trans: "forth j d d' \<Longrightarrow> forth k d' d'' \<Longrightarrow> i \<le> j + k \<Longrightarrow> forth i d d''"
  by (simp add: forth_def)

lemma forth_same: "jbuf d' = jbuf d \<Longrightarrow> read_pos d' = read_pos d + k \<Longrightarrow> forth k d d'"
  by (simp add: forth_def)

text \<open>A character other than the end was read at a position of the buffer.\<close>

lemma skipWsp_forth:
  assumes "skipWsp d = Inr (c, d')"
  shows "forth 1 d d'" and "jbuf d' = jbuf d" and "ty d' = ty d" and "c = ch (jbuf d) (read_pos d' - 1)"
    and "c \<noteq> 0 \<Longrightarrow> read_pos d' \<le> length (jbuf d)"
proof -
  obtain p where p: "skip_wsp (jbuf d) (read_pos d) = Inr (c, p)" "d' = d\<lparr>read_pos := p\<rparr>"
    using assms by (auto simp: skipWsp_def split: sum.splits)
  note st = skip_wsp_step [OF p(1)]
  then show "forth 1 d d'" "jbuf d' = jbuf d" "ty d' = ty d" "c = ch (jbuf d) (read_pos d' - 1)"
    using p(2) by (simp_all add: forth_def)
  show "read_pos d' \<le> length (jbuf d)" if "c \<noteq> 0"
    using that st p(2) ch_nonzero [of "jbuf d" "p - 1"] by simp
qed

lemma dec_digits_pos: "dec_digits s p v n = (v', n', c, q) \<Longrightarrow> n \<le> n' \<and> q = p + (n' - n) + 1"
proof (induction s p v n rule: dec_digits.induct)
  case (1 s p v n)
  show ?case
  proof (cases "48 \<le> ch s p \<and> ch s p \<le> 57")
    case True
    then have "dec_digits s (Suc p) ((v * 10 + ch s p - 48) mod 2 ^ 64) (n + 1) = (v', n', c, q)"
      using 1(2) by (subst (asm) dec_digits.simps) (simp add: Let_def)
    from 1(1) [OF refl True this] show ?thesis by auto
  next
    case False
    then show ?thesis using 1(2) by (subst (asm) dec_digits.simps) (auto simp: Let_def)
  qed
qed

lemma decDigits_forth:
  assumes "decDigits d = Inr (r, d')"
  shows "forth 2 d d'" and "jbuf d' = jbuf d"
proof -
  obtain v n c p where q: "dec_digits (jbuf d) (read_pos d) 0 0 = (v, n, c, p)" by (cases "dec_digits (jbuf d) (read_pos d) 0 0")
  then have "n \<noteq> 0" "d' = d\<lparr>read_pos := p\<rparr>" using assms by (auto simp: decDigits_def split: if_splits)
  then show "forth 2 d d'" "jbuf d' = jbuf d" using dec_digits_pos [OF q] by (simp_all add: forth_def)
qed

lemma parse_exp_forth:
  assumes "parse_exp d = Inr (r, d')"
  shows "forth 2 d d'" and "jbuf d' = jbuf d"
proof -
  let ?c = "ch (jbuf d) (read_pos d)"
  let ?d = "if ?c = 45 \<or> ?c = 43 then d\<lparr>read_pos := Suc (read_pos d)\<rparr> else d"
  have "\<exists>r. decDigits ?d = Inr (r, d')"
    using assms by (auto simp: parse_exp_def nextChar_def Let_def backChar_def split: if_splits)
  then obtain r' where r: "decDigits ?d = Inr (r', d')" ..
  have "forth 0 d ?d" by (simp add: forth_def)
  then show "forth 2 d d'" using decDigits_forth(1) [OF r] by (rule forth_trans) simp
  show "jbuf d' = jbuf d" using decDigits_forth(2) [OF r] by (simp split: if_splits)
qed

lemma parseNumber_forth:
  assumes "parseNumber sg d = Inr (r, d')"
  shows "forth 1 d d'"
proof -
  obtain p1 d1 where 1: "decDigits d = Inr (p1, d1)"
    using assms unfolding parseNumber_def by (rule bndE)
  obtain v n c where p1: "p1 = (v, n, c)" by (cases p1)
  note A = assms [unfolded parseNumber_def bnd_eq [OF 1] p1 prod.case]
  obtain p2 d2 where 2: "(if c = 46 then decDigits d1 else Inr ((0, 0, c), d1)) = Inr (p2, d2)"
    using A by (rule bndE)
  obtain fr nf c2 where p2: "p2 = (fr, nf, c2)" by (cases p2)
  note B = A [unfolded bnd_eq [OF 2] p2 prod.case]
  obtain p3 d3 where 3: "(if c2 = 101 \<or> c2 = 69 then parse_exp d2 else Inr ((0, 0), d2)) = Inr (p3, d3)"
    using B by (rule bndE)
  obtain x ex where p3: "p3 = (x, ex)" by (cases p3)
  note C = B [unfolded bnd_eq [OF 3] p3 prod.case]
  have e: "jbuf d' = jbuf d3" "read_pos d' = read_pos d3 - 1"
    using C by (auto simp: Let_def backChar_def split: if_splits)
  have f1: "forth 2 d d1" "jbuf d1 = jbuf d" using decDigits_forth [OF 1] by simp_all
  have "decDigits d1 = Inr (p2, d2) \<or> d2 = d1" using 2 by (simp split: if_splits)
  then have f2: "forth 0 d1 d2 \<and> jbuf d2 = jbuf d1"
  proof
    assume h: "decDigits d1 = Inr (p2, d2)"
    show ?thesis using decDigits_forth(1) [OF h] decDigits_forth(2) [OF h] by (simp add: forth_def)
  qed (simp add: forth_def)
  have "parse_exp d2 = Inr (p3, d3) \<or> d3 = d2" using 3 by (simp split: if_splits)
  then have f3: "forth 0 d2 d3 \<and> jbuf d3 = jbuf d2"
  proof
    assume h: "parse_exp d2 = Inr (p3, d3)"
    show ?thesis using parse_exp_forth(1) [OF h] parse_exp_forth(2) [OF h] by (simp add: forth_def)
  qed (simp add: forth_def)
  have "read_pos d + 2 \<le> read_pos d3" using f1(1) f2 f3 by (auto simp: forth_def)
  then have "read_pos d + 1 \<le> read_pos d3 - 1" by arith
  then show ?thesis using f1(2) f2 f3 e by (simp add: forth_def)
qed

lemma str_loop_forth: "str_loop s wp p crc = Inr (s', wp', q, crc') \<Longrightarrow> length s' = length s \<and> p < q"
proof (induction s wp p crc rule: str_loop.induct)
  case (1 s wp p crc)
  obtain r m where c: "str_char s p = Inr (r, m)"
    using 1(2) by (subst (asm) str_loop.simps) (auto split: sum.splits)
  note st = str_char_pos [OF c]
  show ?case
  proof (cases r)
    case None
    then show ?thesis using 1(2) c st by (subst (asm) str_loop.simps) (auto split: option.splits)
  next
    case (Some bs)
    have "str_loop (case wp of None \<Rightarrow> s | Some w \<Rightarrow> put_bytes w bs s) (map_option (\<lambda>w. w + length bs) wp) m
        (foldl UJ_UPDATE_CRC crc bs) = Inr (s', wp', q, crc')"
      using 1(2) c Some by (subst (asm) str_loop.simps) simp
    from 1(1) [OF c refl Some this] st show ?thesis by (auto split: option.splits)
  qed
qed

lemma parseString_forth:
  assumes "parseString d = Inr (r, d')"
  shows "forth 1 d d'" and "ty d' = ty d" and "str_crc d' \<noteq> 0"
  using assms by (auto simp: parseString_def Let_def forth_def UJ_FINISH_CRC_def split: if_splits sum.splits dest!: str_loop_forth)

lemma next_lit_forth: "next_lit s p cs = Inr q \<Longrightarrow> p < q"
  by (induction s p cs rule: next_lit.induct) (auto split: if_splits)

lemma nextLit_forth: "nextLit lit d = Inr (r, d') \<Longrightarrow> forth 1 d d'"
  by (auto simp: nextLit_def forth_def split: sum.splits dest!: next_lit_forth)

section \<open>Progress of the operations\<close>

text \<open>What is left of the text.\<close>

definition left_over :: "ujdec \<Rightarrow> nat" where
  "left_over d = length (jbuf d) - read_pos d"

lemma forth_left: "forth k d d' \<Longrightarrow> left_over d' \<le> left_over d - k"
  by (auto simp: forth_def left_over_def)

lemma uj_nextValue_forth:
  assumes "uj_nextValue d = Inr (t, d')"
  shows "left_over d' \<le> left_over d" and "ty d' = t"
    and "ty d = UJ_UNDEF \<Longrightarrow> t \<noteq> UJ_OBJECT \<Longrightarrow> t \<noteq> UJ_ARRAY \<Longrightarrow> left_over d' < left_over d"
proof -
  have "left_over d' \<le> left_over d \<and> ty d' = t \<and>
      (ty d = UJ_UNDEF \<longrightarrow> t \<noteq> UJ_OBJECT \<longrightarrow> t \<noteq> UJ_ARRAY \<longrightarrow> left_over d' < left_over d)"
  proof (cases "ty d = UJ_UNDEF")
    case False
    then show ?thesis using assms by (auto simp: uj_nextValue_def)
  next
    case True
    obtain c d1 where sk: "skipWsp d = Inr (c, d1)"
      using assms True unfolding uj_nextValue_def by (auto elim: bndE)
    note s = skipWsp_forth [OF sk]
    let ?d1 = "d1\<lparr>val_pos := read_pos d1 - 1\<rparr>"
    define m where "m = (if c = 0 then Inl (UjError ''Unexpected EOF'')
             else if c = 34 then parseString (?d1\<lparr>ty := UJ_STRING\<rparr>)
             else if c = 45 then parseNumber (- 1) ?d1
             else if 48 \<le> c \<and> c \<le> 57 then parseNumber 1 (backChar ?d1)
             else if c = 116 then bnd (nextLit ''rue'' ?d1) (\<lambda>_ d. Inr ((), d\<lparr>ty := UJ_BOOL, num := 1\<rparr>))
             else if c = 102 then bnd (nextLit ''alse'' ?d1) (\<lambda>_ d. Inr ((), d\<lparr>ty := UJ_BOOL, num := 0\<rparr>))
             else if c = 110 then bnd (nextLit ''ull'' ?d1) (\<lambda>_ d. Inr ((), d\<lparr>ty := UJ_NULL, num := 0\<rparr>))
             else if c = 123 then Inr ((), backChar (?d1\<lparr>ty := UJ_OBJECT\<rparr>))
             else if c = 91 then Inr ((), backChar (?d1\<lparr>ty := UJ_ARRAY\<rparr>))
             else Inl (UjError ''Syntax error''))"
    have "bnd m (\<lambda>_ d. Inr (ty d, d)) = Inr (t, d')"
      using assms True sk unfolding uj_nextValue_def m_def Let_def by simp
    then obtain u where m: "m = Inr (u, d')" and t: "ty d' = t" by (auto elim: bndE)
    have c: "c \<noteq> 0"
    proof
      assume "c = 0"
      then have "m = Inl (UjError ''Unexpected EOF'')" by (simp add: m_def)
      then show False using m by simp
    qed
    have lo: "read_pos d1 \<le> length (jbuf d)" "read_pos d < read_pos d1" "jbuf d1 = jbuf d"
      using s c by (simp_all add: forth_def)
    have lit: "forth 1 ?d1 d'" if "bnd (nextLit l ?d1) (\<lambda>_ d. Inr ((), d\<lparr>ty := a, num := b\<rparr>)) = Inr (u, d')" for l a b
      using that by (elim bndE) (auto dest!: nextLit_forth simp: forth_def)
    have "forth 1 ?d1 d' \<or> forth 1 (backChar ?d1) d' \<or>
        (ty d' = UJ_OBJECT \<or> ty d' = UJ_ARRAY) \<and> jbuf d' = jbuf d1 \<and> read_pos d' = read_pos d1 - 1"
    proof -
      consider "c = 34" | "c = 45" | "48 \<le> c \<and> c \<le> 57" | "c = 116" | "c = 102" | "c = 110" | "c = 123" | "c = 91" |
        "m = Inl (UjError ''Syntax error'')" using c unfolding m_def by presburger
      then show ?thesis
      proof cases
        case 1
        then have "parseString (?d1\<lparr>ty := UJ_STRING\<rparr>) = Inr (u, d')" using m by (simp add: m_def)
        from parseString_forth(1) [OF this] show ?thesis by (simp add: forth_def)
      next
        case 2
        then have "parseNumber (- 1) ?d1 = Inr (u, d')" using m by (simp add: m_def)
        from parseNumber_forth [OF this] show ?thesis by simp
      next
        case 3
        then have "parseNumber 1 (backChar ?d1) = Inr (u, d')" using m by (simp add: m_def)
        from parseNumber_forth [OF this] show ?thesis by simp
      next
        case 4
        then have "m = bnd (nextLit ''rue'' ?d1) (\<lambda>_ d. Inr ((), d\<lparr>ty := UJ_BOOL, num := 1\<rparr>))" by (simp add: m_def)
        from lit [OF m [unfolded this]] show ?thesis by simp
      next
        case 5
        then have "m = bnd (nextLit ''alse'' ?d1) (\<lambda>_ d. Inr ((), d\<lparr>ty := UJ_BOOL, num := 0\<rparr>))" by (simp add: m_def)
        from lit [OF m [unfolded this]] show ?thesis by simp
      next
        case 6
        then have "m = bnd (nextLit ''ull'' ?d1) (\<lambda>_ d. Inr ((), d\<lparr>ty := UJ_NULL, num := 0\<rparr>))" by (simp add: m_def)
        from lit [OF m [unfolded this]] show ?thesis by simp
      next
        case 7
        then show ?thesis using m by (auto simp: m_def backChar_def)
      next
        case 8
        then show ?thesis using m by (auto simp: m_def backChar_def)
      next
        case 9
        then show ?thesis using m by simp
      qed
    qed
    then have "left_over d' < left_over d \<or> (ty d' = UJ_OBJECT \<or> ty d' = UJ_ARRAY) \<and> left_over d' \<le> left_over d"
      using lo by (auto simp: forth_def left_over_def backChar_def)
    then show ?thesis using t by auto
  qed
  then show "left_over d' \<le> left_over d" "ty d' = t"
    "ty d = UJ_UNDEF \<Longrightarrow> t \<noteq> UJ_OBJECT \<Longrightarrow> t \<noteq> UJ_ARRAY \<Longrightarrow> left_over d' < left_over d" by auto
qed

lemma enter_forth:
  assumes "do_enter what b e d = Inr (u, d')" and b: "b \<noteq> 0"
  shows "left_over d' < left_over d" and "ty d' = ty d"
proof -
  obtain c d1 where sk: "skipWsp d = Inr (c, d1)" using assms(1) unfolding do_enter_def by (auto elim: bndE)
  note s = skipWsp_forth [OF sk]
  have c: "c = b" and r: "jbuf d' = jbuf d1 \<and> read_pos d' = read_pos d1 \<and> ty d' = ty d1"
    using assms(1) sk unfolding do_enter_def by (auto simp: Let_def split: if_splits option.splits)
  then have "read_pos d' \<le> length (jbuf d)" "read_pos d < read_pos d'" using s b by (simp_all add: forth_def)
  then show "left_over d' < left_over d" "ty d' = ty d" using r s by (simp_all add: left_over_def)
qed

lemma exit_forth:
  assumes "do_exit what b e d = Inr (u, d')"
  shows "left_over d' \<le> left_over d" and "ty d' = UJ_UNDEF"
proof -
  obtain c d1 where sk: "skipWsp d = Inr (c, d1)" using assms unfolding do_exit_def
    by (auto elim: bndE split: if_splits)
  note s = skipWsp_forth [OF sk]
  have "jbuf d' = jbuf d1 \<and> read_pos d' = read_pos d1 \<and> ty d' = UJ_UNDEF"
    using assms sk unfolding do_exit_def by (auto simp: Let_def split: if_splits)
  then show "left_over d' \<le> left_over d" "ty d' = UJ_UNDEF" using s by (simp_all add: left_over_def forth_def)
qed

lemma nextSlot_forth:
  assumes "uj_nextSlot d = Inr (i, d')"
  shows "left_over d' \<le> left_over d" and "ty d' = UJ_UNDEF"
proof -
  obtain c d1 where sk: "skipWsp (d\<lparr>ty := UJ_UNDEF\<rparr>) = Inr (c, d1)" using assms unfolding uj_nextSlot_def
    by (auto elim: bndE)
  note s = skipWsp_forth [OF sk]
  have "jbuf d' = jbuf d1 \<and> (read_pos d' = read_pos d1 \<or> read_pos d' = read_pos d1 - 1) \<and> ty d' = ty d1"
    using assms sk unfolding uj_nextSlot_def by (auto simp: Let_def backChar_def split: if_splits)
  then show "left_over d' \<le> left_over d" "ty d' = UJ_UNDEF" using s by (auto simp: left_over_def forth_def)
qed

lemma nextField_forth:
  assumes "uj_nextField d = Inr (crc, d')"
  shows "left_over d' \<le> left_over d" and "crc \<noteq> 0 \<Longrightarrow> left_over d' < left_over d" and "ty d' = UJ_UNDEF"
proof -
  obtain c d1 where sk: "skipWsp (d\<lparr>ty := UJ_UNDEF\<rparr>) = Inr (c, d1)" using assms unfolding uj_nextField_def
    by (auto elim: bndE)
  note s = skipWsp_forth [OF sk]
  note A = assms [unfolded uj_nextField_def bnd_eq [OF sk]]
  have "left_over d' \<le> left_over d \<and> (crc \<noteq> 0 \<longrightarrow> left_over d' < left_over d) \<and> ty d' = UJ_UNDEF"
  proof (cases "c = 125")
    case True
    then have "crc = 0" "d' = backChar d1" using A by simp_all
    then show ?thesis using s by (auto simp: backChar_def left_over_def forth_def)
  next
    case False
    note B = A [unfolded if_not_P [OF False]]
    obtain c2 d2 where m: "(if fld_name d1 \<noteq> None then (if c \<noteq> 44 then Inl (UjError ''Expecting a comma'') else skipWsp d1)
        else Inr (c, d1)) = Inr (c2, d2)" using B by (rule bndE)
    note C = B [unfolded bnd_eq [OF m]]
    have c2: "c2 = 34" using C by (auto split: if_splits)
    have "skipWsp d1 = Inr (c2, d2) \<or> d2 = d1 \<and> c2 = c" using m by (auto split: if_splits)
    then have f2: "read_pos d2 \<le> length (jbuf d) \<and> read_pos d < read_pos d2 \<and> jbuf d2 = jbuf d \<and> ty d2 = UJ_UNDEF"
    proof
      assume h: "skipWsp d1 = Inr (c2, d2)"
      show ?thesis using skipWsp_forth [OF h] s c2 by (simp add: forth_def)
    next
      assume "d2 = d1 \<and> c2 = c"
      then show ?thesis using s c2 by (simp add: forth_def)
    qed
    obtain u d3 where ps: "parseString d2 = Inr (u, d3)" using C c2 by (auto elim: bndE)
    obtain c4 d4 where sk4: "skipWsp (d3\<lparr>fld_name := Some (str_beg d3), fld_crc := str_crc d3\<rparr>) = Inr (c4, d4)"
      using C c2 ps by (auto elim: bndE simp: Let_def)
    have d': "d' = d4" using C c2 ps sk4 by (auto simp: Let_def split: if_splits)
    have p4: "read_pos d2 + 2 \<le> read_pos d4" "length (jbuf d4) = length (jbuf d)" "ty d4 = UJ_UNDEF"
      using f2 parseString_forth [OF ps] skipWsp_forth(1-3) [OF sk4] by (simp_all add: forth_def)
    then have "left_over d4 < left_over d" using f2 unfolding left_over_def p4(2) by linarith
    then show ?thesis using p4(3) unfolding d' by simp
  qed
  then show "left_over d' \<le> left_over d" "crc \<noteq> 0 \<Longrightarrow> left_over d' < left_over d" "ty d' = UJ_UNDEF" by blast+
qed

section \<open>Skipping always comes to an end\<close>

lemma skip_forth:
  "skipValue n d = Inr (u, d') \<Longrightarrow> left_over d' \<le> left_over d \<and> (ty d = UJ_UNDEF \<longrightarrow> left_over d' < left_over d)"
  "skip_fields n d = Inr (u, d') \<Longrightarrow> left_over d' \<le> left_over d"
  "skip_slots n d = Inr (u, d') \<Longrightarrow> left_over d' \<le> left_over d"
proof (induction n d and n d and n d arbitrary: u d' and u d' and u d' rule: skipValue_skip_fields_skip_slots.induct)
  case (2 n d)
  obtain t d1 where nv: "uj_nextValue d = Inr (t, d1)" using "2.prems" by (auto elim: bndE)
  note v = uj_nextValue_forth [OF nv]
  have t: "ty d1 = t" using v(2) .
  show ?case
  proof (cases "t = UJ_OBJECT")
    case True
    then obtain a b c e f where e: "uj_enterObject d1 = Inr (a, b)" "skip_fields n b = Inr (c, e)" "uj_exitObject e = Inr (f, d')"
      using "2.prems" nv t by auto
    obtain d2 where "do_enter UJ_N_OBJ 123 ''Expecting an object'' d1 = Inr ((), d2)" "b = d2\<lparr>fld_name := None, fld_crc := 0\<rparr>"
      using e(1) by (auto simp: uj_enterObject_def)
    then have "left_over b < left_over d1" using enter_forth [of UJ_N_OBJ 123] by (auto simp: left_over_def)
    moreover have "left_over e \<le> left_over b" using "2.IH"(1) [OF nv _ e(1,2)] True t by simp
    moreover have "left_over d' \<le> left_over e" using e(3) exit_forth unfolding uj_exitObject_def by blast
    ultimately show ?thesis using v(1) by simp
  next
    case no: False
    show ?thesis
    proof (cases "t = UJ_ARRAY")
      case True
      then obtain a b c e f where e: "uj_enterArray d1 = Inr (a, b)" "skip_slots n b = Inr (c, e)" "uj_exitArray e = Inr (f, d')"
        using "2.prems" nv t by auto
      obtain d2 where "do_enter UJ_N_ARY 91 ''Expecting an array'' d1 = Inr ((), d2)" "b = d2\<lparr>idx := - 1\<rparr>"
        using e(1) by (auto simp: uj_enterArray_def)
      then have "left_over b < left_over d1" using enter_forth [of UJ_N_ARY 91] by (auto simp: left_over_def)
      moreover have "left_over e \<le> left_over b" using "2.IH"(2) [OF nv _ _ e(1,2)] True no t by simp
      moreover have "left_over d' \<le> left_over e" using e(3) exit_forth unfolding uj_exitArray_def by blast
      ultimately show ?thesis using v(1) by simp
    next
      case False
      then have "d' = d1" using "2.prems" nv t no by simp
      then show ?thesis using v no False by simp
    qed
  qed
next
  case (4 n d)
  obtain c d1 where nf: "uj_nextField d = Inr (c, d1)" using "4.prems" by (auto elim: bndE)
  note v = nextField_forth [OF nf]
  show ?case
  proof (cases "c = 0")
    case False
    then obtain a d2 where e: "skipValue n d1 = Inr (a, d2)" "skip_fields n d2 = Inr (u, d')" using "4.prems" nf by auto
    show ?thesis using "4.IH"(1) [OF nf _ e(1)] "4.IH"(2) [OF nf _ e(1,2)] False v by simp
  qed (use "4.prems" nf v in simp)
next
  case (6 n d)
  obtain c d1 where nf: "uj_nextSlot d = Inr (c, d1)" using "6.prems" by (auto elim: bndE)
  note v = nextSlot_forth [OF nf]
  show ?case
  proof (cases "c \<ge> 0")
    case True
    then obtain a d2 where e: "skipValue n d1 = Inr (a, d2)" "skip_slots n d2 = Inr (u, d')" using "6.prems" nf by auto
    show ?thesis using "6.IH"(1) [OF nf _ e(1)] "6.IH"(2) [OF nf _ e(1,2)] True v by simp
  qed (use "6.prems" nf v in simp)
qed simp_all

text \<open>No scanner runs out of calls by itself.\<close>

lemma nofuel_bnd: "m \<noteq> Inl UjFuel \<Longrightarrow> (\<And>x s. m = Inr (x, s) \<Longrightarrow> f x s \<noteq> Inl UjFuel) \<Longrightarrow> bnd m f \<noteq> Inl UjFuel"
  by (auto simp: bnd_def split: sum.splits)

lemma bnd_Inl: "bnd m f = Inl e \<longleftrightarrow> m = Inl e \<or> (\<exists>x s. m = Inr (x, s) \<and> f x s = Inl e)"
  by (auto simp: bnd_def split: sum.splits)

lemma nofuel_comment: "skip_comment s p d \<noteq> Inl UjFuel"
proof (induction s p d rule: skip_comment.induct)
  case (1 s p d)
  then show ?case by (subst skip_comment.simps) (simp add: Let_def)
qed

lemma nofuel_wsp: "skip_wsp s p \<noteq> Inl UjFuel"
proof (induction s p rule: skip_wsp.induct)
  case (1 s p)
  then show ?case using nofuel_comment [of s "p + 2" 0] by (subst skip_wsp.simps) (auto simp: Let_def split: sum.splits)
qed

lemma nofuel_skipWsp [simp]: "skipWsp d \<noteq> Inl UjFuel"
  using nofuel_wsp [of "jbuf d" "read_pos d"] by (auto simp: skipWsp_def split: sum.splits)

lemma nofuel_str_char: "str_char s p \<noteq> Inl UjFuel"
proof -
  have "esc_unicode s (p + 2) \<noteq> Inl UjFuel" by (simp add: esc_unicode_def Let_def)
  then show ?thesis by (auto simp: str_char_def Let_def split: sum.splits)
qed

lemma nofuel_str_loop: "str_loop s wp p crc \<noteq> Inl UjFuel"
proof (induction s wp p crc rule: str_loop.induct)
  case (1 s wp p crc)
  then show ?case using nofuel_str_char [of s p]
    by (subst str_loop.simps) (auto split: sum.splits option.splits)
qed

lemma nofuel_parseString [simp]: "parseString d \<noteq> Inl UjFuel"
  using nofuel_str_loop by (auto simp: parseString_def Let_def split: sum.splits)

lemma nofuel_numbers [simp]: "decDigits d \<noteq> Inl UjFuel" "parse_exp d \<noteq> Inl UjFuel" "parseNumber sg d \<noteq> Inl UjFuel"
proof -
  show dd: "decDigits d \<noteq> Inl UjFuel" for d by (simp add: decDigits_def split: prod.splits)
  show pe: "parse_exp d \<noteq> Inl UjFuel" for d
    unfolding parse_exp_def Let_def by (auto simp: bnd_Inl dd split: prod.splits)
  show "parseNumber sg d \<noteq> Inl UjFuel"
    unfolding parseNumber_def Let_def by (auto simp: bnd_Inl dd pe split: prod.splits if_splits)
qed

lemma nofuel_lit [simp]: "nextLit lit d \<noteq> Inl UjFuel"
proof -
  have "next_lit s p cs \<noteq> Inl UjFuel" for s p cs by (induction s p cs rule: next_lit.induct) auto
  then show ?thesis by (auto simp: nextLit_def split: sum.splits)
qed

lemma nofuel_enter [simp]: "do_enter w b e d \<noteq> Inl UjFuel" and nofuel_exit [simp]: "do_exit w b e d \<noteq> Inl UjFuel"
  by (auto simp: do_enter_def do_exit_def Let_def bnd_Inl split: option.splits if_splits)

lemma nofuel_ops [simp]:
  "uj_nextValue d \<noteq> Inl UjFuel" "uj_nextField d \<noteq> Inl UjFuel" "uj_nextSlot d \<noteq> Inl UjFuel"
  "uj_enterObject d \<noteq> Inl UjFuel" "uj_enterArray d \<noteq> Inl UjFuel"
  "uj_exitObject d \<noteq> Inl UjFuel" "uj_exitArray d \<noteq> Inl UjFuel"
  by (auto simp: uj_nextValue_def uj_nextField_def uj_nextSlot_def uj_enterObject_def uj_enterArray_def
    uj_exitObject_def uj_exitArray_def Let_def bnd_Inl split: if_splits)

lemma skip_enough:
  "2 * left_over d < n \<Longrightarrow> skipValue n d \<noteq> Inl UjFuel"
  "2 * left_over d + 1 < n \<Longrightarrow> skip_fields n d \<noteq> Inl UjFuel"
  "2 * left_over d + 1 < n \<Longrightarrow> skip_slots n d \<noteq> Inl UjFuel"
proof (induction n d and n d and n d rule: skipValue_skip_fields_skip_slots.induct)
  case (2 n d)
  show ?case
    unfolding skipValue.simps
  proof (rule nofuel_bnd)
    fix t d1 assume nv: "uj_nextValue d = Inr (t, d1)"
    note v = uj_nextValue_forth [OF nv]
    have enter: "2 * left_over b + 1 < n" if "left_over b < left_over d1" for b using that v(1) "2.prems" by simp
    have o: "left_over b < left_over d1" if h: "uj_enterObject d1 = Inr (a, b)" for a b
    proof -
      obtain d2 where "do_enter UJ_N_OBJ 123 ''Expecting an object'' d1 = Inr ((), d2)" "b = d2\<lparr>fld_name := None, fld_crc := 0\<rparr>"
        using h by (auto simp: uj_enterObject_def)
      then show ?thesis using enter_forth [of UJ_N_OBJ 123] by (auto simp: left_over_def)
    qed
    have r: "left_over b < left_over d1" if h: "uj_enterArray d1 = Inr (a, b)" for a b
    proof -
      obtain d2 where "do_enter UJ_N_ARY 91 ''Expecting an array'' d1 = Inr ((), d2)" "b = d2\<lparr>idx := - 1\<rparr>"
        using h by (auto simp: uj_enterArray_def)
      then show ?thesis using enter_forth [of UJ_N_ARY 91] by (auto simp: left_over_def)
    qed
    have f: "skip_fields n b \<noteq> Inl UjFuel" if "ty d1 = UJ_OBJECT" "uj_enterObject d1 = Inr (a, b)" for a b
      using "2.IH"(1) [OF nv that enter] o [OF that(2)] by simp
    have g: "skip_slots n b \<noteq> Inl UjFuel" if "ty d1 = UJ_ARRAY" "uj_enterArray d1 = Inr (a, b)" for a b
      using "2.IH"(2) [OF nv _ that enter] r [OF that(2)] that(1) by simp
    show "(if ty d1 = UJ_OBJECT then bnd (uj_enterObject d1) (\<lambda>_ d. bnd (skip_fields n d) (\<lambda>_ d. uj_exitObject d))
      else if ty d1 = UJ_ARRAY then bnd (uj_enterArray d1) (\<lambda>_ d. bnd (skip_slots n d) (\<lambda>_ d. uj_exitArray d))
      else Inr ((), d1)) \<noteq> Inl UjFuel"
      using f g by (simp add: nofuel_bnd)
  qed simp
next
  case (4 n d)
  show ?case
    unfolding skip_fields.simps
  proof (rule nofuel_bnd)
    fix c d1 assume nf: "uj_nextField d = Inr (c, d1)"
    note v = nextField_forth [OF nf]
    show "(if c \<noteq> 0 then bnd (skipValue n d1) (\<lambda>_ d. skip_fields n d) else Inr ((), d1)) \<noteq> Inl UjFuel"
    proof (cases "c = 0")
      case False
      then have lt: "left_over d1 < left_over d" using v(2) by simp
      have "skipValue n d1 \<noteq> Inl UjFuel" using "4.IH"(1) [OF nf False] lt "4.prems" by simp
      moreover have "skip_fields n b \<noteq> Inl UjFuel" if h: "skipValue n d1 = Inr (a, b)" for a b
        using "4.IH"(2) [OF nf False h] skip_forth(1) [OF h] lt "4.prems" by simp
      ultimately show ?thesis using False by (simp add: nofuel_bnd)
    qed simp
  qed simp
next
  case (6 n d)
  show ?case
    unfolding skip_slots.simps
  proof (rule nofuel_bnd)
    fix c d1 assume nf: "uj_nextSlot d = Inr (c, d1)"
    note v = nextSlot_forth [OF nf]
    show "(if c \<ge> 0 then bnd (skipValue n d1) (\<lambda>_ d. skip_slots n d) else Inr ((), d1)) \<noteq> Inl UjFuel"
    proof (cases "c \<ge> 0")
      case True
      have "skipValue n d1 \<noteq> Inl UjFuel" using "6.IH"(1) [OF nf True] v(1) "6.prems" by simp
      moreover have "skip_slots n b \<noteq> Inl UjFuel" if h: "skipValue n d1 = Inr (a, b)" for a b
        using "6.IH"(2) [OF nf True h] skip_forth(1) [OF h] v "6.prems" by simp
      ultimately show ?thesis using True by (simp add: nofuel_bnd)
    qed simp
  qed simp
qed simp_all

end
