(* ===== verification/UjProps.thy ===== *)
theory UjProps
  imports UjTotal
begin

text \<open>
  The properties of the JSON decoder: exact skipping, termination on any input, in-place strings and
  keyword hashes, and the search for the message type.
\<close>

section \<open>Skipping\<close>


text \<open>The text \<open>{"a":[-1.5e+3,"\"",null]},7\<close>: an object with an array in front of another element.\<close>

definition sample_json :: json where
  "sample_json = JObj [([97], JArr [JNum True [49] (Some [53]) (Some (Some 43, [51])), JStr [92, 34], JNull])]"

definition sample_dec :: ujdec where
  "sample_dec = uj_iniDecoder (json_text sample_json @ [44, 55])"


text \<open>C27: Skipping ends on every input: whatever bytes the buffer holds and wherever the decoder
  stands, twice as many calls as there are bytes left are enough for \<open>uj_skipValue\<close> to return a
  value or raise an error.\<close>

theorem uj_skipValue_total:
  assumes "2 * left_over d < fuel"
  shows "uj_skipValue fuel d \<noteq> Inl UjFuel"
proof -
  have "skipValue fuel (backChar d1\<lparr>skip_mode := True\<rparr>) \<noteq> Inl UjFuel" if "skipWsp d = Inr (c, d1)" for c d1
  proof -
    have "left_over (backChar d1\<lparr>skip_mode := True\<rparr>) \<le> left_over d"
      using skipWsp_forth(1) [OF that] by (auto simp: left_over_def forth_def backChar_def)
    then show ?thesis using assms by (intro skip_enough) simp
  qed
  then show ?thesis by (auto simp: uj_skipValue_def Let_def bnd_Inl)
qed

theorem uj_skipValue_total_witness: "uj_skipValue 7 (uj_iniDecoder [91, 123, 34]) \<noteq> Inl UjFuel"
  by (rule uj_skipValue_total) (simp add: left_over_def uj_iniDecoder_def)

section \<open>Strings and keywords\<close>

lemma uj_keyword_text:
  assumes "ahead d (34 # body @ 34 # rest)" and "unescape body = Some bs"
    and "ty d = UJ_UNDEF" and "\<not> skip_mode d"
  shows "\<exists>d'. uj_keyword d = Inr (UJ_FINISH_CRC (foldl UJ_UPDATE_CRC 0 bs), d') \<and> ty d' = UJ_STRING \<and>
    str_bytes d' = Some bs \<and> ch (jbuf d') (str_beg d' + length bs) = 0 \<and>
    take (Suc (read_pos d)) (jbuf d') = take (Suc (read_pos d)) (jbuf d) \<and> ahead d' rest"
proof -
  let ?d = "d\<lparr>read_pos := Suc (read_pos d), val_pos := read_pos d, ty := UJ_STRING\<rparr>"
  let ?p = "Suc (read_pos d)"
  have b: "ahead ?d (body @ 34 # rest)" by (rule ahead_next [where t = "[34]"]) (use assms(1) in auto)
  have c: "0 < read_pos ?d" "ch (jbuf ?d) (read_pos ?d - 1) = 34" using ahead_ch [OF assms(1), of 0] by (simp_all add: ch_def)
  note ps = parseString_ok [OF c b assms(2)]
  have lb: "length bs \<le> length body" by (rule unescape_length [OF assms(2)])
  have lj: "?p + length body + 1 \<le> length (jbuf d)"
  proof -
    have "length (drop ?p (jbuf d)) = length (body @ 34 # rest)" using b by simp
    then show ?thesis by simp
  qed
  let ?s = "put_bytes ?p (bs @ [0]) (jbuf d)"
  have blk: "blk ?p (length bs) ?s = bs"
  proof -
    have "blk ?p (length (bs @ [0])) ?s = bs @ [0]" using lj lb by (intro blk_put_bytes) simp
    then show ?thesis by (metis blk_def butlast_snoc butlast_take length_append_singleton diff_Suc_1
          length_butlast take_take min.absorb2 append_eq_conv_conj le_add1 Suc_eq_plus1 min.absorb1)
  qed
  have nul: "?s ! (?p + length bs) = 0"
  proof -
    have "?s = put_bytes (?p + length bs) [0] (put_bytes ?p bs (jbuf d))" by (rule put_bytes_append)
    then show ?thesis using lj lb by simp
  qed
  have "uj_keyword d = Inr (UJ_FINISH_CRC (foldl UJ_UPDATE_CRC 0 bs), ?d\<lparr>jbuf := ?s, read_pos := ?p + length body + 1,
      str_beg := ?p, str_crc := UJ_FINISH_CRC (foldl UJ_UPDATE_CRC 0 bs), str_len := Some (length bs)\<rparr>)"
    using uj_nextValue_at [OF assms(1) _ assms(3)] ps assms(4) by (simp add: uj_keyword_def Let_def)
  moreover have "drop (?p + length body + 1) ?s = rest"
  proof -
    have "drop (?p + length body + 1) ?s = drop (?p + length body + 1) (jbuf d)" using lb by (intro drop_put_bytes) simp
    also have "\<dots> = rest" using ahead_shift [of ?p "jbuf d" "body @ [34]" rest] b by (simp add: add.assoc)
    finally show ?thesis .
  qed
  moreover have "take ?p ?s = take ?p (jbuf d)" by (rule take_put_bytes) simp
  ultimately show ?thesis using blk nul lj lb by (simp add: str_bytes_def ch_def)
qed



section \<open>The message type\<close>

abbreviation msgtype_key :: bytes where
  "msgtype_key \<equiv> bytes_of ''\"msgtype\"''"

lemma msgtype_key_text: "msgtype_key = [34, 109, 115, 103, 116, 121, 112, 101, 34]"
  by (simp add: bytes_of_def)

lemma at_text_iff: "at_text s p t \<longleftrightarrow> (\<forall>i < length t. ch s (p + i) = t ! i)"
  by (auto simp: at_text_def list_all_length nth_enumerate_eq)

lemma at_text_append: "at_text (p @ t @ r) (length p) t"
  by (simp add: at_text_iff ch_def nth_append)

lemma skip_wsp_blanks:
  "drop p s = w @ c # r \<Longrightarrow> set w \<subseteq> {9, 10, 13, 32} \<Longrightarrow> c \<notin> {9, 13, 10, 32, 47} \<Longrightarrow>
    skip_wsp s p = Inr (c, Suc (p + length w))"
proof (induction w arbitrary: p)
  case Nil
  then have "ch s p = c" by (simp add: ch_def) (metis Nil.prems(1) append_Nil drop_eq_Nil hd_drop_conv_nth
        list.sel(1) list.simps(3) not_le)
  then show ?case using Nil.prems(3) by simp
next
  case (Cons a w)
  then have "ch s p = a" by (simp add: ch_def) (metis drop_eq_Nil hd_drop_conv_nth list.sel(1) list.simps(3) not_le)
  moreover have "drop (Suc p) s = w @ c # r" using Cons.prems(1) by (metis append_Cons drop_Suc list.sel(3) tl_drop)
  ultimately show ?case using Cons skip_wsp_blank [of s p] by auto
qed

lemma type_text_read:
  "drop p s = t @ 34 # r \<Longrightarrow> set t \<inter> {0, 34, 92} = {} \<Longrightarrow>
    type_text s p crc = (Some (p + length t, foldl UJ_UPDATE_CRC crc t), Suc (p + length t))"
proof (induction t arbitrary: p crc)
  case Nil
  then have "ch s p = 34" by (simp add: ch_def) (metis Nil.prems(1) append_Nil drop_eq_Nil hd_drop_conv_nth
        list.sel(1) list.simps(3) not_le)
  then show ?case by (simp add: type_text.simps)
next
  case (Cons a t)
  then have "ch s p = a" by (simp add: ch_def) (metis drop_eq_Nil hd_drop_conv_nth list.sel(1) list.simps(3) not_le)
  moreover have "drop (Suc p) s = t @ 34 # r" using Cons.prems(1) by (metis append_Cons drop_Suc list.sel(3) tl_drop)
  ultimately show ?case using Cons by (simp add: type_text.simps [of s p])
qed

text \<open>Any window of seven positions behind the opening quote leads back to it.\<close>

lemma msgtype_key_hit:
  assumes "at_text s p msgtype_key" and "p < i" and "i \<le> p + 7"
  shows "msgtype_letter (ch s i) \<and> i - msgtype_back (ch s i) = p \<and> msgtype_back (ch s i) \<le> i"
proof -
  have "\<forall>k < 9. ch s (p + k) = msgtype_key ! k" using assms(1) by (simp add: at_text_iff bytes_of_def)
  then have "ch s (p + 1) = 109" "ch s (p + 2) = 115" "ch s (p + 3) = 103" "ch s (p + 4) = 116"
    "ch s (p + 5) = 121" "ch s (p + 6) = 112" "ch s (p + 7) = 101"
    by (simp_all only: msgtype_key_text) (simp_all add: numeral_eq_Suc)
  moreover have "i \<in> {p + 1, p + 2, p + 3, p + 4, p + 5, p + 6, p + 7}" using assms(2,3) by auto
  ultimately show ?thesis by (auto simp: msgtype_letter_def msgtype_back_def)
qed

text \<open>Without an occurrence further to the left the scan comes to the keyword at \<open>p\<close>.\<close>

lemma msgtype_scan_to:
  assumes "at_text (jbuf d) p msgtype_key" and "\<forall>q < p. \<not> at_text (jbuf d) q msgtype_key"
    and "p + 10 \<le> length (jbuf d)" and "after_msgtype (jbuf d) (p + 9) = Inr (Inl (b, len, crc), e)"
    and "s \<le> p + 7"
  shows "msgtype_scan d s = Inr (crc, d\<lparr>str_beg := b, str_len := Some len, str_crc := crc, read_pos := 0\<rparr>)"
  using assms(5)
proof (induction "p + 7 - s" arbitrary: s rule: less_induct)
  case less
  have s: "s < length (jbuf d)" using less.prems assms(3) by simp
  let ?c = "ch (jbuf d) s"
  consider (hit) "p < s" | (early) "s \<le> p" by linarith
  then show ?case
  proof cases
    case hit
    then show ?thesis using msgtype_key_hit [OF assms(1) hit less.prems] s assms(1,3,4)
      by (subst msgtype_scan.simps) (simp add: Let_def)
  next
    case early
    have "\<not> msgtype_letter ?c \<or> \<not> at_text (jbuf d) (s - msgtype_back ?c) msgtype_key"
    proof (cases "s = p")
      case True
      have "?c = 34" using assms(1) True by (auto simp: at_text_iff bytes_of_def dest: spec [where x = 0])
      then show ?thesis by (simp add: msgtype_letter_def)
    next
      case False
      then show ?thesis using early assms(2) by auto
    qed
    then have "msgtype_scan d s = msgtype_scan d (s + 7)"
      using s by (subst msgtype_scan.simps) (auto simp: Let_def)
    then show ?thesis using less.hyps [of "s + 7"] early by simp
  qed
qed

text \<open>C28: The search for the message type is right: for the text of a router message in which the keyword
  \<open>"msgtype"\<close> stands somewhere, with the type as a plain string behind it, \<open>uj_msgtype\<close> finds the first
  occurrence, although it looks at every seventh character only, and returns the hash of the type;
  the decoder is left at the start of the text.\<close>

theorem uj_msgtype_finds:
  assumes "jbuf d = pre @ msgtype_key @ w1 @ 58 # w2 @ 34 # t @ 34 # rest"
    and "\<forall>q < length pre. \<not> at_text (jbuf d) q msgtype_key"
    and "set w1 \<subseteq> {9, 10, 13, 32}" and "set w2 \<subseteq> {9, 10, 13, 32}" and "set t \<inter> {0, 34, 92} = {}"
  shows "\<exists>d'. uj_msgtype d = Inr (UJ_FINISH_CRC (foldl UJ_UPDATE_CRC 0 t), d') \<and> read_pos d' = 0 \<and>
    jbuf d' = jbuf d \<and> str_bytes d' = Some t"
proof -
  let ?p = "length pre" and ?s = "jbuf d"
  let ?q = "?p + 9" let ?r = "?q + length w1 + 1" let ?b = "?r + length w2 + 1"
  have at: "at_text ?s ?p msgtype_key" unfolding assms(1) by (rule at_text_append)
  have q: "drop ?q ?s = w1 @ 58 # w2 @ 34 # t @ 34 # rest" by (simp add: assms(1) bytes_of_def)
  then have w1: "skip_wsp ?s ?q = Inr (58, ?r)" using skip_wsp_blanks assms(3) by force
  have "drop ?r ?s = drop (length w1 + 1) (drop ?q ?s)" by (simp add: add.commute)
  then have r: "drop ?r ?s = w2 @ 34 # t @ 34 # rest" unfolding q by simp
  then have w2: "skip_wsp ?s ?r = Inr (34, ?b)" using skip_wsp_blanks assms(4) by force
  have "drop ?b ?s = drop (length w2 + 1) (drop ?r ?s)" by (simp add: add.commute)
  then have "drop ?b ?s = t @ 34 # rest" unfolding r by simp
  then have b: "blk ?b (length t) ?s = t" and ty: "type_text ?s ?b 0 = (Some (?b + length t, foldl UJ_UPDATE_CRC 0 t), Suc (?b + length t))"
    using type_text_read [OF _ assms(5)] by (simp_all add: blk_def)
  have "after_msgtype ?s ?q = Inr (Inl (?b, length t, UJ_FINISH_CRC (foldl UJ_UPDATE_CRC 0 t)), Suc (?b + length t))"
    unfolding after_msgtype_def using w1 w2 ty by simp
  then have "uj_msgtype d = Inr (UJ_FINISH_CRC (foldl UJ_UPDATE_CRC 0 t), d\<lparr>str_beg := ?b, str_len := Some (length t),
      str_crc := UJ_FINISH_CRC (foldl UJ_UPDATE_CRC 0 t), read_pos := 0\<rparr>)"
    unfolding uj_msgtype_def using msgtype_scan_to [OF at assms(2)] by (simp add: assms(1) bytes_of_def)
  then show ?thesis using b by (simp add: str_bytes_def)
qed

text \<open>The text \<open>{"DR":5,"msgtype" : "jreq"}\<close>.\<close>

definition sample_msg :: bytes where
  "sample_msg = bytes_of ''{\"DR\":5,'' @ msgtype_key @ [32] @ 58 # [32] @ 34 # bytes_of ''jreq'' @ 34 # [125]"

theorem uj_msgtype_finds_witness:
  "\<exists>d'. uj_msgtype (uj_iniDecoder sample_msg) = Inr (kw ''jreq'', d') \<and> read_pos d' = 0 \<and>
    jbuf d' = sample_msg \<and> str_bytes d' = Some (bytes_of ''jreq'')"
proof -
  have "jbuf (uj_iniDecoder sample_msg) =
      bytes_of ''{\"DR\":5,'' @ msgtype_key @ [32] @ 58 # [32] @ 34 # bytes_of ''jreq'' @ 34 # [125]"
    by (simp add: uj_iniDecoder_def sample_msg_def)
  moreover have "\<forall>q < length (bytes_of ''{\"DR\":5,''). \<not> at_text (jbuf (uj_iniDecoder sample_msg)) q msgtype_key"
    by (auto simp: uj_iniDecoder_def sample_msg_def bytes_of_def at_text_def less_Suc_eq numeral_eq_Suc ch_def)
  ultimately have "\<exists>d'. uj_msgtype (uj_iniDecoder sample_msg) =
      Inr (UJ_FINISH_CRC (foldl UJ_UPDATE_CRC 0 (bytes_of ''jreq'')), d') \<and> read_pos d' = 0 \<and>
      jbuf d' = jbuf (uj_iniDecoder sample_msg) \<and> str_bytes d' = Some (bytes_of ''jreq'')"
    by (rule uj_msgtype_finds) (simp_all add: bytes_of_def)
  then show ?thesis by (simp add: kw_def uj_iniDecoder_def)
qed

text \<open>The search for the message type can raise an error: a slash behind the keyword sends the
  blank skipper into its comment branch, and its failure leaves \<open>uj_msgtype\<close>.\<close>

theorem uj_msgtype_raises:
  "uj_msgtype (uj_iniDecoder (bytes_of ''{\"msgtype\"/1}'')) = Inl (UjError ''Bad start of comment'')"
  by (simp add: uj_msgtype_def msgtype_scan.simps uj_iniDecoder_def ch_def bytes_of_def msgtype_letter_def msgtype_back_def
      at_text_def after_msgtype_def skip_wsp.simps Let_def)

end
