(* ===== verification/Cfmt.thy ===== *)
theory Cfmt
  imports Complex_Main Prelude
begin

text \<open>
  What the C library writes for the conversions that the formatted output of src/src/uj.c hands to
  \<open>snprintf\<close>: integers, characters, strings, pointers and \<open>double\<close> values. The values of \<open>double\<close> are
  the finite ones, as rational numbers; infinities, NaNs and the negative zero are outside the
  model. A conversion that C leaves undefined is \<open>None\<close>.
\<close>

section \<open>Digits\<close>

fun dec_text :: "nat \<Rightarrow> bytes" where
  "dec_text n = (if n < 10 then [48 + n] else dec_text (n div 10) @ [48 + n mod 10])"

declare dec_text.simps [simp del]

text \<open>A digit in base 16, in the letters of \<open>%X\<close> or of \<open>%x\<close>.\<close>

definition hex_digit :: "bool \<Rightarrow> nat \<Rightarrow> nat" where
  "hex_digit upper d = (if d < 10 then 48 + d else (if upper then 55 else 87) + d)"

fun hex_text :: "bool \<Rightarrow> nat \<Rightarrow> bytes" where
  "hex_text upper n =
     (if n < 16 then [hex_digit upper n] else hex_text upper (n div 16) @ [hex_digit upper (n mod 16)])"

declare hex_text.simps [simp del]

definition zeros :: "nat \<Rightarrow> bytes" where
  "zeros n = replicate n 48"

definition blanks :: "nat \<Rightarrow> bytes" where
  "blanks n = replicate n 32"

text \<open>At least \<open>n\<close> digits.\<close>

definition pad0 :: "nat \<Rightarrow> bytes \<Rightarrow> bytes" where
  "pad0 n t = zeros (n - length t) @ t"

section \<open>Floating point\<close>

text \<open>Rounding to an integer, ties to the even one.\<close>

definition round_even :: "rat \<Rightarrow> int" where
  "round_even q =
     (let f = \<lfloor>q\<rfloor>; r = q - of_int f in
      if 2 * r < 1 \<or> (2 * r = 1 \<and> even f) then f else f + 1)"

text \<open>The exponent of the leading digit of a positive number in base \<open>b\<close>.\<close>

fun digits_in :: "nat \<Rightarrow> nat \<Rightarrow> nat" where
  "digits_in b n = (if n < b \<or> b < 2 then 1 else Suc (digits_in b (n div b)))"

declare digits_in.simps [simp del]

definition lead_exp :: "nat \<Rightarrow> rat \<Rightarrow> int" where
  "lead_exp b q =
     (let (x, y) = quotient_of q; e = int (digits_in b (nat x)) - int (digits_in b (nat y)) in
      if power_int (of_nat b) e \<le> q then e else e - 1)"

text \<open>The \<open>double\<close> nearest to a positive number in the normal range: 53 significant bits.\<close>

definition to_double :: "rat \<Rightarrow> rat" where
  "to_double q = (if q = 0 then 0 else
     let u = power_int 2 (lead_exp 2 q - 52) in of_int (round_even (q / u)) * u)"

definition fixed_text :: "nat \<Rightarrow> rat \<Rightarrow> bytes" where
  "fixed_text p q =
     (let n = nat (round_even (q * 10 ^ p)) in
      dec_text (n div 10 ^ p) @ (if p = 0 then [] else 46 # pad0 p (dec_text (n mod 10 ^ p))))"

definition strip_zeros :: "bytes \<Rightarrow> bytes" where
  "strip_zeros t =
     (if 46 \<notin> set t then t
      else let u = rev (dropWhile (\<lambda>c. c = 48) (rev t)) in if last u = 46 then butlast u else u)"

definition exp_text :: "int \<Rightarrow> bytes" where
  "exp_text e = 101 # (if e < 0 then 45 else 43) # pad0 2 (dec_text (nat \<bar>e\<bar>))"

definition general_text :: "nat \<Rightarrow> rat \<Rightarrow> bytes" where
  "general_text p q =
     (let p = max p 1 in
      if q = 0 then [48]
      else
        let e = lead_exp 10 q; m = round_even (q * power_int 10 (int p - 1 - e));
            e = (if m = 10 ^ p then e + 1 else e)
        in if - 4 \<le> e \<and> e < int p then strip_zeros (fixed_text (nat (int p - 1 - e)) q)
           else strip_zeros (fixed_text (p - 1) (q * power_int 10 (- e))) @ exp_text e)"

section \<open>Arguments and conversions\<close>

text \<open>
  The arguments of a variadic call: an \<open>int\<close> or \<open>unsigned\<close> by its signed value, a 64-bit integer by its
  bits, a \<open>double\<close>, a string or null, memory or null, a pointer by its value, and a TX job by the
  fields that are printed. Reading an argument as another kind is undefined.
\<close>

datatype farg = FInt s4 | FLong uL | FDbl rat | FStr "bytes option" | FMem "bytes option" | FPtr nat
  | FJob uL uL u1

text \<open>A conversion: the flags, the field width, the precision.\<close>

record cconv =
  cf_flags :: bytes
  cf_width :: nat
  cf_prec :: "nat option"

definition is_digit :: "nat \<Rightarrow> bool" where
  "is_digit c \<longleftrightarrow> 48 \<le> c \<and> c \<le> 57"

definition text_num :: "bytes \<Rightarrow> nat" where
  "text_num t = foldl (\<lambda>n c. 10 * n + (c - 48)) 0 t"

text \<open>A width or precision: digits, or a star that takes the next \<open>int\<close>.\<close>

definition conv_num :: "bytes \<Rightarrow> int list \<Rightarrow> (int \<times> bytes \<times> int list) option" where
  "conv_num t stars =
     (if t \<noteq> [] \<and> hd t = 42 then
        (case stars of [] \<Rightarrow> None | n # ns \<Rightarrow> Some (n, tl t, ns))
      else Some (int (text_num (takeWhile is_digit t)), dropWhile is_digit t, stars))"

text \<open>The text of a conversion between the percent sign and its letter, with the values of its stars.\<close>

definition parse_conv :: "bytes \<Rightarrow> int list \<Rightarrow> cconv option" where
  "parse_conv t stars =
     (let is_flag = (\<lambda>c. c \<in> set [45, 48, 43, 32, 35]); flags = takeWhile is_flag t in
      case conv_num (dropWhile is_flag t) stars of None \<Rightarrow> None
      | Some (w, u, stars) \<Rightarrow>
        (case (if u \<noteq> [] \<and> hd u = 46
               then map_option (\<lambda>(p, v, s). (if p < 0 then None else Some (nat p), v, s)) (conv_num (tl u) stars)
               else Some (None, u, stars)) of None \<Rightarrow> None
         | Some (p, v, stars) \<Rightarrow>
             if v \<notin> set [[], [108], [108, 108]] \<or> stars \<noteq> [] then None
             else Some \<lparr>cf_flags = (if w < 0 then 45 # flags else flags), cf_width = nat \<bar>w\<bar>, cf_prec = p\<rparr>))"

text \<open>A number in its field: blanks in front, zeros behind the sign, or blanks behind.\<close>

definition field_num :: "cconv \<Rightarrow> bool \<Rightarrow> bytes \<Rightarrow> bytes \<Rightarrow> bytes" where
  "field_num cv may_zero sign body =
     (let n = cf_width cv - length sign - length body in
      if 45 \<in> set (cf_flags cv) then sign @ body @ blanks n
      else if may_zero \<and> 48 \<in> set (cf_flags cv) then sign @ zeros n @ body
      else blanks n @ sign @ body)"

definition sign_text :: "cconv \<Rightarrow> bool \<Rightarrow> bytes" where
  "sign_text cv neg =
     (if neg then [45] else if 43 \<in> set (cf_flags cv) then [43] else if 32 \<in> set (cf_flags cv) then [32] else [])"

definition conv_int :: "cconv \<Rightarrow> bytes \<Rightarrow> bytes \<Rightarrow> bytes" where
  "conv_int cv sign ds =
     field_num cv (cf_prec cv = None) sign
       (case cf_prec cv of None \<Rightarrow> ds | Some p \<Rightarrow> if p = 0 \<and> ds = [48] then [] else pad0 p ds)"

text \<open>The letters \<open>d u x X c\<close> on a value of \<open>w\<close> bits.\<close>

definition conv_word :: "cconv \<Rightarrow> nat \<Rightarrow> nat \<Rightarrow> nat \<Rightarrow> bytes option" where
  "conv_word cv letter w v =
     (if letter = 100 then
        let s = to_s w (int v) in Some (conv_int cv (sign_text cv (s < 0)) (dec_text (nat \<bar>s\<bar>)))
      else if letter = 117 then Some (conv_int cv [] (dec_text v))
      else if letter = 120 \<or> letter = 88 then
        Some (conv_int cv (if 35 \<in> set (cf_flags cv) \<and> v \<noteq> 0 then [48, letter] else [])
          (hex_text (letter = 88) v))
      else if letter = 99 then Some (field_num cv False [] [v mod 256])
      else None)"

text \<open>The letters \<open>s p f g\<close>.\<close>

fun conv_arg :: "cconv \<Rightarrow> nat \<Rightarrow> farg \<Rightarrow> bytes option" where
  "conv_arg cv letter (FStr (Some s)) =
     (if letter = 115 then
        Some (field_num cv False [] (case cf_prec cv of None \<Rightarrow> s | Some p \<Rightarrow> take p s))
      else None)"
| "conv_arg cv letter (FPtr a) =
     (if letter = 112 then
        Some (if a = 0 then field_num cv False [] (bytes_of ''(nil)'')
              else conv_int cv [48, 120] (hex_text False a))
      else None)"
| "conv_arg cv letter (FDbl q) =
     (let sign = sign_text cv (q < 0); p = (case cf_prec cv of None \<Rightarrow> 6 | Some p \<Rightarrow> p) in
      if 35 \<in> set (cf_flags cv) then None
      else if letter = 102 then Some (field_num cv True sign (fixed_text p \<bar>q\<bar>))
      else if letter = 103 then Some (field_num cv True sign (general_text p \<bar>q\<bar>))
      else None)"
| "conv_arg cv letter _ = None"

end
