(* ===== verification/UjEnc.thy ===== *)
theory UjEnc
  imports Cfmt RtDate RtText "HOL-Library.Monad_Syntax"
begin

text \<open>
  The JSON encoder and the formatted output of src/src/uj.c (from line 645 on), over the buffer
  \<open>dbuf_t\<close> of src/src/rt.h.
\<close>

section \<open>Buffers\<close>

text \<open>
  A buffer of \<open>bufsize\<close> bytes and the offset of the next one to write. \<open>None\<close> is an access outside of
  the buffer or of an argument, and every other undefined behaviour.
\<close>

record dbuf =
  buf :: bytes
  pos :: u4

abbreviation bufsize :: "dbuf \<Rightarrow> nat" where
  "bufsize b \<equiv> length (buf b)"

text \<open>
  \<open>snXp\<close> and the direct calls of \<open>snprintf\<close> behind the current end: the text is cut to the space left
  and terminated, but \<open>pos\<close> advances by its full length. With \<open>pos\<close> behind the end the size wraps
  around and nothing stops the write.
\<close>

definition snXp :: "bytes \<Rightarrow> dbuf \<Rightarrow> dbuf option" where
  "snXp t b =
     (if bufsize b < pos b then None
      else let n = bufsize b - pos b in
        Some (b\<lparr>buf := (if n = 0 then buf b else blit (pos b) (take (n - 1) t @ [0]) (buf b)),
                pos := (pos b + length t) mod 2 ^ 32\<rparr>))"

definition lastChar :: "dbuf \<Rightarrow> int option" where
  "lastChar b =
     (if pos b = 0 then Some (- 1) else if bufsize b < pos b then None else Some (int (buf b ! (pos b - 1))))"

definition addChar :: "nat \<Rightarrow> dbuf \<Rightarrow> dbuf" where
  "addChar c b = (if pos b < bufsize b then b\<lparr>buf := (buf b)[pos b := c], pos := pos b + 1\<rparr> else b)"

definition addHex2 :: "nat \<Rightarrow> dbuf \<Rightarrow> dbuf" where
  "addHex2 v b = addChar (hex_digit True (v mod 16)) (addChar (hex_digit True (v div 16 mod 16)) b)"

text \<open>\<open>n < 0\<close> is no limit.\<close>

fun xputs :: "bytes \<Rightarrow> int \<Rightarrow> dbuf \<Rightarrow> dbuf" where
  "xputs [] n b = b"
| "xputs (c # s) n b = (if n = 0 \<or> bufsize b \<le> pos b then b else xputs s (n - 1) (addChar c b))"

definition B64 :: "nat \<Rightarrow> nat" where
  "B64 v = (if v < 26 then 65 + v else if v < 52 then 71 + v else if v < 62 then v - 4 else if v = 62 then 43 else 47)"

fun b64_groups :: "bytes \<Rightarrow> dbuf \<Rightarrow> dbuf" where
  "b64_groups [] b = b"
| "b64_groups (x # d) b =
     (let v = x * 2 ^ 16 + ch d 0 * 2 ^ 8 + ch d 1 in
      b64_groups (drop 2 d)
       (addChar (B64 (v mod 64)) (addChar (B64 (v div 2 ^ 6 mod 64))
         (addChar (B64 (v div 2 ^ 12 mod 64)) (addChar (B64 (v div 2 ^ 18 mod 64)) b)))))"

definition b64Encode :: "bytes \<Rightarrow> dbuf \<Rightarrow> dbuf" where
  "b64Encode d b =
     (let len = length d; di = (len + 2) div 3 * 3; b' = b64_groups d b in
      if di > len then
        (addChar 61 ^^ (di - len)) (b'\<lparr>pos := (pos b + len div 3 * 4 + 4 - (di - len)) mod 2 ^ 32\<rparr>)
      else b')"

definition anotherValue :: "dbuf \<Rightarrow> dbuf option" where
  "anotherValue b = do {
     c \<leftarrow> lastChar b;
     Some (if c = - 1 \<or> c = 44 \<or> c = 58 \<or> c = 91 \<or> c = 123 then b else addChar 44 b) }"

definition anotherString :: "dbuf \<Rightarrow> dbuf option" where
  "anotherString b =
     (if pos b \<ge> 2 \<and> bufsize b < pos b then None
      else if pos b \<ge> 2 \<and> buf b ! (pos b - 1) = 8 \<and> buf b ! (pos b - 2) = 34 then Some (b\<lparr>pos := pos b - 2\<rparr>)
      else map_option (addChar 34) (anotherValue b))"

text \<open>Termination: whether all fitted, and the buffer.\<close>

definition xeos :: "dbuf \<Rightarrow> (nat \<times> dbuf) option" where
  "xeos b =
     (if pos b < bufsize b then Some (1, b\<lparr>buf := (buf b)[pos b := 0]\<rparr>)
      else if bufsize b = 0 then None
      else Some (0, b\<lparr>buf := (buf b)[bufsize b - 1 := 0]\<rparr>))"

definition xeol :: "dbuf \<Rightarrow> (nat \<times> dbuf) option" where
  "xeol b =
     (if pos b < bufsize b then
        Some (1, if pos b > 0 \<and> buf b ! (pos b - 1) \<noteq> 10 then addChar 10 b else b)
      else if bufsize b = 0 then None
      else Some (0, b\<lparr>buf := (buf b)[bufsize b - 1 := 10], pos := bufsize b\<rparr>))"

section \<open>The format interpreter\<close>

text \<open>
  The locals of \<open>vxprintf\<close> for one element: \<open>pi\<close> points to \<open>frac\<close> instead of \<open>width\<close> after a period, and
  \<open>fe_ints\<close> are the values of the stars, which \<open>snprintf\<close> is given again.
\<close>

record felem =
  fe_extra :: nat
  fe_width :: int
  fe_frac :: int
  fe_in_frac :: bool
  fe_star_w :: bool
  fe_star_p :: bool
  fe_long :: nat
  fe_padding :: nat

definition MAX_FMT_SIZE :: nat where "MAX_FMT_SIZE = 16"

definition fe_ini :: felem where
  "fe_ini = \<lparr>fe_extra = 0, fe_width = 0, fe_frac = 0, fe_in_frac = False, fe_star_w = False, fe_star_p = False,
     fe_long = 0, fe_padding = 0\<rparr>"

definition set_pi :: "int \<Rightarrow> felem \<Rightarrow> felem" where
  "set_pi n e = (if fe_in_frac e then e\<lparr>fe_frac := n\<rparr> else e\<lparr>fe_width := n\<rparr>)"

definition get_pi :: "felem \<Rightarrow> int" where
  "get_pi e = (if fe_in_frac e then fe_frac e else fe_width e)"

text \<open>
  Scanning an element from offset \<open>off\<close> on: the offset of its letter, or nothing for a literal percent
  sign, the locals and the arguments left.
\<close>

fun fe_scan :: "nat \<Rightarrow> bytes \<Rightarrow> felem \<Rightarrow> farg list \<Rightarrow> (nat option \<times> felem \<times> farg list) option" where
  "fe_scan off [] e args = Some (None, e, args)"
| "fe_scan off (c # cs) e args =
     (if MAX_FMT_SIZE \<le> off then Some (None, e, args)
      else if c \<in> set (bytes_of ''cduxXfgspHBMETFRJ'') then Some (Some off, e, args)
      else if c = 42 then
        (case args of
           FInt n # args \<Rightarrow>
             fe_scan (Suc off) cs
               (set_pi n (if fe_in_frac e then e\<lparr>fe_star_p := True\<rparr> else e\<lparr>fe_star_w := True\<rparr>)) args
         | _ \<Rightarrow> None)
      else if is_digit c then
        (let n = get_pi e * 10 + int c - 48 in
         if 2 ^ 31 \<le> n \<or> n < - (2 ^ 31) then None else fe_scan (Suc off) cs (set_pi n e) args)
      else if c \<in> {60, 62, 94, 45} then fe_scan (Suc off) cs (e\<lparr>fe_padding := c\<rparr>) args
      else if c = 46 then fe_scan (Suc off) cs (e\<lparr>fe_in_frac := True\<rparr>) args
      else if c = 108 then fe_scan (Suc off) cs (e\<lparr>fe_long := (fe_long e + 1) mod 256\<rparr>) args
      else fe_scan (Suc off) cs (e\<lparr>fe_extra := c\<rparr>) args)"

text \<open>
  The elements left to \<open>snprintf\<close>; \<open>t\<close> is the element between the percent sign and its letter. Only a
  string element is given the values of its stars.
\<close>

definition std_elem :: "bytes \<Rightarrow> nat \<Rightarrow> felem \<Rightarrow> farg list \<Rightarrow> dbuf \<Rightarrow> (dbuf \<times> farg list) option" where
  "std_elem t letter e args b =
     (let stars = (if letter \<noteq> 115 then []
        else if fe_star_w e \<and> fe_star_p e then [fe_width e, fe_frac e]
        else if fe_star_w e then [fe_width e] else if fe_star_p e then [fe_frac e] else []) in
      do {
        cv \<leftarrow> parse_conv t stars;
        case args of [] \<Rightarrow> None
        | a # args \<Rightarrow> do {
            s \<leftarrow> (if letter \<in> set (bytes_of ''cduxX'') then
                   (case a of
                      FLong v \<Rightarrow> if fe_long e = 0 then None else conv_word cv letter 64 v
                    | FInt v \<Rightarrow> if fe_long e \<noteq> 0 then None else conv_word cv letter 32 (to_u 32 v)
                    | _ \<Rightarrow> None)
                 else conv_arg cv letter a);
            b \<leftarrow> snXp s b;
            Some (b, args) } })"

text \<open>
  The main loop over the format, with the elements that the code does not hand to \<open>snprintf\<close> as an
  argument: some of them call \<open>xprintf\<close> with plain formats again.
\<close>

type_synonym special = "nat \<Rightarrow> felem \<Rightarrow> farg list \<Rightarrow> dbuf \<Rightarrow> (dbuf \<times> farg list) option"

function vxp_loop :: "special \<Rightarrow> bytes \<Rightarrow> farg list \<Rightarrow> dbuf \<Rightarrow> dbuf option" where
  "vxp_loop sp [] args b = Some b"
| "vxp_loop sp (c # fmt) args b =
     (if c \<noteq> 37 then vxp_loop sp fmt args (addChar c b)
      else if ch fmt 0 = 37 then vxp_loop sp (tl fmt) args (addChar 37 b)
      else
        (case fe_scan 0 fmt fe_ini args of
           None \<Rightarrow> None
         | Some (None, _, args) \<Rightarrow> vxp_loop sp fmt args (addChar 37 b)
         | Some (Some off, e, args) \<Rightarrow>
             (case (if ch fmt off \<in> set (bytes_of ''cduxXfgsp'') then std_elem (take off fmt) (ch fmt off) e args b
                    else sp (ch fmt off) e args b) of
                None \<Rightarrow> None
              | Some (b, args) \<Rightarrow> vxp_loop sp (drop (Suc off) fmt) args b)))"
  by pat_completeness auto
termination by (relation "measure (\<lambda>(_, fmt, _, _). length fmt)") auto

declare vxp_loop.simps [simp del]

definition vxp :: "special \<Rightarrow> bytes \<Rightarrow> farg list \<Rightarrow> dbuf \<Rightarrow> (nat \<times> dbuf) option" where
  "vxp sp fmt args b =
     (if bufsize b \<le> pos b then xeos b else do { b \<leftarrow> vxp_loop sp fmt args b; xeos b })"

text \<open>\<open>xprintf\<close> with a constant format of plain elements.\<close>

definition xprintf_std :: "string \<Rightarrow> farg list \<Rightarrow> dbuf \<Rightarrow> dbuf option" where
  "xprintf_std fmt args b = map_option snd (vxp (\<lambda>_ _ _ _. None) (bytes_of fmt) args b)"

section \<open>JSON values\<close>

definition uj_mergeStr :: "dbuf \<Rightarrow> dbuf" where
  "uj_mergeStr b = addChar 8 b"

definition uj_encOpen :: "nat \<Rightarrow> dbuf \<Rightarrow> dbuf option" where
  "uj_encOpen brace b = map_option (addChar brace) (anotherValue b)"

definition uj_encClose :: "nat \<Rightarrow> dbuf \<Rightarrow> dbuf" where
  "uj_encClose brace b = addChar brace b"

definition uj_encNull :: "dbuf \<Rightarrow> dbuf option" where
  "uj_encNull b = map_option (xputs (bytes_of ''null'') (- 1)) (anotherValue b)"

definition uj_encBool :: "int \<Rightarrow> dbuf \<Rightarrow> dbuf option" where
  "uj_encBool val b =
     map_option (xputs (if val \<noteq> 0 then bytes_of ''true'' else bytes_of ''false'') (- 1)) (anotherValue b)"

definition uj_encInt :: "sL \<Rightarrow> dbuf \<Rightarrow> dbuf option" where
  "uj_encInt val b = do { b \<leftarrow> anotherValue b; xprintf_std ''%ld'' [FLong (to_u 64 val)] b }"

definition uj_encUint :: "uL \<Rightarrow> dbuf \<Rightarrow> dbuf option" where
  "uj_encUint val b = do { b \<leftarrow> anotherValue b; xprintf_std ''%lu'' [FLong val] b }"

definition snprintf_dbl :: "string \<Rightarrow> nat \<Rightarrow> rat \<Rightarrow> dbuf \<Rightarrow> dbuf option" where
  "snprintf_dbl fmt letter val b = do {
     cv \<leftarrow> parse_conv (bytes_of fmt) [];
     t \<leftarrow> conv_arg cv letter (FDbl val);
     snXp t b }"

definition uj_encNum :: "rat \<Rightarrow> dbuf \<Rightarrow> dbuf option" where
  "uj_encNum val b = do { b \<leftarrow> anotherValue b; snprintf_dbl '''' 103 val b }"

definition uj_encTime :: "rat \<Rightarrow> dbuf \<Rightarrow> dbuf option" where
  "uj_encTime val b = do { b \<leftarrow> anotherValue b; snprintf_dbl ''.6'' 102 val b }"

definition esc_letter :: "nat \<Rightarrow> nat option" where
  "esc_letter = map_of [(92, 92), (34, 34), (8, 98), (12, 102), (10, 110), (13, 114), (9, 116)]"

fun enc_str_loop :: "bytes \<Rightarrow> dbuf \<Rightarrow> dbuf" where
  "enc_str_loop [] b = b"
| "enc_str_loop (c # s) b =
     (if bufsize b \<le> pos b then b
      else
        (case esc_letter c of
           Some e \<Rightarrow> enc_str_loop s (addChar e (addChar 92 b))
         | None \<Rightarrow>
             if c < 0x20 then enc_str_loop s (addHex2 c (addHex2 0 (addChar 117 (addChar 92 b))))
             else enc_str_loop s (addChar c b)))"

definition uj_encStr :: "bytes option \<Rightarrow> dbuf \<Rightarrow> dbuf option" where
  "uj_encStr s b =
     (case s of None \<Rightarrow> uj_encNull b
      | Some s \<Rightarrow> map_option (\<lambda>b. addChar 34 (enc_str_loop s b)) (anotherString b))"

text \<open>A read of \<open>n\<close> bytes of an argument; a negative count is none.\<close>

definition mem_bytes :: "bytes option \<Rightarrow> int \<Rightarrow> bytes option" where
  "mem_bytes m n =
     (if n \<le> 0 then Some []
      else (case m of None \<Rightarrow> None | Some d \<Rightarrow> if int (length d) < n then None else Some (take (nat n) d)))"

definition uj_encHex :: "bytes option \<Rightarrow> int \<Rightarrow> dbuf \<Rightarrow> dbuf option" where
  "uj_encHex d len b =
     (if d = None then uj_encNull b
      else do {
        b \<leftarrow> anotherString b;
        d \<leftarrow> mem_bytes d len;
        Some (addChar 34 (fold addHex2 d b)) })"

definition encMac :: "uL \<Rightarrow> dbuf \<Rightarrow> dbuf" where
  "encMac mac b =
     fold (\<lambda>i b. addHex2 (mac div 2 ^ i) (addChar 58 b)) [32, 24, 16, 8, 0] (addHex2 (mac div 2 ^ 40) b)"

definition uj_encMac :: "uL \<Rightarrow> dbuf \<Rightarrow> dbuf option" where
  "uj_encMac mac b = map_option (\<lambda>b. addChar 34 (encMac mac b)) (anotherString b)"

text \<open>A field of a date through \<open>%0<w>d\<close>.\<close>

definition num0 :: "nat \<Rightarrow> nat \<Rightarrow> bytes" where
  "num0 w n = pad0 w (dec_text n)"

definition date_text :: "datetime \<Rightarrow> bytes" where
  "date_text dt = num0 4 (dt_year dt) @ 45 # num0 2 (dt_month dt) @ 45 # num0 2 (dt_day dt)"

definition time_text :: "datetime \<Rightarrow> bytes" where
  "time_text dt = num0 2 (dt_hour dt) @ 58 # num0 2 (dt_minute dt) @ 58 # num0 2 (dt_second dt)"

definition encDate :: "uL \<Rightarrow> dbuf \<Rightarrow> dbuf option" where
  "encDate tm b = do {
     dt \<leftarrow> rt_datetime (to_s 64 (int tm));
     b \<leftarrow> snXp (date_text dt @ [32]) b;
     snXp (time_text dt) b }"

definition uj_encDate :: "uL \<Rightarrow> dbuf \<Rightarrow> dbuf option" where
  "uj_encDate tm b = do { b \<leftarrow> anotherString b; b \<leftarrow> encDate tm b; Some (addChar 34 b) }"

text \<open>The bytes of an EUI below the top one, or its last \<open>nlsb\<close> bytes, each with a dash in front.\<close>

fun eui_bytes :: "nat \<Rightarrow> uL \<Rightarrow> dbuf \<Rightarrow> dbuf" where
  "eui_bytes 0 eui b = b"
| "eui_bytes (Suc n) eui b = eui_bytes n eui (addHex2 (eui div 2 ^ (8 * n)) (addChar 45 b))"

definition encEui :: "uL \<Rightarrow> int \<Rightarrow> dbuf \<Rightarrow> dbuf" where
  "encEui eui nlsb b =
     (if nlsb = 0 \<or> 8 \<le> nlsb then eui_bytes 7 eui (addHex2 (eui div 2 ^ 56) b)
      else eui_bytes (nat nlsb) eui b)"

definition uj_encEui :: "uL \<Rightarrow> dbuf \<Rightarrow> dbuf option" where
  "uj_encEui eui b = map_option (\<lambda>b. addChar 34 (encEui eui 0 b)) (anotherString b)"

definition encId6 :: "uL \<Rightarrow> dbuf \<Rightarrow> dbuf option" where
  "encId6 eui b =
     (let g = (\<lambda>i. eui div 2 ^ (48 - 16 * i) mod 2 ^ 16); a = (\<lambda>i. FInt (int (g i))) in
      if g 0 = 0 \<and> g 1 = 0 then
        (if g 2 = 0 then xprintf_std ''::%x'' [a 3] b else xprintf_std ''::%x:%x'' [a 2, a 3] b)
      else if g 2 = 0 \<and> g 3 = 0 then
        (if g 1 = 0 then xprintf_std ''%x::'' [a 0] b else xprintf_std ''%x:%x::'' [a 0, a 1] b)
      else if g 1 = 0 \<and> g 2 = 0 then xprintf_std ''%x::%x'' [a 0, a 3] b
      else xprintf_std ''%x:%x:%x:%x'' [a 0, a 1, a 2, a 3] b)"

definition uj_encId6 :: "uL \<Rightarrow> dbuf \<Rightarrow> dbuf option" where
  "uj_encId6 eui b = do { b \<leftarrow> anotherString b; b \<leftarrow> encId6 eui b; Some (addChar 34 b) }"

definition uj_encKey :: "bytes option \<Rightarrow> dbuf \<Rightarrow> dbuf option" where
  "uj_encKey key b = map_option (addChar 58) (uj_encStr key b)"

text \<open>One argument by its type letter; \<open>None\<close> inside is the 0 of an unknown letter.\<close>

definition encArg :: "nat \<Rightarrow> farg list \<Rightarrow> dbuf \<Rightarrow> (farg list \<times> dbuf) option option" where
  "encArg letter args b =
     (let val = (\<lambda>args r. map_option (\<lambda>b. Some (args, b)) r) in
      if letter \<notin> set (bytes_of ''biIuUDgTsEM6H'') then Some None
      else (case args of
          FInt v # args \<Rightarrow>
            if letter = 98 then val args (uj_encBool v b)
            else if letter = 105 then val args (uj_encInt v b)
            else if letter = 117 then val args (uj_encUint (to_u 32 v) b)
            else if letter = 72 then
              (case args of FMem d # args \<Rightarrow> val args (uj_encHex d v b) | _ \<Rightarrow> None)
            else None
        | FLong v # args \<Rightarrow>
            if letter = 73 then val args (uj_encInt (to_s 64 (int v)) b)
            else if letter = 85 then val args (uj_encUint v b)
            else if letter = 68 then val args (uj_encDate v b)
            else if letter = 69 then val args (uj_encEui v b)
            else if letter = 77 then val args (uj_encMac v b)
            else if letter = 54 then val args (uj_encId6 v b)
            else None
        | FDbl v # args \<Rightarrow>
            if letter = 103 then val args (uj_encNum v b)
            else if letter = 84 then val args (uj_encTime v b)
            else None
        | FStr s # args \<Rightarrow> if letter = 115 then val args (uj_encStr s b) else None
        | _ \<Rightarrow> None))"

definition uj_encKV :: "bytes option \<Rightarrow> nat \<Rightarrow> farg list \<Rightarrow> dbuf \<Rightarrow> dbuf option" where
  "uj_encKV key letter args b = do {
     b \<leftarrow> uj_encKey key b;
     r \<leftarrow> encArg letter args b;
     Some (case r of None \<Rightarrow> b | Some (_, b) \<Rightarrow> b) }"

text \<open>
  \<open>uj_encKVn\<close>: the arguments are keys, type letters and values; \<open>ary\<close> says that the innermost of the two
  loops is the one over the elements of an array.
\<close>

lemma encArg_shorter: "encArg letter args b = Some (Some (args', b')) \<Longrightarrow> length args' < length args"
  by (auto simp: encArg_def Let_def split: if_splits list.splits farg.splits)

function encKVn :: "bool \<Rightarrow> farg list \<Rightarrow> dbuf \<Rightarrow> dbuf option" where
  "encKVn ary args b =
     (case args of
        [] \<Rightarrow> None
      | a # args \<Rightarrow>
        if ary then
          (case a of FInt letter \<Rightarrow>
             if letter = 93 then encKVn False args (uj_encClose 93 b)
             else
               (case encArg (nat letter) args b of
                  None \<Rightarrow> None | Some None \<Rightarrow> Some b
                | Some (Some (args, b)) \<Rightarrow> encKVn True args b)
           | _ \<Rightarrow> None)
        else
          (case a of FStr key \<Rightarrow>
             (case key of None \<Rightarrow> Some b
              | Some k \<Rightarrow>
                if k = [125] then encKVn False args (uj_encClose 125 b)
                else
                  (case uj_encKey key b of None \<Rightarrow> None
                   | Some b \<Rightarrow>
                     (case args of FInt letter # args \<Rightarrow>
                        if letter = 123 then
                          (case uj_encOpen 123 b of None \<Rightarrow> None | Some b \<Rightarrow> encKVn False args b)
                        else if letter = 91 then
                          (case uj_encOpen 91 b of None \<Rightarrow> None | Some b \<Rightarrow> encKVn True args b)
                        else
                          (case encArg (nat letter) args b of
                             None \<Rightarrow> None | Some None \<Rightarrow> Some b
                           | Some (Some (args, b)) \<Rightarrow> encKVn False args b)
                      | _ \<Rightarrow> None)))
           | _ \<Rightarrow> None))"
  by pat_completeness auto
termination by (relation "measure (\<lambda>(_, args, _). length args)") (auto dest: encArg_shorter)

declare encKVn.simps [simp del]

definition uj_encKVn :: "farg list \<Rightarrow> dbuf \<Rightarrow> dbuf option" where
  "uj_encKVn args b = encKVn False args b"

section \<open>Special elements\<close>

definition TSPAN_UNITS :: "(bytes \<times> ustime) list" where
  "TSPAN_UNITS = [(bytes_of ''d'', rt_seconds (24 * 3600)), (bytes_of ''h'', rt_seconds 3600),
     (bytes_of ''m'', rt_seconds 60), (bytes_of ''s'', 1000000), (bytes_of ''ms'', 1000), (bytes_of ''us'', 1)]"

definition int_text :: "int \<Rightarrow> bytes" where
  "int_text n = (if n < 0 then [45] else []) @ dec_text (nat \<bar>n\<bar>)"

text \<open>The loop from unit \<open>ui\<close> on, at most two rounds; the units left are a suffix of the table.\<close>

fun span_loop :: "nat \<Rightarrow> ustime \<Rightarrow> (bytes \<times> ustime) list \<Rightarrow> ustime \<Rightarrow> dbuf \<Rightarrow> dbuf option" where
  "span_loop k big [] sp b = Some b"
| "span_loop k big ((name, u) # us) sp b =
     (if 2 \<le> k \<or> (k \<noteq> 0 \<and> sp = 0) then Some b
      else do {
        b \<leftarrow> snXp (int_text (to_s 32 (c_div sp u)) @ name) b;
        span_loop (Suc k) big us (c_mod sp big) b })"

definition approxTimeSpan :: "ustime \<Rightarrow> dbuf \<Rightarrow> dbuf option" where
  "approxTimeSpan sp b =
     (if sp = 0 then Some (addChar 48 b)
      else if sp = - (2 ^ 63) then None
      else
        let b = (if sp < 0 then addChar 45 b else b); sp = \<bar>sp\<bar>;
            units = dropWhile (\<lambda>(_, u). sp < u) TSPAN_UNITS
        in case units of [] \<Rightarrow> None | (_, u) # _ \<Rightarrow> span_loop 0 u units sp b)"

text \<open>The bytes of a block, with two periods in place of those in the middle.\<close>

definition hexData :: "bytes \<Rightarrow> int \<Rightarrow> int \<Rightarrow> dbuf \<Rightarrow> dbuf" where
  "hexData d leftbytes rightbytes b =
     (let len = int (length d) in
      if (leftbytes \<noteq> 0 \<or> rightbytes \<noteq> 0) \<and> leftbytes + rightbytes < len \<and> 0 \<le> leftbytes \<and> leftbytes < len then
        fold addHex2 (drop (nat (len - rightbytes)) d)
          (addChar 46 (addChar 46 (fold addHex2 (take (nat leftbytes) d) b)))
      else fold addHex2 d b)"

text \<open>Blanks around the field that begins at \<open>beg\<close>.\<close>

definition padField :: "u4 \<Rightarrow> int \<Rightarrow> nat \<Rightarrow> dbuf \<Rightarrow> dbuf option" where
  "padField beg width padding b =
     (let w = to_s 32 (int (pos b) - int beg); d = width - w in
      if d \<le> 0 \<or> bufsize b < to_u 32 (int (pos b) + d) then Some b
      else if bufsize b < pos b + nat d \<or> w < 0 then None
      else
        let p1 = (if padding = 94 then nat d div 2 else if padding = 62 then nat d else 0);
            p2 = nat d - p1 in
        Some (b\<lparr>buf := blit (pos b + p1) (blanks p2)
                         (blit beg (blanks p1) (memmove (beg + p1) beg (nat w) (buf b))),
                pos := pos b + p1 + p2\<rparr>))"

text \<open>The digits of a fraction of a second.\<close>

fun usec_digits :: "nat \<Rightarrow> u4 \<Rightarrow> dbuf \<Rightarrow> dbuf" where
  "usec_digits 0 usec b = b"
| "usec_digits (Suc n) usec b = usec_digits n (usec mod 100000 * 10) (addChar (48 + usec div 100000 mod 10) b)"

definition elem_time :: "felem \<Rightarrow> ustime \<Rightarrow> dbuf \<Rightarrow> dbuf option" where
  "elem_time e tm b = do {
     dt \<leftarrow> rt_datetime tm;
     b \<leftarrow> (if fe_padding e \<noteq> 62 then snXp (date_text dt) b else Some b);
     let b = (if fe_padding e = 0 then addChar (if fe_extra e = 0 then 32 else fe_extra e) b else b);
     if fe_padding e \<noteq> 60 then do {
       b \<leftarrow> snXp (time_text dt) b;
       Some (if fe_frac e \<noteq> 0 then usec_digits (nat (fe_frac e)) (dt_usec dt) (addChar 46 b) else b) }
     else Some b }"

text \<open>A frequency in MHz; without a precision as many digits as it has, at least one.\<close>

fun freq_frac :: "nat \<Rightarrow> nat \<Rightarrow> nat" where
  "freq_frac 0 r = 0"
| "freq_frac (Suc n) r = (if r mod 10 = 0 then freq_frac n (r div 10) else Suc n)"

definition elem_freq :: "felem \<Rightarrow> u4 \<Rightarrow> dbuf \<Rightarrow> dbuf option" where
  "elem_freq e freq b =
     (let frac = (if fe_frac e = 0 then int (freq_frac 6 (freq mod 1000000)) else fe_frac e) in
      do {
        cv \<leftarrow> parse_conv (bytes_of ''*.*'') [fe_width e, max 1 frac];
        t \<leftarrow> conv_arg cv 102 (FDbl (to_double (of_nat freq / 1000000)));
        b \<leftarrow> snXp t b;
        Some (if fe_extra e \<noteq> 126 then xputs (bytes_of ''MHz'') (- 1) b else b) })"

text \<open>Data rate parameters: the spreading factor and the bandwidth in their two bit fields.\<close>

definition rps_text :: "u4 \<Rightarrow> bytes" where
  "rps_text rps =
     bytes_of ''SF'' @ dec_text (12 - rps mod 8) @ bytes_of ''/BW'' @ dec_text (125 * [1, 2, 4, 0] ! (rps div 8 mod 4))"

text \<open>The TX job: its EUI, its diid and its antenna.\<close>

definition elem_job :: "uL \<Rightarrow> uL \<Rightarrow> u1 \<Rightarrow> dbuf \<Rightarrow> dbuf option" where
  "elem_job deveui diid txunit b = do {
     b \<leftarrow> encId6 deveui b;
     xprintf_std '' diid=%ld [ant#%d]'' [FLong diid, FInt (int txunit)] b }"

definition special_elem :: special where
  "special_elem letter e args b =
     (if letter = 72 then
        (case args of
           FInt n # FMem p # args \<Rightarrow>
             map_option (\<lambda>d. (hexData d (fe_width e) (fe_frac e) b, args)) (mem_bytes p n)
         | _ \<Rightarrow> None)
      else if letter = 66 then
        (case args of FInt n # FMem p # args \<Rightarrow> map_option (\<lambda>d. (b64Encode d b, args)) (mem_bytes p n)
         | _ \<Rightarrow> None)
      else if letter = 77 then
        (case args of FLong mac # args \<Rightarrow> Some (encMac mac b, args) | _ \<Rightarrow> None)
      else if letter = 69 then
        (case args of
           FLong eui # args \<Rightarrow>
             map_option (\<lambda>b. (b, args)) (if fe_extra e = 58 then encId6 eui b else Some (encEui eui (fe_frac e) b))
         | _ \<Rightarrow> None)
      else if letter = 84 then
        (case args of
           FLong tm # args \<Rightarrow>
             map_option (\<lambda>b. (b, args))
               (if fe_extra e = 126 then
                  approxTimeSpan (to_s 64 (int tm)) b \<bind> padField (pos b) (fe_width e) (fe_padding e)
                else elem_time e (to_s 64 (int tm)) b)
         | _ \<Rightarrow> None)
      else if letter = 70 then
        (case args of FInt freq # args \<Rightarrow> map_option (\<lambda>b. (b, args)) (elem_freq e (to_u 32 freq) b)
         | _ \<Rightarrow> None)
      else if letter = 82 then
        (case args of
           FInt rps # args \<Rightarrow>
             map_option (\<lambda>b. (b, args))
               (snXp (rps_text (to_u 32 rps)) b \<bind> padField (pos b) (fe_width e) (fe_padding e))
         | _ \<Rightarrow> None)
      else if letter = 74 then
        (case args of
           FJob deveui diid txunit # args \<Rightarrow> map_option (\<lambda>b. (b, args)) (elem_job deveui diid txunit b)
         | _ \<Rightarrow> None)
      else None)"

definition vxprintf :: "bytes \<Rightarrow> farg list \<Rightarrow> dbuf \<Rightarrow> (nat \<times> dbuf) option" where
  "vxprintf = vxp special_elem"

definition xprintf :: "bytes \<Rightarrow> farg list \<Rightarrow> dbuf \<Rightarrow> (nat \<times> dbuf) option" where
  "xprintf fmt args b = vxprintf fmt args b"

end
