(* ===== verification/UjWrites.thy ===== *)
theory UjWrites
  imports UjEnc
begin

text \<open>
  What the encoder and the formatted output write: the contract between an operation on a buffer and
  the function on texts it implements, proved for the operations of UjEnc.
\<close>

section \<open>Operations on the text written so far\<close>

definition written :: "dbuf \<Rightarrow> bytes" where
  "written b = take (pos b) (buf b)"

definition buf_ok :: "dbuf \<Rightarrow> bool" where
  "buf_ok b \<longleftrightarrow> pos b \<le> bufsize b \<and> bufsize b < 2 ^ 32"

lemma length_written [simp]: "buf_ok b \<Longrightarrow> length (written b) = pos b"
  by (simp add: written_def buf_ok_def)

text \<open>
  \<open>f\<close> turns the text \<open>w\<close> into \<open>g w\<close> whenever that leaves room for a terminator. The text never ends in
  the mark of \<open>uj_mergeStr\<close>, which has a lemma of its own.
\<close>

definition clean :: "bytes \<Rightarrow> bool" where
  "clean w \<longleftrightarrow> w = [] \<or> last w \<noteq> 8"

definition writes :: "(bytes \<Rightarrow> bytes) \<Rightarrow> (dbuf \<Rightarrow> dbuf option) \<Rightarrow> bool" where
  "writes g f \<longleftrightarrow>
     (\<forall>b. buf_ok b \<longrightarrow> clean (written b) \<longrightarrow> length (g (written b)) < bufsize b \<longrightarrow>
        (\<exists>b'. f b = Some b' \<and> buf_ok b' \<and> bufsize b' = bufsize b \<and> written b' = g (written b)))"

lemma writesD:
  assumes "writes g f" and "buf_ok b" and "clean (written b)" and "length (g (written b)) < bufsize b"
  obtains b' where "f b = Some b'" "buf_ok b'" "bufsize b' = bufsize b" "written b' = g (written b)"
  using assms unfolding writes_def by blast

lemma writes_bind [intro]:
  assumes f: "writes g f" and k: "writes h k"
    and "\<And>w. clean w \<Longrightarrow> length (g w) \<le> length (h (g w))" and "\<And>w. clean w \<Longrightarrow> clean (g w)"
  shows "writes (\<lambda>w. h (g w)) (\<lambda>b. f b \<bind> k)"
  unfolding writes_def
proof safe
  fix b
  assume b: "buf_ok b" "clean (written b)" and l: "length (h (g (written b))) < bufsize b"
  then have "length (g (written b)) < bufsize b" using assms(3) [OF b(2)] by simp
  then obtain b1 where b1: "f b = Some b1" "buf_ok b1" "bufsize b1 = bufsize b" "written b1 = g (written b)"
    using writesD [OF f b] by blast
  then show "\<exists>b'. (f b \<bind> k) = Some b' \<and> buf_ok b' \<and> bufsize b' = bufsize b \<and> written b' = h (g (written b))"
    using writesD [OF k b1(2)] assms(4) [OF b(2)] l by (metis bind.bind_lunit)
qed

lemma writes_map [intro]:
  assumes "writes g f" and "writes h (\<lambda>b. Some (k b))"
    and "\<And>w. clean w \<Longrightarrow> length (g w) \<le> length (h (g w))" and "\<And>w. clean w \<Longrightarrow> clean (g w)"
  shows "writes (\<lambda>w. h (g w)) (\<lambda>b. map_option k (f b))"
proof -
  have "map_option k (f b) = f b \<bind> (\<lambda>b. Some (k b))" for b by (cases "f b") auto
  then show ?thesis using writes_bind [OF assms] by simp
qed

lemma writes_cong: "writes g f \<Longrightarrow> (\<And>w. clean w \<Longrightarrow> g w = g' w) \<Longrightarrow> writes g' f"
  unfolding writes_def by metis

subsection \<open>Characters and texts\<close>

lemma written_addChar:
  assumes "buf_ok b"
  shows "buf_ok (addChar c b)" and "bufsize (addChar c b) = bufsize b"
    and "written (addChar c b) = take (bufsize b) (written b @ [c])"
  using assms by (auto simp: addChar_def buf_ok_def written_def take_Suc_conv_app_nth not_less)

lemma writes_addChar: "writes (\<lambda>w. w @ [c]) (\<lambda>b. Some (addChar c b))"
  unfolding writes_def by (auto simp: written_addChar)

lemma written_xputs:
  "buf_ok b \<Longrightarrow> n < 0 \<Longrightarrow> buf_ok (xputs s n b) \<and> bufsize (xputs s n b) = bufsize b \<and>
     written (xputs s n b) = take (bufsize b) (written b @ s)"
proof (induction s n b rule: xputs.induct)
  case (1 n b)
  then show ?case by (auto simp: buf_ok_def)
next
  case (2 c s n b)
  show ?case
  proof (cases "bufsize b \<le> pos b")
    case True
    then show ?thesis using 2(2,3) by (auto simp: buf_ok_def)
  next
    case False
    then have "take (bufsize b) (written b @ [c]) = written b @ [c]" using 2(2) by simp
    then show ?thesis using 2 False by (auto simp: written_addChar)
  qed
qed

lemma writes_xputs: "n < 0 \<Longrightarrow> writes (\<lambda>w. w @ s) (\<lambda>b. Some (xputs s n b))"
  unfolding writes_def by (auto simp: written_xputs)

lemma writes_snXp: "writes (\<lambda>w. w @ t) (snXp t)"
  unfolding writes_def
proof safe
  fix b
  assume b: "buf_ok b" and l: "length (written b @ t) < bufsize b"
  then have "pos b + length t < bufsize b" by simp
  then show "\<exists>b'. snXp t b = Some b' \<and> buf_ok b' \<and> bufsize b' = bufsize b \<and> written b' = written b @ t"
    using b by (auto simp: snXp_def Let_def buf_ok_def written_def blit_def)
qed

lemma writes_addHex2: "writes (\<lambda>w. w @ [hex_digit True (v div 16 mod 16), hex_digit True (v mod 16)]) (\<lambda>b. Some (addHex2 v b))"
  unfolding writes_def addHex2_def by (auto simp: written_addChar)

subsection \<open>Separators\<close>

definition sep :: "bytes \<Rightarrow> bytes" where
  "sep w = (if w = [] \<or> last w \<in> {44, 58, 91, 123} then w else w @ [44])"

lemma lastChar_written: "buf_ok b \<Longrightarrow> lastChar b = Some (if written b = [] then - 1 else int (last (written b)))"
proof -
  assume b: "buf_ok b"
  show ?thesis
  proof (cases "pos b")
    case 0
    then show ?thesis by (simp add: lastChar_def written_def)
  next
    case (Suc n)
    then have "written b = take n (buf b) @ [buf b ! n]" using b by (simp add: written_def buf_ok_def take_Suc_conv_app_nth)
    then show ?thesis using b Suc by (simp add: lastChar_def buf_ok_def)
  qed
qed

lemma anotherValue_written:
  assumes "buf_ok b"
  shows "\<exists>b'. anotherValue b = Some b' \<and> buf_ok b' \<and> bufsize b' = bufsize b \<and>
    written b' = take (bufsize b) (sep (written b))"
proof -
  have "anotherValue b = Some (if written b = [] \<or> last (written b) \<in> {44, 58, 91, 123} then b else addChar 44 b)"
    using lastChar_written [OF assms] by (simp add: anotherValue_def)
  moreover have "take (bufsize b) (written b) = written b" using assms by (simp add: buf_ok_def)
  ultimately show ?thesis using assms written_addChar [OF assms, of 44] by (auto simp: sep_def)
qed

lemma writes_anotherValue: "writes sep anotherValue"
  unfolding writes_def using anotherValue_written by fastforce

definition str_sep :: "bytes \<Rightarrow> bytes" where
  "str_sep w =
     (if w \<noteq> [] \<and> last w = 8 \<and> butlast w \<noteq> [] \<and> last (butlast w) = 34 then butlast (butlast w)
      else sep w @ [34])"

lemma str_sep_clean: "clean w \<Longrightarrow> str_sep w = sep w @ [34]"
  by (auto simp: str_sep_def clean_def)


lemma anotherString_written:
  assumes "buf_ok b"
  shows "\<exists>b'. anotherString b = Some b' \<and> buf_ok b' \<and> bufsize b' = bufsize b \<and>
    written b' = take (bufsize b) (str_sep (written b))"
proof (cases "pos b \<ge> 2 \<and> buf b ! (pos b - 1) = 8 \<and> buf b ! (pos b - 2) = 34")
  case True
  then obtain n where n: "pos b = Suc (Suc n)" using less_eqE [of 2 "pos b"] by auto
  then have w: "written b = (take n (buf b) @ [34]) @ [8]"
    using assms True by (simp add: written_def buf_ok_def take_Suc_conv_app_nth)
  then have "str_sep (written b) = take n (buf b)" by (simp add: str_sep_def butlast_append)
  then show ?thesis using assms True n by (auto simp: anotherString_def buf_ok_def written_def)
next
  case False
  have "\<not> (written b \<noteq> [] \<and> last (written b) = 8 \<and> butlast (written b) \<noteq> [] \<and> last (butlast (written b)) = 34)"
  proof
    assume a: "written b \<noteq> [] \<and> last (written b) = 8 \<and> butlast (written b) \<noteq> [] \<and> last (butlast (written b)) = 34"
    then obtain u x y where "written b = u @ [x, y]"
      by (metis append_butlast_last_id append.assoc append_Cons append_Nil)
    then have "length (written b) \<ge> 2" by simp
    then have "pos b \<ge> 2" using assms by simp
    then obtain n where n: "pos b = Suc (Suc n)" using less_eqE [of 2 "pos b"] by auto
    then have w: "written b = (take n (buf b) @ [buf b ! n]) @ [buf b ! Suc n]"
      using assms by (simp add: written_def buf_ok_def take_Suc_conv_app_nth)
    show False using a False n unfolding w by (simp add: butlast_append)
  qed
  then have ss: "str_sep (written b) = sep (written b) @ [34]" by (auto simp: str_sep_def)
  obtain b1 where b1: "anotherValue b = Some b1" "buf_ok b1" "bufsize b1 = bufsize b"
    "written b1 = take (bufsize b) (sep (written b))" using anotherValue_written [OF assms] by blast
  have "anotherString b = Some (addChar 34 b1)" using assms False b1(1) by (auto simp: anotherString_def buf_ok_def)
  moreover have "take (bufsize b) (written b1 @ [34]) = take (bufsize b) (str_sep (written b))"
    unfolding ss b1(4) by (auto simp: min_def)
  ultimately show ?thesis using b1 written_addChar [OF b1(2), of 34] by auto
qed

lemma writes_anotherString: "writes (\<lambda>w. sep w @ [34]) anotherString"
  unfolding writes_def
proof safe
  fix b
  assume b: "buf_ok b" "clean (written b)" and l: "length (sep (written b) @ [34]) < bufsize b"
  have "take (bufsize b) (sep (written b) @ [34]) = sep (written b) @ [34]" using l by simp
  then show "\<exists>b'. anotherString b = Some b' \<and> buf_ok b' \<and> bufsize b' = bufsize b \<and> written b' = sep (written b) @ [34]"
    using anotherString_written [OF b(1)] str_sep_clean [OF b(2)] by metis
qed

subsection \<open>Strings\<close>

fun escape :: "bytes \<Rightarrow> bytes" where
  "escape [] = []"
| "escape (c # s) =
     (case esc_letter c of
        Some e \<Rightarrow> [92, e]
      | None \<Rightarrow> if c < 0x20 then [92, 117, 48, 48, hex_digit True (c div 16), hex_digit True (c mod 16)] else [c]) @ escape s"

text \<open>Characters behind a full buffer are dropped, one after the other.\<close>

definition cuts :: "(dbuf \<Rightarrow> dbuf) \<Rightarrow> bytes \<Rightarrow> bool" where
  "cuts f t \<longleftrightarrow> (\<forall>b. buf_ok b \<longrightarrow> buf_ok (f b) \<and> bufsize (f b) = bufsize b \<and>
     written (f b) = take (bufsize b) (written b @ t))"

lemma cutsD: "cuts f t \<Longrightarrow> buf_ok b \<Longrightarrow> buf_ok (f b)" "cuts f t \<Longrightarrow> buf_ok b \<Longrightarrow> bufsize (f b) = bufsize b"
  "cuts f t \<Longrightarrow> buf_ok b \<Longrightarrow> written (f b) = take (bufsize b) (written b @ t)"
  by (auto simp: cuts_def)

lemma take_take_append: "take n (take n a @ b) = take n (a @ b)"
  by (cases "length a \<le> n") auto

lemma cuts_comp: "cuts f s \<Longrightarrow> cuts g t \<Longrightarrow> cuts (\<lambda>b. g (f b)) (s @ t)"
  using cutsD [of f s] cutsD [of g t] take_take_append [of _ _ t]
  unfolding cuts_def [of "\<lambda>b. g (f b)"] by (metis append_assoc)

lemma cuts_addChar: "cuts (addChar c) [c]"
  by (simp add: cuts_def written_addChar)

lemma cuts_addHex2: "cuts (addHex2 v) [hex_digit True (v div 16 mod 16), hex_digit True (v mod 16)]"
  unfolding addHex2_def [abs_def] using cuts_comp [OF cuts_addChar cuts_addChar] by simp

lemma cuts_id: "cuts (\<lambda>b. b) []"
  by (simp add: cuts_def written_def buf_ok_def)

lemma cuts_fold: "(\<And>x. cuts (f x) (t x)) \<Longrightarrow> cuts (fold f xs) (concat (map t xs))"
proof (induction xs)
  case Nil
  then show ?case using cuts_id by (simp add: id_def)
next
  case (Cons x xs)
  then show ?case using cuts_comp [OF Cons.prems [of x] Cons.IH] by (simp add: comp_def)
qed

lemma cuts_writes: "cuts f t \<Longrightarrow> writes (\<lambda>w. w @ t) (\<lambda>b. Some (f b))"
  unfolding cuts_def writes_def by auto

lemma cuts_full: "cuts f t \<Longrightarrow> buf_ok b \<Longrightarrow> pos b = bufsize b \<Longrightarrow> written (f b) = written b"
  by (simp add: cuts_def)

lemma cuts_enc_str: "cuts (enc_str_loop s) (escape s)"
proof (induction s)
  case Nil
  then show ?case using cuts_id by simp
next
  case (Cons c s)
  let ?m = "esc_letter c"
  let ?f = "\<lambda>b. case ?m of Some e \<Rightarrow> addChar e (addChar 92 b)
    | None \<Rightarrow> if c < 0x20 then addHex2 c (addHex2 0 (addChar 117 (addChar 92 b))) else addChar c b"
  let ?t = "case ?m of Some e \<Rightarrow> [92, e]
    | None \<Rightarrow> if c < 0x20 then [92, 117, 48, 48, hex_digit True (c div 16), hex_digit True (c mod 16)] else [c]"
  have f: "cuts ?f ?t"
  proof (cases ?m)
    case (Some e)
    then show ?thesis using cuts_comp [OF cuts_addChar [of 92] cuts_addChar [of e]] by simp
  next
    case None
    have "cuts (\<lambda>b. addHex2 c (addHex2 0 (addChar 117 (addChar 92 b))))
        [92, 117, 48, 48, hex_digit True (c div 16), hex_digit True (c mod 16)]" if "c < 0x20"
      using cuts_comp [OF cuts_comp [OF cuts_comp [OF cuts_addChar [of 92] cuts_addChar [of 117]] cuts_addHex2 [of 0]] cuts_addHex2 [of c]]
        None that by (simp add: hex_digit_def)
    then show ?thesis using None cuts_addChar [of c] by simp
  qed
  have step: "enc_str_loop (c # s) b = (if bufsize b \<le> pos b then b else enc_str_loop s (?f b))" for b
    by (simp split: option.splits)
  have t: "escape (c # s) = ?t @ escape s" by simp
  have g: "cuts (\<lambda>b. enc_str_loop s (?f b)) (?t @ escape s)" by (rule cuts_comp [OF f Cons.IH])
  show ?case unfolding cuts_def
  proof safe
    fix b
    assume b: "buf_ok b"
    have "bufsize b \<le> pos b \<Longrightarrow> take (bufsize b) (written b @ ?t @ escape s) = written b"
      using b by (simp add: buf_ok_def written_def)
    then show "buf_ok (enc_str_loop (c # s) b)" "bufsize (enc_str_loop (c # s) b) = bufsize b"
      "written (enc_str_loop (c # s) b) = take (bufsize b) (written b @ escape (c # s))"
      unfolding step t using cutsD [OF g b] b by auto
  qed
qed

end
