(* ===== verification/UjVals.thy ===== *)
theory UjVals
  imports UjWrites
begin

text \<open>The texts that the value encoders and their formatted output write.\<close>

section \<open>Formatted output\<close>

definition plain :: "bytes \<Rightarrow> bool" where
  "plain t \<longleftrightarrow> 8 \<notin> set t"

lemma plain_simps [simp]: "plain []" "plain (c # t) \<longleftrightarrow> c \<noteq> 8 \<and> plain t" "plain (s @ t) \<longleftrightarrow> plain s \<and> plain t"
  by (auto simp: plain_def)

lemma clean_app [simp]: "clean w \<Longrightarrow> plain t \<Longrightarrow> clean (w @ t)"
  by (cases t rule: rev_cases) (auto simp: clean_def plain_def)

lemma clean_sep [simp]: "clean w \<Longrightarrow> clean (sep w)"
  by (auto simp: clean_def sep_def)

lemma writes_app:
  "writes (\<lambda>w. w @ s) f \<Longrightarrow> writes (\<lambda>w. w @ t) k \<Longrightarrow> plain s \<Longrightarrow> writes (\<lambda>w. w @ s @ t) (\<lambda>b. f b \<bind> k)"
  using writes_bind [of "\<lambda>w. w @ s" f "\<lambda>w. w @ t" k] by simp

lemma writes_app1:
  "writes (\<lambda>w. w @ s) (\<lambda>b. Some (f b)) \<Longrightarrow> writes (\<lambda>w. w @ t) k \<Longrightarrow> plain s \<Longrightarrow> writes (\<lambda>w. w @ s @ t) (\<lambda>b. k (f b))"
  using writes_app [of s "\<lambda>b. Some (f b)" t k] by simp

lemma writes_if: "writes (\<lambda>w. w @ s) f \<Longrightarrow> writes (\<lambda>w. w @ t) g \<Longrightarrow>
    writes (\<lambda>w. w @ (if c then s else t)) (if c then f else g)"
  by simp

lemma writes_none: "writes (\<lambda>w. w @ []) Some"
  by (simp add: writes_def)

lemma plain_hex [simp]: "plain (hex_text u n)"
proof (induction u n rule: hex_text.induct)
  case (1 u n)
  then show ?case by (subst hex_text.simps) (auto simp: hex_digit_def)
qed

lemma plain_dec [simp]: "plain (dec_text n)"
proof (induction n rule: dec_text.induct)
  case (1 n)
  then show ?case by (subst dec_text.simps) auto
qed

lemma vxp_lit:
  assumes "c \<noteq> 37" and "c \<noteq> 8" and "writes (\<lambda>w. w @ t) (vxp_loop sp fmt args)"
  shows "writes (\<lambda>w. w @ c # t) (vxp_loop sp (c # fmt) args)"
  using writes_app1 [OF writes_addChar [of c] assms(3)] assms(1,2) by (simp add: vxp_loop.simps(2) [abs_def])

lemma vxp_elem:
  assumes "ch fmt 0 \<noteq> 37" and "fe_scan 0 fmt fe_ini args = Some (Some off, e, args')"
    and "ch fmt off \<in> set (bytes_of ''cduxXfgsp'')"
    and "\<And>b. std_elem (take off fmt) (ch fmt off) e args' b = map_option (\<lambda>b. (b, args'')) (snXp s b)"
    and "plain s" and "writes (\<lambda>w. w @ t) (vxp_loop sp (drop (Suc off) fmt) args'')"
  shows "writes (\<lambda>w. w @ s @ t) (vxp_loop sp (37 # fmt) args)"
proof -
  have "vxp_loop sp (37 # fmt) args b = (snXp s b \<bind> vxp_loop sp (drop (Suc off) fmt) args'')" for b
    using assms(1-4) by (cases "snXp s b") (simp_all add: vxp_loop.simps(2))
  then show ?thesis using writes_app [OF writes_snXp assms(6,5)] by presburger
qed

lemma vxp_std:
  assumes "writes (\<lambda>w. w @ t) (vxp_loop (\<lambda>_ _ _ _. None) (bytes_of fmt) args)"
  shows "writes (\<lambda>w. w @ t) (xprintf_std fmt args)"
  unfolding writes_def
proof safe
  fix b
  assume b: "buf_ok b" "clean (written b)" and l: "length (written b @ t) < bufsize b"
  obtain b1 where b1: "vxp_loop (\<lambda>_ _ _ _. None) (bytes_of fmt) args b = Some b1" "buf_ok b1" "bufsize b1 = bufsize b"
    "written b1 = written b @ t" using writesD [OF assms b l] .
  have "pos b < bufsize b" "pos b1 < bufsize b1" using l b b1 length_written [OF b1(2)] by simp_all
  then show "\<exists>b'. xprintf_std fmt args b = Some b' \<and> buf_ok b' \<and> bufsize b' = bufsize b \<and> written b' = written b @ t"
    using b1 by (auto simp: xprintf_std_def vxp_def xeos_def buf_ok_def written_def)
qed

text \<open>The elements the encoders use.\<close>

lemma conv_plain: "parse_conv [] [] = Some \<lparr>cf_flags = [], cf_width = 0, cf_prec = None\<rparr>"
  "parse_conv [108] [] = Some \<lparr>cf_flags = [], cf_width = 0, cf_prec = None\<rparr>"
  by (simp_all add: parse_conv_def conv_num_def text_num_def is_digit_def)

lemma vxp_x:
  assumes "writes (\<lambda>w. w @ t) (vxp_loop sp fmt args)" and "v < 2 ^ 31"
  shows "writes (\<lambda>w. w @ hex_text False v @ t) (vxp_loop sp (37 # 120 # fmt) (FInt (int v) # args))"
proof (rule vxp_elem)
  show "fe_scan 0 (120 # fmt) fe_ini (FInt (int v) # args) = Some (Some 0, fe_ini, FInt (int v) # args)"
    by (simp add: MAX_FMT_SIZE_def bytes_of_def)
  have "to_u 32 (int v) = v" using assms(2) by (simp add: to_u_id)
  then show "std_elem (take 0 (120 # fmt)) (ch (120 # fmt) 0) fe_ini (FInt (int v) # args) b =
      map_option (\<lambda>b. (b, args)) (snXp (hex_text False v) b)" for b
    by (cases "snXp (hex_text False v) b")
      (simp_all add: std_elem_def conv_plain ch_def conv_word_def conv_int_def field_num_def blanks_def fe_ini_def bytes_of_def)
qed (use assms(1) in \<open>simp_all add: ch_def bytes_of_def\<close>)

lemma vxp_ld:
  assumes "writes (\<lambda>w. w @ t) (vxp_loop sp fmt args)" and "- (2 ^ 63) \<le> v" and "v < 2 ^ 63"
  shows "writes (\<lambda>w. w @ int_text v @ t) (vxp_loop sp (37 # 108 # 100 # fmt) (FLong (to_u 64 v) # args))"
proof (rule vxp_elem)
  show "fe_scan 0 (108 # 100 # fmt) fe_ini (FLong (to_u 64 v) # args) = Some (Some 1, fe_ini\<lparr>fe_long := 1\<rparr>, FLong (to_u 64 v) # args)"
    by (simp add: MAX_FMT_SIZE_def bytes_of_def fe_ini_def is_digit_def)
  have "to_s 64 (int (to_u 64 v)) = v"
    using assms(2,3) by (simp add: to_s_def to_u_def mod_simps)
  then show "std_elem (take 1 (108 # 100 # fmt)) (ch (108 # 100 # fmt) 1) (fe_ini\<lparr>fe_long := 1\<rparr>) (FLong (to_u 64 v) # args) b =
      map_option (\<lambda>b. (b, args)) (snXp (int_text v) b)" for b
    by (cases "v < 0"; cases "snXp (int_text v) b")
      (simp_all add: std_elem_def conv_plain ch_def conv_word_def conv_int_def field_num_def blanks_def fe_ini_def bytes_of_def
        sign_text_def int_text_def)
qed (use assms(1) in \<open>simp_all add: ch_def bytes_of_def int_text_def\<close>)

lemma vxp_lu:
  assumes "writes (\<lambda>w. w @ t) (vxp_loop sp fmt args)"
  shows "writes (\<lambda>w. w @ dec_text v @ t) (vxp_loop sp (37 # 108 # 117 # fmt) (FLong v # args))"
proof (rule vxp_elem)
  show "fe_scan 0 (108 # 117 # fmt) fe_ini (FLong v # args) = Some (Some 1, fe_ini\<lparr>fe_long := 1\<rparr>, FLong v # args)"
    by (simp add: MAX_FMT_SIZE_def bytes_of_def fe_ini_def is_digit_def)
  show "std_elem (take 1 (108 # 117 # fmt)) (ch (108 # 117 # fmt) 1) (fe_ini\<lparr>fe_long := 1\<rparr>) (FLong v # args) b =
      map_option (\<lambda>b. (b, args)) (snXp (dec_text v) b)" for b
    by (cases "snXp (dec_text v) b")
      (simp_all add: std_elem_def conv_plain ch_def conv_word_def conv_int_def field_num_def blanks_def fe_ini_def bytes_of_def)
qed (use assms(1) in \<open>simp_all add: ch_def bytes_of_def\<close>)

lemma vxp_end: "writes (\<lambda>w. w @ []) (vxp_loop sp [] args)"
  using writes_none by (simp add: vxp_loop.simps(1) [abs_def])

section \<open>Values\<close>

lemma writes_close: "writes g f \<Longrightarrow> plain [c] \<Longrightarrow> (\<And>w. clean w \<Longrightarrow> clean (g w)) \<Longrightarrow>
    writes (\<lambda>w. g w @ [c]) (\<lambda>b. map_option (addChar c) (f b))"
  by (rule writes_map [OF _ writes_addChar]) auto

lemma writes_value:
  assumes "writes (\<lambda>w. w @ t) f"
  shows "writes (\<lambda>w. sep w @ t) (\<lambda>b. anotherValue b \<bind> f)"
  by (rule writes_bind [OF writes_anotherValue assms]) auto

lemma writes_value_cuts:
  assumes "cuts f t"
  shows "writes (\<lambda>w. sep w @ t) (\<lambda>b. map_option f (anotherValue b))"
  by (rule writes_map [OF writes_anotherValue cuts_writes [OF assms]]) auto

lemma cuts_xputs: "n < 0 \<Longrightarrow> cuts (xputs s n) s"
  by (simp add: cuts_def written_xputs)

lemma writes_encOpen: "writes (\<lambda>w. sep w @ [c]) (uj_encOpen c)"
  using writes_value_cuts [OF cuts_addChar] by (simp add: uj_encOpen_def [abs_def])

lemma writes_encClose: "writes (\<lambda>w. w @ [c]) (\<lambda>b. Some (uj_encClose c b))"
  using writes_addChar by (simp add: uj_encClose_def)

lemma writes_encNull: "writes (\<lambda>w. sep w @ bytes_of ''null'') uj_encNull"
  using writes_value_cuts [OF cuts_xputs [of "- 1"]] by (simp add: uj_encNull_def [abs_def])

lemma writes_encBool: "writes (\<lambda>w. sep w @ (if v \<noteq> 0 then bytes_of ''true'' else bytes_of ''false'')) (uj_encBool v)"
  using writes_value_cuts [OF cuts_xputs [of "- 1"]] by (simp add: uj_encBool_def [abs_def])

lemma writes_encInt: "- (2 ^ 63) \<le> v \<Longrightarrow> v < 2 ^ 63 \<Longrightarrow> writes (\<lambda>w. sep w @ int_text v) (uj_encInt v)"
  using writes_value [OF vxp_std [where fmt = "''%ld''"]] vxp_ld [OF vxp_end, of v]
  by (simp add: uj_encInt_def [abs_def] bytes_of_def)

lemma writes_encUint: "writes (\<lambda>w. sep w @ dec_text v) (uj_encUint v)"
  using writes_value [OF vxp_std [where fmt = "''%lu''"]] vxp_lu [OF vxp_end, of v]
  by (simp add: uj_encUint_def [abs_def] bytes_of_def)

lemma conv_prec6: "parse_conv [46, 54] [] = Some \<lparr>cf_flags = [], cf_width = 0, cf_prec = Some 6\<rparr>"
  by (simp add: parse_conv_def conv_num_def text_num_def is_digit_def)

lemma snprintf_dbl_texts:
  "snprintf_dbl '''' 103 v = snXp ((if v < 0 then [45] else []) @ general_text 6 \<bar>v\<bar>)"
  "snprintf_dbl ''.6'' 102 v = snXp ((if v < 0 then [45] else []) @ fixed_text 6 \<bar>v\<bar>)"
  by (rule ext, simp add: snprintf_dbl_def bytes_of_def conv_plain conv_prec6 field_num_def blanks_def sign_text_def)+

lemma writes_encNum: "writes (\<lambda>w. sep w @ (if v < 0 then [45] else []) @ general_text 6 \<bar>v\<bar>) (uj_encNum v)"
  using writes_value [OF writes_snXp] by (simp add: uj_encNum_def [abs_def] snprintf_dbl_texts)

lemma writes_encTime: "writes (\<lambda>w. sep w @ (if v < 0 then [45] else []) @ fixed_text 6 \<bar>v\<bar>) (uj_encTime v)"
  using writes_value [OF writes_snXp] by (simp add: uj_encTime_def [abs_def] snprintf_dbl_texts)

text \<open>A value in quotes.\<close>

lemma writes_quoted:
  assumes "writes (\<lambda>w. w @ t) f" and "plain t"
  shows "writes (\<lambda>w. sep w @ 34 # t @ [34]) (\<lambda>b. map_option (addChar 34) (anotherString b \<bind> f))"
proof -
  have "writes (\<lambda>w. (sep w @ [34]) @ t) (\<lambda>b. anotherString b \<bind> f)"
    by (rule writes_bind [OF writes_anotherString assms(1)]) auto
  then have "writes (\<lambda>w. ((sep w @ [34]) @ t) @ [34]) (\<lambda>b. map_option (addChar 34) (anotherString b \<bind> f))"
    by (rule writes_close) (use assms(2) in auto)
  then show ?thesis by simp
qed

lemma writes_quoted_cuts:
  assumes "cuts f t" and "plain t"
  shows "writes (\<lambda>w. sep w @ 34 # t @ [34]) (\<lambda>b. map_option (\<lambda>b. addChar 34 (f b)) (anotherString b))"
proof -
  have "map_option (addChar 34) (x \<bind> (\<lambda>b. Some (f b))) = map_option (\<lambda>b. addChar 34 (f b)) x" for x by (cases x) auto
  then show ?thesis using writes_quoted [OF cuts_writes [OF assms(1)] assms(2)] by simp
qed

lemma hex_digit_plain [simp]: "hex_digit u d \<noteq> 8"
  by (simp add: hex_digit_def)

lemma esc_letter_some: "esc_letter c = Some e \<Longrightarrow> (c, e) \<in> {(92, 92), (34, 34), (8, 98), (12, 102), (10, 110), (13, 114), (9, 116)}"
  by (auto simp: esc_letter_def split: if_splits)

lemma plain_escape [simp]: "plain (escape s)"
proof (induction s)
  case (Cons c s)
  have "esc_letter 8 = Some 98" by (simp add: esc_letter_def)
  then show ?case using Cons by (auto split: option.splits dest: esc_letter_some)
qed simp

lemma writes_encStr: "writes (\<lambda>w. sep w @ 34 # escape s @ [34]) (uj_encStr (Some s))"
  using writes_quoted_cuts [OF cuts_enc_str plain_escape] by (simp add: uj_encStr_def [abs_def])

definition hex2 :: "nat \<Rightarrow> bytes" where
  "hex2 v = [hex_digit True (v div 16 mod 16), hex_digit True (v mod 16)]"

lemma plain_hex2 [simp]: "plain (hex2 v)"
  by (simp add: hex2_def)

lemma cuts_hex2: "cuts (addHex2 v) (hex2 v)"
  using cuts_addHex2 by (simp add: hex2_def)

lemma plain_concat [simp]: "(\<And>x. plain (f x)) \<Longrightarrow> plain (concat (map f xs))"
  by (induction xs) auto

lemma writes_encHex:
  "writes (\<lambda>w. sep w @ 34 # concat (map hex2 d) @ [34]) (uj_encHex (Some d) (int (length d)))"
proof -
  have "uj_encHex (Some d) (int (length d)) = (\<lambda>b. map_option (\<lambda>b. addChar 34 (fold addHex2 d b)) (anotherString b))"
    by (rule ext) (auto simp: uj_encHex_def mem_bytes_def map_option_case split: option.splits)
  then show ?thesis using writes_quoted_cuts [OF cuts_fold [OF cuts_hex2]] by simp
qed

text \<open>EUIs, MAC addresses and the 64 bits in the style of IPv6.\<close>

definition mac_text :: "uL \<Rightarrow> bytes" where
  "mac_text m = hex2 (m div 2 ^ 40) @ concat (map (\<lambda>i. 58 # hex2 (m div 2 ^ i)) [32, 24, 16, 8, 0])"

lemma cuts_encMac: "cuts (encMac m) (mac_text m)"
proof -
  have "cuts (\<lambda>b. addHex2 (m div 2 ^ i) (addChar 58 b)) (58 # hex2 (m div 2 ^ i))" for i
    using cuts_comp [OF cuts_addChar cuts_hex2] by simp
  from cuts_comp [OF cuts_hex2 [of "m div 2 ^ 40"] cuts_fold [OF this, where xs = "[32, 24, 16, 8, 0]"]]
  show ?thesis unfolding encMac_def [abs_def] mac_text_def .
qed

lemma writes_encMac: "writes (\<lambda>w. sep w @ 34 # mac_text m @ [34]) (uj_encMac m)"
  using writes_quoted_cuts [OF cuts_encMac] by (simp add: uj_encMac_def [abs_def] mac_text_def)

fun dash_bytes :: "nat \<Rightarrow> uL \<Rightarrow> bytes" where
  "dash_bytes 0 eui = []"
| "dash_bytes (Suc n) eui = 45 # hex2 (eui div 2 ^ (8 * n)) @ dash_bytes n eui"

definition eui_text :: "uL \<Rightarrow> bytes" where
  "eui_text eui = hex2 (eui div 2 ^ 56) @ dash_bytes 7 eui"

lemma cuts_eui_bytes: "cuts (eui_bytes n eui) (dash_bytes n eui)"
proof (induction n)
  case 0
  then show ?case using cuts_id by simp
next
  case (Suc n)
  then show ?case using cuts_comp [OF cuts_comp [OF cuts_addChar [of 45] cuts_hex2] Suc.IH] by simp
qed

lemma cuts_encEui: "cuts (encEui eui 0) (eui_text eui)"
  using cuts_comp [OF cuts_hex2 cuts_eui_bytes] by (simp add: encEui_def [abs_def] eui_text_def)

lemma plain_dash [simp]: "plain (dash_bytes n eui)"
  by (induction n) auto

lemma writes_encEui: "writes (\<lambda>w. sep w @ 34 # eui_text eui @ [34]) (uj_encEui eui)"
  using writes_quoted_cuts [OF cuts_encEui] by (simp add: uj_encEui_def [abs_def] eui_text_def)

definition grp :: "uL \<Rightarrow> nat \<Rightarrow> nat" where
  "grp eui i = eui div 2 ^ (48 - 16 * i) mod 2 ^ 16"

definition id6_text :: "uL \<Rightarrow> bytes" where
  "id6_text eui =
     (let g = grp eui; h = (\<lambda>i. hex_text False (g i)) in
      if g 0 = 0 \<and> g 1 = 0 then (if g 2 = 0 then [58, 58] @ h 3 else [58, 58] @ h 2 @ 58 # h 3)
      else if g 2 = 0 \<and> g 3 = 0 then (if g 1 = 0 then h 0 @ [58, 58] else h 0 @ 58 # h 1 @ [58, 58])
      else if g 1 = 0 \<and> g 2 = 0 then h 0 @ [58, 58] @ h 3
      else h 0 @ 58 # h 1 @ 58 # h 2 @ 58 # h 3)"

lemma grp_less: "grp eui i < 2 ^ 31"
proof -
  have "grp eui i < 2 ^ 16" by (simp add: grp_def)
  then show ?thesis by simp
qed

lemma plain_id6 [simp]: "plain (id6_text eui)"
  by (simp add: id6_text_def Let_def)

lemma writes_encId6_text: "writes (\<lambda>w. w @ id6_text eui) (encId6 eui)"
proof -
  let ?h = "\<lambda>i. hex_text False (grp eui i)" and ?a = "\<lambda>i. FInt (int (grp eui i))"
  note x = vxp_x [OF _ grp_less]
  note c = vxp_lit [of 58, simplified]
  have "writes (\<lambda>w. w @ [58, 58] @ ?h 3) (xprintf_std ''::%x'' [?a 3])"
    by (rule vxp_std) (use c [OF c [OF x [OF vxp_end, of eui 3]]] in \<open>simp add: bytes_of_def\<close>)
  moreover have "writes (\<lambda>w. w @ [58, 58] @ ?h 2 @ 58 # ?h 3) (xprintf_std ''::%x:%x'' [?a 2, ?a 3])"
    by (rule vxp_std) (use c [OF c [OF x [OF c [OF x [OF vxp_end, of eui 3]], of eui 2]]] in \<open>simp add: bytes_of_def\<close>)
  moreover have "writes (\<lambda>w. w @ ?h 0 @ [58, 58]) (xprintf_std ''%x::'' [?a 0])"
    by (rule vxp_std) (use x [OF c [OF c [OF vxp_end]], of eui 0] in \<open>simp add: bytes_of_def\<close>)
  moreover have "writes (\<lambda>w. w @ ?h 0 @ 58 # ?h 1 @ [58, 58]) (xprintf_std ''%x:%x::'' [?a 0, ?a 1])"
    by (rule vxp_std) (use x [OF c [OF x [OF c [OF c [OF vxp_end]], of eui 1]], of eui 0] in \<open>simp add: bytes_of_def\<close>)
  moreover have "writes (\<lambda>w. w @ ?h 0 @ [58, 58] @ ?h 3) (xprintf_std ''%x::%x'' [?a 0, ?a 3])"
    by (rule vxp_std) (use x [OF c [OF c [OF x [OF vxp_end, of eui 3]]], of eui 0] in \<open>simp add: bytes_of_def\<close>)
  moreover have "writes (\<lambda>w. w @ ?h 0 @ 58 # ?h 1 @ 58 # ?h 2 @ 58 # ?h 3) (xprintf_std ''%x:%x:%x:%x'' [?a 0, ?a 1, ?a 2, ?a 3])"
    by (rule vxp_std) (use x [OF c [OF x [OF c [OF x [OF c [OF x [OF vxp_end, of eui 3]], of eui 2]], of eui 1]], of eui 0]
        in \<open>simp add: bytes_of_def\<close>)
  moreover have "encId6 eui = (
      if grp eui 0 = 0 \<and> grp eui 1 = 0 then
        (if grp eui 2 = 0 then xprintf_std ''::%x'' [?a 3] else xprintf_std ''::%x:%x'' [?a 2, ?a 3])
      else if grp eui 2 = 0 \<and> grp eui 3 = 0 then
        (if grp eui 1 = 0 then xprintf_std ''%x::'' [?a 0] else xprintf_std ''%x:%x::'' [?a 0, ?a 1])
      else if grp eui 1 = 0 \<and> grp eui 2 = 0 then xprintf_std ''%x::%x'' [?a 0, ?a 3]
      else xprintf_std ''%x:%x:%x:%x'' [?a 0, ?a 1, ?a 2, ?a 3])"
    by (rule ext) (simp only: encId6_def Let_def grp_def if_distribR)
  ultimately show ?thesis unfolding id6_text_def Let_def by (simp only: writes_if)
qed

lemma writes_encId6: "writes (\<lambda>w. sep w @ 34 # id6_text eui @ [34]) (uj_encId6 eui)"
proof -
  have "uj_encId6 eui = (\<lambda>b. map_option (addChar 34) (anotherString b \<bind> encId6 eui))"
    by (rule ext) (auto simp: uj_encId6_def map_option_case split: option.splits bind_splits)
  then show ?thesis using writes_quoted [OF writes_encId6_text plain_id6] by simp
qed

end
