(* ===== verification/UjObj.thy ===== *)
theory UjObj
  imports UjProps UjVals
begin

text \<open>
  The encoder of key and value lists (\<open>uj_encKVn\<close>) writes JSON: arguments as values of a datatype, the
  contract of a value encoder as a locale, and the texts as those of JSON values.
\<close>

section \<open>Value encoders\<close>

text \<open>
  A value encoder writes a text behind a separator; the text does not end like the start of a list.
\<close>

definition grows :: "(bytes \<Rightarrow> bytes) \<Rightarrow> bool" where
  "grows g \<longleftrightarrow> (\<forall>w. clean w \<longrightarrow> length w \<le> length (g w))"

definition keeps :: "(bytes \<Rightarrow> bytes) \<Rightarrow> bool" where
  "keeps g \<longleftrightarrow> (\<forall>w. clean w \<longrightarrow> clean (g w) \<and> length w \<le> length (g w))"

lemma keeps_sep: "plain t \<Longrightarrow> keeps (\<lambda>w. sep w @ t)"
  by (auto simp: keeps_def sep_def)

lemma keeps_app: "plain t \<Longrightarrow> keeps (\<lambda>w. w @ t)"
  by (auto simp: keeps_def)

lemma keeps_comp: "keeps g \<Longrightarrow> keeps h \<Longrightarrow> keeps (\<lambda>w. g (h w))"
  by (auto simp: keeps_def intro: le_trans)

lemma grows_comp: "grows g \<Longrightarrow> keeps h \<Longrightarrow> grows (\<lambda>w. g (h w))"
  by (auto simp: keeps_def grows_def intro: le_trans)

lemma writes_then: "writes h f \<Longrightarrow> keeps h \<Longrightarrow> writes g k \<Longrightarrow> grows g \<Longrightarrow> writes (\<lambda>w. g (h w)) (\<lambda>b. f b \<bind> k)"
  by (rule writes_bind) (auto simp: grows_def keeps_def)

locale value_encoder =
  fixes enc :: "'v \<Rightarrow> dbuf \<Rightarrow> dbuf option" and tx :: "'v \<Rightarrow> bytes" and good :: "'v \<Rightarrow> bool"
  assumes enc_writes: "good v \<Longrightarrow> writes (\<lambda>w. sep w @ tx v) (enc v)"
    and tx_plain: "good v \<Longrightarrow> plain (tx v)"
    and tx_ends: "good v \<Longrightarrow> tx v \<noteq> [] \<and> last (tx v) \<notin> {44, 58, 91, 123}"
begin

lemma enc_then: "good v \<Longrightarrow> writes g k \<Longrightarrow> grows g \<Longrightarrow> writes (\<lambda>w. g (sep w @ tx v)) (\<lambda>b. enc v b \<bind> k)"
  by (rule writes_then [OF enc_writes keeps_sep]) (auto simp: tx_plain)

end

definition elems :: "bytes \<Rightarrow> bytes list \<Rightarrow> bytes" where
  "elems w ts = foldl (\<lambda>w t. sep w @ t) w ts"

lemma elems_simps [simp]: "elems w [] = w" "elems w (t # ts) = elems (sep w @ t) ts"
  by (simp_all add: elems_def)

lemma length_elems: "length w \<le> length (elems w ts)"
proof (induction ts arbitrary: w)
  case (Cons t ts)
  have "length w \<le> length (sep w @ t)" by (simp add: sep_def)
  then show ?case using Cons [of "sep w @ t"] by simp
qed simp

lemma clean_elems: "clean w \<Longrightarrow> \<forall>t \<in> set ts. plain t \<Longrightarrow> clean (elems w ts)"
  by (induction ts arbitrary: w) auto

lemma commas_tail: "commas (t # ts) = t @ concat (map (\<lambda>t. 44 # t) ts)"
  by (induction ts arbitrary: t) auto

text \<open>Behind an opening bracket the elements are separated by commas.\<close>

lemma elems_tail:
  assumes "w \<noteq> []" and "last w \<notin> {44, 58, 91, 123}" and "\<forall>t \<in> set ts. t \<noteq> [] \<and> last t \<notin> {44, 58, 91, 123}"
  shows "elems w ts = w @ concat (map (\<lambda>t. 44 # t) ts)"
  using assms
proof (induction ts arbitrary: w)
  case (Cons t ts)
  have "elems (w @ 44 # t) ts = (w @ 44 # t) @ concat (map (\<lambda>t. 44 # t) ts)" by (rule Cons.IH) (use Cons.prems in auto)
  then show ?case using Cons.prems by (simp add: sep_def)
qed simp

lemma elems_open:
  assumes "c \<in> {91, 123}" and "\<forall>t \<in> set ts. t \<noteq> [] \<and> last t \<notin> {44, 58, 91, 123}"
  shows "elems (w @ [c]) ts = w @ c # commas ts"
proof (cases ts)
  case (Cons t us)
  have "elems ((w @ [c]) @ t) us = ((w @ [c]) @ t) @ concat (map (\<lambda>t. 44 # t) us)"
    by (rule elems_tail) (use assms(2) Cons in auto)
  moreover have "sep (w @ [c]) = w @ [c]" using assms(1) by (auto simp: sep_def)
  ultimately show ?thesis using Cons commas_tail [of t us] by simp
qed simp

section \<open>Arguments\<close>

text \<open>The arguments of \<open>uj_encKVn\<close> by type letter.\<close>

datatype jarg = Ab int | Ai int | AI int | Au nat | AU nat | Ag rat | AT rat | As "bytes option"
  | AE uL | AM uL | A6 uL | AH bytes

primrec arg_letter :: "jarg \<Rightarrow> nat" where
  "arg_letter (Ab _) = 98" | "arg_letter (Ai _) = 105" | "arg_letter (AI _) = 73" | "arg_letter (Au _) = 117"
| "arg_letter (AU _) = 85" | "arg_letter (Ag _) = 103" | "arg_letter (AT _) = 84" | "arg_letter (As _) = 115"
| "arg_letter (AE _) = 69" | "arg_letter (AM _) = 77" | "arg_letter (A6 _) = 54" | "arg_letter (AH _) = 72"

primrec arg_vals :: "jarg \<Rightarrow> farg list" where
  "arg_vals (Ab v) = [FInt v]" | "arg_vals (Ai v) = [FInt v]" | "arg_vals (AI v) = [FLong (to_u 64 v)]"
| "arg_vals (Au v) = [FInt (to_s 32 (int v))]" | "arg_vals (AU v) = [FLong v]" | "arg_vals (Ag v) = [FDbl v]"
| "arg_vals (AT v) = [FDbl v]" | "arg_vals (As s) = [FStr s]" | "arg_vals (AE v) = [FLong v]" | "arg_vals (AM v) = [FLong v]"
| "arg_vals (A6 v) = [FLong v]" | "arg_vals (AH d) = [FInt (int (length d)), FMem (Some d)]"

primrec enc_jarg :: "jarg \<Rightarrow> dbuf \<Rightarrow> dbuf option" where
  "enc_jarg (Ab v) = uj_encBool v" | "enc_jarg (Ai v) = uj_encInt v" | "enc_jarg (AI v) = uj_encInt v"
| "enc_jarg (Au v) = uj_encUint v" | "enc_jarg (AU v) = uj_encUint v" | "enc_jarg (Ag v) = uj_encNum v"
| "enc_jarg (AT v) = uj_encTime v" | "enc_jarg (As s) = uj_encStr s" | "enc_jarg (AE v) = uj_encEui v"
| "enc_jarg (AM v) = uj_encMac v" | "enc_jarg (A6 v) = uj_encId6 v"
| "enc_jarg (AH d) = uj_encHex (Some d) (int (length d))"

primrec jarg_text :: "jarg \<Rightarrow> bytes" where
  "jarg_text (Ab v) = (if v \<noteq> 0 then bytes_of ''true'' else bytes_of ''false'')"
| "jarg_text (Ai v) = int_text v" | "jarg_text (AI v) = int_text v"
| "jarg_text (Au v) = dec_text v" | "jarg_text (AU v) = dec_text v"
| "jarg_text (Ag v) = (if v < 0 then [45] else []) @ general_text 6 \<bar>v\<bar>"
| "jarg_text (AT v) = (if v < 0 then [45] else []) @ fixed_text 6 \<bar>v\<bar>"
| "jarg_text (As s) = (case s of None \<Rightarrow> bytes_of ''null'' | Some s \<Rightarrow> 34 # escape s @ [34])"
| "jarg_text (AE v) = 34 # eui_text v @ [34]" | "jarg_text (AM v) = 34 # mac_text v @ [34]"
| "jarg_text (A6 v) = 34 # id6_text v @ [34]" | "jarg_text (AH d) = 34 # concat (map hex2 d) @ [34]"

text \<open>Arguments in the range of their type; strings end at a zero.\<close>

definition cstring :: "bytes \<Rightarrow> bool" where
  "cstring s \<longleftrightarrow> 0 \<notin> set s"

primrec jarg_ok :: "jarg \<Rightarrow> bool" where
  "jarg_ok (Ab v) = True" | "jarg_ok (Ai v) = (- (2 ^ 31) \<le> v \<and> v < 2 ^ 31)"
| "jarg_ok (AI v) = (- (2 ^ 63) \<le> v \<and> v < 2 ^ 63)" | "jarg_ok (Au v) = (v < 2 ^ 32)" | "jarg_ok (AU v) = True"
| "jarg_ok (Ag v) = True" | "jarg_ok (AT v) = True" | "jarg_ok (As s) = (\<forall>t. s = Some t \<longrightarrow> cstring t)"
| "jarg_ok (AE v) = True" | "jarg_ok (AM v) = True" | "jarg_ok (A6 v) = True" | "jarg_ok (AH d) = True"

lemma encArg_jarg:
  assumes "jarg_ok a"
  shows "encArg (arg_letter a) (arg_vals a @ args) b = map_option (\<lambda>b. Some (args, b)) (enc_jarg a b)"
proof (cases a)
  case (AI v)
  then have "to_s 64 (int (to_u 64 v)) = v"
    using assms by (simp add: to_s_def to_u_def mod_simps)
  then show ?thesis using AI by (simp add: encArg_def bytes_of_def)
next
  case (Au v)
  then have "to_u 32 (to_s 32 (int v)) = v" using assms by (simp add: to_s_def to_u_def mod_simps)
  then show ?thesis using Au by (simp add: encArg_def bytes_of_def)
qed (simp_all add: encArg_def bytes_of_def)

section \<open>Texts of values are JSON\<close>

definition is_json :: "bytes \<Rightarrow> bool" where
  "is_json t \<longleftrightarrow> (\<exists>j. json_ok j \<and> json_text j = t)"

lemma digits_dec: "digits (dec_text n)"
proof (induction n rule: dec_text.induct)
  case (1 n)
  then show ?case by (subst dec_text.simps) (auto simp: digits_def)
qed

lemma digits_pad0: "digits t \<Longrightarrow> digits (pad0 n t)"
  by (auto simp: digits_def pad0_def zeros_def)

lemma hex_digit_val: "d < 16 \<Longrightarrow> rt_hexDigit (hex_digit u d) = int d"
  by (auto simp: hex_digit_def rt_hexDigit_def)

text \<open>Escaping is undone by the grammar.\<close>

theorem unescape_escape: "0 \<notin> set s \<Longrightarrow> unescape (escape s) = Some s"
proof (induction s)
  case (Cons c s)
  then have IH: "unescape (escape s) = Some s" and c: "c \<noteq> 0" by auto
  show ?case
  proof (cases "esc_letter c")
    case (Some e)
    then show ?thesis using IH by (auto dest!: esc_letter_some simp: simple_escape_def)
  next
    case None
    then have n: "c \<noteq> 92" "c \<noteq> 34" by (auto simp: esc_letter_def split: if_splits)
    show ?thesis
    proof (cases "c < 0x20")
      case True
      have "int (c div 16) * 16 + int (c mod 16) = int c" by presburger
      moreover have "rt_hexDigit 48 = 0" by (simp add: rt_hexDigit_def)
      ultimately have "hex4 48 48 (hex_digit True (c div 16)) (hex_digit True (c mod 16)) = Some c"
        using True by (simp add: hex4_def hex_digit_val)
      moreover have "utf8_tail c = [c]" using True by (simp add: utf8_tail_def)
      ultimately show ?thesis using None True IH n by (simp add: simple_escape_def)
    next
      case False
      then show ?thesis using None IH n c by simp
    qed
  qed
qed simp

lemma unescape_plain: "0 \<notin> set t \<Longrightarrow> 34 \<notin> set t \<Longrightarrow> 92 \<notin> set t \<Longrightarrow> unescape t = Some t"
  by (induction t) auto

lemma is_json_quoted: "unescape t \<noteq> None \<Longrightarrow> is_json (34 # t @ [34])"
  unfolding is_json_def by (rule exI [of _ "JStr t"]) auto

lemma is_json_int: "is_json (int_text v)" "is_json (dec_text n)"
  unfolding is_json_def int_text_def
  by (rule exI [of _ "JNum (v < 0) (dec_text (nat \<bar>v\<bar>)) None None"], simp add: num_text_def digits_dec)
    (rule exI [of _ "JNum False (dec_text n) None None"], simp add: num_text_def digits_dec)

text \<open>The texts of floating point values are numbers.\<close>

definition num_part :: "bytes \<Rightarrow> bool" where
  "num_part t \<longleftrightarrow> (\<exists>ds frac ex. json_ok (JNum False ds frac ex) \<and> t = num_text False ds frac ex)"

lemma is_json_num: "num_part t \<Longrightarrow> is_json ((if neg then [45] else []) @ t)"
  unfolding num_part_def is_json_def
proof safe
  fix ds frac ex
  assume "json_ok (JNum False ds frac ex)"
  then show "\<exists>j. json_ok j \<and> json_text j = (if neg then [45] else []) @ num_text False ds frac ex"
    by (intro exI [of _ "JNum neg ds frac ex"]) (simp add: num_text_def)
qed

lemma fixed_num: "num_part (fixed_text p q)"
proof -
  obtain a b where "fixed_text p q = dec_text a @ (if p = 0 then [] else 46 # pad0 p (dec_text b))"
    by (simp add: fixed_text_def Let_def)
  then show ?thesis unfolding num_part_def
    by (intro exI [of _ "dec_text a"] exI [of _ "if p = 0 then None else Some (pad0 p (dec_text b))"] exI [of _ None])
      (simp add: num_text_def digits_dec digits_pad0)
qed

lemma strip_zeros_num:
  assumes "digits a" and "fs = None \<or> (\<exists>f. fs = Some f \<and> digits f)"
  shows "\<exists>fs'. strip_zeros (a @ (case fs of None \<Rightarrow> [] | Some f \<Rightarrow> 46 # f)) = a @ (case fs' of None \<Rightarrow> [] | Some f \<Rightarrow> 46 # f) \<and>
    (fs' = None \<or> (\<exists>f. fs' = Some f \<and> digits f))"
proof (cases fs)
  case None
  then show ?thesis using assms(1) by (intro exI [of _ None]) (auto simp: strip_zeros_def digits_def)
next
  case (Some f)
  let ?z = "\<lambda>c. c = (48 :: nat)"
  define g where "g = rev (dropWhile ?z (rev f))"
  have "dropWhile ?z (rev (a @ 46 # f)) = dropWhile ?z (rev f) @ 46 # rev a"
  proof (cases "\<forall>c \<in> set f. c = 48")
    case True
    then have "dropWhile ?z (rev f) = []" by simp
    moreover have "dropWhile ?z (rev f @ 46 # rev a) = dropWhile ?z (46 # rev a)" by (rule dropWhile_append2) (use True in auto)
    ultimately show ?thesis by simp
  next
    case False
    then obtain c where "c \<in> set (rev f)" "c \<noteq> 48" by auto
    then show ?thesis by (simp add: dropWhile_append1)
  qed
  then have u: "rev (dropWhile ?z (rev (a @ 46 # f))) = a @ 46 # g" by (simp add: g_def)
  have "set g \<subseteq> set f" by (auto simp: g_def dest: set_dropWhileD)
  then have g: "\<forall>c \<in> set g. 48 \<le> c \<and> c \<le> 57" using assms(2) Some by (auto simp: digits_def)
  show ?thesis
  proof (cases "g = []")
    case True
    then show ?thesis using Some u by (intro exI [of _ None]) (simp add: strip_zeros_def butlast_append)
  next
    case False
    then have "last g \<noteq> 46" using bspec [OF g last_in_set] by auto
    then show ?thesis using Some u False g by (intro exI [of _ "Some g"]) (simp add: strip_zeros_def digits_def)
  qed
qed

lemma strip_fixed:
  obtains ds fs where "strip_zeros (fixed_text p q) = ds @ (case fs of None \<Rightarrow> [] | Some f \<Rightarrow> 46 # f)" "digits ds"
    "fs = None \<or> (\<exists>f. fs = Some f \<and> digits f)"
proof -
  let ?n = "nat (round_even (q * 10 ^ p))"
  define a b where "a = ?n div 10 ^ p" and "b = ?n mod 10 ^ p"
  have "fixed_text p q = dec_text a @ (case (if p = 0 then None else Some (pad0 p (dec_text b))) of None \<Rightarrow> [] | Some f \<Rightarrow> 46 # f)"
    by (simp add: fixed_text_def Let_def a_def b_def)
  then show ?thesis
    using strip_zeros_num [OF digits_dec [of a], of "if p = 0 then None else Some (pad0 p (dec_text b))"]
      digits_pad0 [OF digits_dec] digits_dec that by (metis (no_types, lifting))
qed

lemma general_num: "num_part (general_text p q)"
proof -
  have zero: "num_part [48]" unfolding num_part_def
    by (intro exI [of _ "[48]"] exI [of _ None]) (simp add: num_text_def digits_def)
  have plain: "num_part (strip_zeros (fixed_text k r))" for k r
  proof -
    obtain ds fs where s: "strip_zeros (fixed_text k r) = ds @ (case fs of None \<Rightarrow> [] | Some f \<Rightarrow> 46 # f)" "digits ds"
      "fs = None \<or> (\<exists>f. fs = Some f \<and> digits f)" by (rule strip_fixed)
    then show ?thesis unfolding num_part_def
      by (intro exI [of _ ds] exI [of _ fs] exI [of _ None]) (auto simp: num_text_def)
  qed
  have expo: "num_part (strip_zeros (fixed_text k r) @ exp_text e)" for k r e
  proof -
    obtain ds fs where s: "strip_zeros (fixed_text k r) = ds @ (case fs of None \<Rightarrow> [] | Some f \<Rightarrow> 46 # f)" "digits ds"
      "fs = None \<or> (\<exists>f. fs = Some f \<and> digits f)" by (rule strip_fixed)
    then show ?thesis unfolding num_part_def
      by (intro exI [of _ ds] exI [of _ fs] exI [of _ "Some (Some (if e < 0 then 45 else 43), pad0 2 (dec_text (nat \<bar>e\<bar>)))"])
        (auto simp: num_text_def exp_text_def digits_pad0 digits_dec)
  qed
  show ?thesis using zero plain expo by (simp add: general_text_def Let_def)
qed

lemma hex_chars [simp]: "hex_digit u d \<noteq> 0" "hex_digit u d \<noteq> 34" "d < 16 \<Longrightarrow> hex_digit u d \<noteq> 92"
  by (auto simp: hex_digit_def)

lemma hex_text_chars: "c \<in> set (hex_text u n) \<Longrightarrow> c \<notin> {0, 34, 92}"
proof (induction u n rule: hex_text.induct)
  case (1 u n)
  then show ?case by (subst (asm) (2) hex_text.simps) (auto simp: hex_digit_def split: if_splits)
qed

lemma hex2_chars: "set (hex2 v) \<inter> {0, 34, 92} = {}"
  by (auto simp: hex2_def hex_digit_def)

lemma dash_chars: "set (dash_bytes n e) \<inter> {0, 34, 92} = {}"
  using hex2_chars by (induction n) auto

lemma unescape_chars: "set t \<inter> {0, 34, 92} = {} \<Longrightarrow> unescape t \<noteq> None"
  using unescape_plain [of t] by auto

lemma jarg_json: "jarg_ok a \<Longrightarrow> is_json (jarg_text a)"
proof (cases a)
  case (As s)
  moreover have "is_json (bytes_of ''null'')" unfolding is_json_def by (rule exI [of _ JNull]) simp
  ultimately show "jarg_ok a \<Longrightarrow> ?thesis"
    by (cases s) (auto simp: cstring_def unescape_escape intro!: is_json_quoted)
next
  case (Ab v)
  then show ?thesis unfolding is_json_def by (intro exI [of _ "JBool (v \<noteq> 0)"]) simp
next
  case (AE v)
  have "set (eui_text v) \<inter> {0, 34, 92} = {}" unfolding eui_text_def using hex2_chars dash_chars by auto
  then show ?thesis using AE by (simp add: is_json_quoted unescape_chars)
next
  case (AM v)
  have "set (mac_text v) \<inter> {0, 34, 92} = {}" unfolding mac_text_def using hex2_chars by auto
  then show ?thesis using AM by (simp add: is_json_quoted unescape_chars)
next
  case (A6 v)
  have "set (id6_text v) \<inter> {0, 34, 92} = {}" by (auto simp: id6_text_def Let_def dest: hex_text_chars)
  then show ?thesis using A6 by (simp add: is_json_quoted unescape_chars)
next
  case (AH d)
  have "set (concat (map hex2 d)) \<inter> {0, 34, 92} = {}" using hex2_chars by auto
  then show ?thesis using AH by (simp add: is_json_quoted unescape_chars)
qed (use is_json_int is_json_num [OF general_num] is_json_num [OF fixed_num] in auto)

lemma num_plain: "num_part t \<Longrightarrow> plain t \<and> t \<noteq> [] \<and> last t \<notin> {44, 58, 91, 123}"
proof -
  assume "num_part t"
  then obtain ds frac ex where t: "json_ok (JNum False ds frac ex)" "t = num_text False ds frac ex"
    by (auto simp: num_part_def)
  then have all: "\<forall>c \<in> set t. c \<in> {48..57} \<union> {46, 101, 43, 45}"
    by (auto simp: num_text_def digits_def split: option.splits prod.splits)
  have ne: "t \<noteq> []" using t by (auto simp: num_text_def digits_def)
  then have "last t \<in> {48..57} \<union> {46, 101, 43, 45}" using all last_in_set by blast
  then have "last t \<notin> {44, 58, 91, 123}" by auto
  moreover have "plain t" using all by (auto simp: plain_def)
  ultimately show ?thesis using ne by blast
qed

lemma int_text_num: "num_part (dec_text n)"
  unfolding num_part_def by (intro exI [of _ "dec_text n"] exI [of _ None]) (simp add: num_text_def digits_dec)

lemma signed_plain: "num_part t \<Longrightarrow> plain ((if neg then [45] else []) @ t) \<and> (if neg then [45] else []) @ t \<noteq> [] \<and>
    last ((if neg then [45] else []) @ t) \<notin> {44, 58, 91, 123}"
  using num_plain [of t] by auto

text \<open>The encoders of the arguments keep the contract.\<close>

interpretation args: value_encoder enc_jarg jarg_text jarg_ok
proof
  fix a assume ok: "jarg_ok a"
  show "writes (\<lambda>w. sep w @ jarg_text a) (enc_jarg a)"
  proof (cases a)
    case (As s)
    moreover have "uj_encStr None = uj_encNull" by (rule ext) (simp add: uj_encStr_def)
    ultimately show ?thesis using writes_encStr writes_encNull by (cases s) simp_all
  qed (use ok writes_encBool writes_encInt writes_encUint writes_encNum writes_encTime writes_encEui writes_encMac
        writes_encId6 writes_encHex in auto)
  show "plain (jarg_text a)"
    using signed_plain [OF general_num] signed_plain [OF fixed_num] signed_plain [OF int_text_num]
    by (cases a) (auto simp: bytes_of_def int_text_def eui_text_def mac_text_def split: option.splits)
  show "jarg_text a \<noteq> [] \<and> last (jarg_text a) \<notin> {44, 58, 91, 123}"
    using signed_plain [OF general_num] signed_plain [OF fixed_num] signed_plain [OF int_text_num]
      num_plain [OF int_text_num]
    by (cases a) (auto simp: bytes_of_def int_text_def split: option.splits)
qed

section \<open>Key and value lists\<close>

text \<open>A value: an argument, an array of arguments, or an object.\<close>

datatype kval = KArg jarg | KArr "jarg list" | KObj "(bytes \<times> kval) list"

primrec kval_vals :: "kval \<Rightarrow> farg list" where
  "kval_vals (KArg a) = FInt (int (arg_letter a)) # arg_vals a"
| "kval_vals (KArr as) = FInt 91 # concat (map (\<lambda>a. FInt (int (arg_letter a)) # arg_vals a) as) @ [FInt 93]"
| "kval_vals (KObj fs) =
     FInt 123 # concat (map (\<lambda>kv. FStr (Some (fst kv)) # snd kv) (map (map_prod id kval_vals) fs)) @ [FStr (Some [125])]"

definition kv_args :: "(bytes \<times> kval) list \<Rightarrow> farg list" where
  "kv_args fs = concat (map (\<lambda>kv. FStr (Some (fst kv)) # kval_vals (snd kv)) fs)"

primrec kval_text :: "kval \<Rightarrow> bytes" where
  "kval_text (KArg a) = jarg_text a"
| "kval_text (KArr as) = 91 # commas (map jarg_text as) @ [93]"
| "kval_text (KObj fs) =
     123 # commas (map (\<lambda>kt. 34 # escape (fst kt) @ 34 # 58 # snd kt) (map (map_prod id kval_text) fs)) @ [125]"

definition kv_text :: "bytes \<times> kval \<Rightarrow> bytes" where
  "kv_text kv = 34 # escape (fst kv) @ 34 # 58 # kval_text (snd kv)"

text \<open>Keys are C strings and none is a closing brace alone.\<close>

definition key_ok :: "bytes \<Rightarrow> bool" where
  "key_ok k \<longleftrightarrow> cstring k \<and> k \<noteq> [125]"

primrec kval_ok :: "kval \<Rightarrow> bool" where
  "kval_ok (KArg a) = jarg_ok a"
| "kval_ok (KArr as) = list_all jarg_ok as"
| "kval_ok (KObj fs) = list_all (\<lambda>kb. key_ok (fst kb) \<and> snd kb) (map (map_prod id kval_ok) fs)"

lemma kval_obj:
  "kval_vals (KObj fs) = FInt 123 # kv_args fs @ [FStr (Some [125])]"
  "kval_text (KObj fs) = 123 # commas (map kv_text fs) @ [125]"
  "kval_ok (KObj fs) \<longleftrightarrow> (\<forall>kv \<in> set fs. key_ok (fst kv) \<and> kval_ok (snd kv))"
  by (auto simp: kv_args_def kv_text_def list_all_iff comp_def intro!: arg_cong [where f = commas])

lemma kval_text_ends: "kval_ok v \<Longrightarrow> kval_text v \<noteq> [] \<and> last (kval_text v) \<notin> {44, 58, 91, 123}"
  using args.tx_ends by (cases v) auto

lemma plain_commas: "\<forall>t \<in> set ts. plain t \<Longrightarrow> plain (commas ts)"
  by (induction ts rule: commas.induct) auto

lemma kval_text_plain: "kval_ok v \<Longrightarrow> plain (kval_text v)"
proof (induction v)
  case (KArr as)
  then show ?case by (auto simp: list_all_iff args.tx_plain intro!: plain_commas)
next
  case (KObj fs)
  have "\<forall>kv \<in> set fs. plain (kv_text kv)"
    using KObj unfolding kval_obj by (auto simp: kv_text_def)
  then show ?case unfolding kval_obj by (auto intro!: plain_commas)
qed (simp add: args.tx_plain)

lemma kv_text_ends: "kval_ok (snd kv) \<Longrightarrow> kv_text kv \<noteq> [] \<and> last (kv_text kv) \<notin> {44, 58, 91, 123} \<and> plain (kv_text kv)"
  using kval_text_ends [of "snd kv"] kval_text_plain [of "snd kv"] by (auto simp: kv_text_def)

lemma args_ends: "list_all jarg_ok as \<Longrightarrow> \<forall>t \<in> set (map jarg_text as). t \<noteq> [] \<and> last t \<notin> {44, 58, 91, 123}"
  using args.tx_ends by (auto simp: list_all_iff)

text \<open>The loop over the elements of an array, and over the fields.\<close>

lemma kvn_elem:
  assumes "jarg_ok a"
  shows "encKVn True (FInt (int (arg_letter a)) # arg_vals a @ args) = (\<lambda>b. enc_jarg a b \<bind> encKVn True args)"
proof
  fix b
  have "arg_letter a \<noteq> 93" by (cases a) auto
  then show "encKVn True (FInt (int (arg_letter a)) # arg_vals a @ args) b = enc_jarg a b \<bind> encKVn True args"
    using encArg_jarg [OF assms] by (subst encKVn.simps) (cases "enc_jarg a b", auto)
qed

lemma keeps_elems: "\<forall>t \<in> set ts. plain t \<Longrightarrow> keeps (\<lambda>w. elems w ts)"
  by (simp add: keeps_def clean_elems length_elems)

lemma kvn_array:
  assumes "list_all jarg_ok as" and "writes g (encKVn False rest)" and "grows g"
  shows "writes (\<lambda>w. g (elems w (map jarg_text as) @ [93]))
    (encKVn True (concat (map (\<lambda>a. FInt (int (arg_letter a)) # arg_vals a) as) @ FInt 93 # rest))"
  using assms(1)
proof (induction as)
  case Nil
  have "encKVn True (FInt 93 # rest) = (\<lambda>b. Some (uj_encClose 93 b) \<bind> encKVn False rest)"
    by (rule ext) (subst encKVn.simps, simp)
  moreover have "writes (\<lambda>w. g (w @ [93])) (\<lambda>b. Some (uj_encClose 93 b) \<bind> encKVn False rest)"
    by (rule writes_then [OF writes_encClose keeps_app assms(2,3)]) simp
  ultimately show ?case by simp
next
  case (Cons a as)
  have "grows (\<lambda>w. g (elems w (map jarg_text as) @ [93]))"
    by (rule grows_comp [OF assms(3) keeps_comp [OF keeps_app keeps_elems]])
      (use Cons.prems args.tx_plain in \<open>auto simp: list_all_iff\<close>)
  then show ?case using args.enc_then [of a "\<lambda>w. g (elems w (map jarg_text as) @ [93])"] Cons kvn_elem [of a] by simp
qed

lemma writes_encKey:
  assumes "cstring k"
  shows "writes (\<lambda>w. sep w @ 34 # escape k @ [34, 58]) (uj_encKey (Some k))"
  using writes_close [OF writes_encStr, of 58 k] by (simp add: uj_encKey_def [abs_def])

text \<open>A field is its key, a colon and its value; behind the colon there is no separator.\<close>

lemma field_value:
  assumes "cstring k" and "writes h f" and "grows h"
  shows "writes (\<lambda>w. h (sep w @ 34 # escape k @ [34, 58])) (\<lambda>b. uj_encKey (Some k) b \<bind> f)"
  by (rule writes_then [OF writes_encKey [OF assms(1)] keeps_sep assms(2,3)]) simp

definition fields_ok :: "(bytes \<times> kval) list \<Rightarrow> bool" where
  "fields_ok fs \<longleftrightarrow> (\<forall>kv \<in> set fs. key_ok (fst kv) \<and> kval_ok (snd kv))"

lemma kvn_key:
  assumes "key_ok k"
  shows "encKVn False (FStr (Some k) # FInt l # args) = (\<lambda>b. uj_encKey (Some k) b \<bind>
    (if l = 123 then (\<lambda>b. uj_encOpen 123 b \<bind> encKVn False args)
     else if l = 91 then (\<lambda>b. uj_encOpen 91 b \<bind> encKVn True args)
     else (\<lambda>b. case encArg (nat l) args b of None \<Rightarrow> None | Some None \<Rightarrow> Some b
            | Some (Some (args, b)) \<Rightarrow> encKVn False args b)))"
  by (rule ext, subst encKVn.simps) (use assms in \<open>auto simp: key_ok_def split: option.splits bind_splits\<close>)

lemma sep_colon [simp]: "sep (w @ x # t @ [34, 58]) = w @ x # t @ [34, 58]"
  by (simp add: sep_def)

text \<open>What encoding a value does in front of the remaining arguments.\<close>

definition encodes :: "kval \<Rightarrow> bool" where
  "encodes v \<longleftrightarrow> (\<forall>k g rest. key_ok k \<longrightarrow> writes g (encKVn False rest) \<longrightarrow> grows g \<longrightarrow>
     writes (\<lambda>w. g (sep w @ 34 # escape k @ 34 # 58 # kval_text v)) (encKVn False (FStr (Some k) # kval_vals v @ rest)))"

lemma kvn_fields:
  "(\<And>kv. kv \<in> set fs \<Longrightarrow> encodes (snd kv) \<and> key_ok (fst kv) \<and> kval_ok (snd kv)) \<Longrightarrow> writes g (encKVn False rest) \<Longrightarrow> grows g \<Longrightarrow>
    writes (\<lambda>w. g (elems w (map kv_text fs))) (encKVn False (kv_args fs @ rest))"
proof (induction fs)
  case Nil
  then show ?case by (simp add: kv_args_def)
next
  case (Cons kv fs)
  have r: "writes (\<lambda>w. g (elems w (map kv_text fs))) (encKVn False (kv_args fs @ rest))"
    by (rule Cons.IH) (use Cons.prems in auto)
  have "\<forall>t \<in> set (map kv_text fs). plain t" using Cons.prems(1) kv_text_ends by force
  then have "grows (\<lambda>w. g (elems w (map kv_text fs)))" by (intro grows_comp [OF Cons.prems(3) keeps_elems])
  moreover have "encodes (snd kv)" "key_ok (fst kv)" using Cons.prems(1) by auto
  ultimately have "writes (\<lambda>w. g (elems (sep w @ 34 # escape (fst kv) @ 34 # 58 # kval_text (snd kv)) (map kv_text fs)))
      (encKVn False (FStr (Some (fst kv)) # kval_vals (snd kv) @ kv_args fs @ rest))"
    using r unfolding encodes_def by blast
  then show ?case by (simp add: kv_args_def kv_text_def [of kv])
qed

lemma encodes_arg: "jarg_ok a \<Longrightarrow> encodes (KArg a)"
  unfolding encodes_def
proof safe
  fix k g rest
  assume a: "jarg_ok a" and k: "key_ok k" and g: "writes g (encKVn False rest)" "grows g"
  have x: "arg_letter a \<notin> {123, 91}" by (cases a) auto
  have e: "encKVn False (FStr (Some k) # kval_vals (KArg a) @ rest) =
      (\<lambda>b. uj_encKey (Some k) b \<bind> (\<lambda>b. enc_jarg a b \<bind> encKVn False rest))"
    using x encArg_jarg [OF a] by (auto simp: kvn_key [OF k] fun_eq_iff split: option.splits bind_splits)
  have "writes (\<lambda>w. g (sep w @ jarg_text a)) (\<lambda>b. enc_jarg a b \<bind> encKVn False rest)" by (rule args.enc_then [OF a g])
  moreover have "grows (\<lambda>w. g (sep w @ jarg_text a))" by (rule grows_comp [OF g(2) keeps_sep]) (rule args.tx_plain [OF a])
  ultimately have "writes (\<lambda>w. g (sep (sep w @ 34 # escape k @ [34, 58]) @ jarg_text a))
      (\<lambda>b. uj_encKey (Some k) b \<bind> (\<lambda>b. enc_jarg a b \<bind> encKVn False rest))"
    using k by (intro field_value) (auto simp: key_ok_def)
  then show "writes (\<lambda>w. g (sep w @ 34 # escape k @ 34 # 58 # kval_text (KArg a))) (encKVn False (FStr (Some k) # kval_vals (KArg a) @ rest))"
    unfolding e by simp
qed

lemma encodes_open:
  assumes c: "c \<in> {91, 123}" and ts: "\<forall>t \<in> set ts. t \<noteq> [] \<and> last t \<notin> {44, 58, 91, 123} \<and> plain t"
    and k: "key_ok k" and g: "grows g"
    and f: "writes (\<lambda>w. g (elems w ts @ [c + 2])) f"
  shows "writes (\<lambda>w. g (sep w @ 34 # escape k @ 34 # 58 # c # commas ts @ [c + 2]))
    (\<lambda>b. uj_encKey (Some k) b \<bind> (\<lambda>b. uj_encOpen c b \<bind> f))"
proof -
  have p: "c \<noteq> 8" "c + 2 \<noteq> 8" using c by auto
  have "grows (\<lambda>w. g (elems w ts @ [c + 2]))"
    by (rule grows_comp [OF g keeps_comp [OF keeps_app keeps_elems]]) (use p ts in auto)
  moreover from this have "writes (\<lambda>w. g (elems (sep w @ [c]) ts @ [c + 2])) (\<lambda>b. uj_encOpen c b \<bind> f)"
    by (intro writes_then [OF writes_encOpen keeps_sep f]) (use p in auto)
  moreover have "grows (\<lambda>w. g (elems (sep w @ [c]) ts @ [c + 2]))"
    by (rule grows_comp [OF g keeps_comp [OF keeps_app keeps_comp [OF keeps_elems keeps_sep]]]) (use p ts in auto)
  ultimately have "writes (\<lambda>w. g (elems (sep (sep w @ 34 # escape k @ [34, 58]) @ [c]) ts @ [c + 2]))
      (\<lambda>b. uj_encKey (Some k) b \<bind> (\<lambda>b. uj_encOpen c b \<bind> f))"
    using k by (intro field_value) (auto simp: key_ok_def)
  moreover have "elems (sep w @ 34 # escape k @ [34, 58, c]) ts = sep w @ 34 # escape k @ 34 # 58 # c # commas ts" for w
    using elems_open [OF c, of ts "sep w @ 34 # escape k @ [34, 58]"] ts by simp
  ultimately show ?thesis by simp
qed

lemma encodes_all: "kval_ok v \<Longrightarrow> encodes v"
proof (induction v)
  case (KArg a)
  then show ?case by (simp add: encodes_arg)
next
  case (KArr as)
  then have as: "list_all jarg_ok as" by simp
  show ?case unfolding encodes_def
  proof safe
    fix k g rest
    assume k: "key_ok k" and g: "writes g (encKVn False rest)" "grows g"
    have "writes (\<lambda>w. g (sep w @ 34 # escape k @ 34 # 58 # 91 # commas (map jarg_text as) @ [91 + 2]))
        (\<lambda>b. uj_encKey (Some k) b \<bind> (\<lambda>b. uj_encOpen 91 b \<bind>
          encKVn True (concat (map (\<lambda>a. FInt (int (arg_letter a)) # arg_vals a) as) @ FInt 93 # rest)))"
      by (rule encodes_open [OF _ _ k g(2)])
        (use as args.tx_ends args.tx_plain kvn_array [OF as g] in \<open>auto simp: list_all_iff\<close>)
    then show "writes (\<lambda>w. g (sep w @ 34 # escape k @ 34 # 58 # kval_text (KArr as))) (encKVn False (FStr (Some k) # kval_vals (KArr as) @ rest))"
      by (simp add: kvn_key [OF k])
  qed
next
  case (KObj fs)
  have ok: "\<And>kv. kv \<in> set fs \<Longrightarrow> encodes (snd kv) \<and> key_ok (fst kv) \<and> kval_ok (snd kv)"
    using KObj unfolding kval_obj by (metis prod.collapse snds.intros)
  show ?case unfolding encodes_def
  proof safe
    fix k g rest
    assume k: "key_ok k" and g: "writes g (encKVn False rest)" "grows g"
    let ?r = "FStr (Some [125]) # rest"
    have "encKVn False ?r = (\<lambda>b. Some (uj_encClose 125 b) \<bind> encKVn False rest)" by (rule ext) (subst encKVn.simps, simp)
    moreover have "writes (\<lambda>w. g (w @ [125])) (\<lambda>b. Some (uj_encClose 125 b) \<bind> encKVn False rest)"
      by (rule writes_then [OF writes_encClose keeps_app g]) simp
    ultimately have "writes (\<lambda>w. g (w @ [125])) (encKVn False ?r)" by simp
    moreover have "grows (\<lambda>w. g (w @ [125]))" by (rule grows_comp [OF g(2) keeps_app]) simp
    ultimately have f: "writes (\<lambda>w. g (elems w (map kv_text fs) @ [125])) (encKVn False (kv_args fs @ ?r))"
      using kvn_fields [OF ok, where g = "\<lambda>w. g (w @ [125])"] by simp
    have "writes (\<lambda>w. g (sep w @ 34 # escape k @ 34 # 58 # 123 # commas (map kv_text fs) @ [123 + 2]))
        (\<lambda>b. uj_encKey (Some k) b \<bind> (\<lambda>b. uj_encOpen 123 b \<bind> encKVn False (kv_args fs @ ?r)))"
      by (rule encodes_open [OF _ _ k g(2)]) (use ok kv_text_ends f in auto)
    then show "writes (\<lambda>w. g (sep w @ 34 # escape k @ 34 # 58 # kval_text (KObj fs))) (encKVn False (FStr (Some k) # kval_vals (KObj fs) @ rest))"
      unfolding kval_obj by (simp add: kvn_key [OF k])
  qed
qed

section \<open>The encoder writes JSON\<close>

lemma kval_json: "kval_ok v \<Longrightarrow> is_json (kval_text v)"
proof (induction v)
  case (KArg a)
  then show ?case by (simp add: jarg_json)
next
  case (KArr as)
  then have "\<forall>a \<in> set as. \<exists>j. json_ok j \<and> json_text j = jarg_text a" using jarg_json by (auto simp: list_all_iff is_json_def)
  then obtain f where f: "\<forall>a \<in> set as. json_ok (f a) \<and> json_text (f a) = jarg_text a" by metis
  then have "map json_text (map f as) = map jarg_text as" by simp
  then show ?case unfolding is_json_def using f by (intro exI [of _ "JArr (map f as)"]) (simp del: map_map)
next
  case (KObj fs)
  then have "\<forall>kv \<in> set fs. \<exists>j. json_ok j \<and> json_text j = kval_text (snd kv)"
    unfolding kval_obj is_json_def by (metis prod.collapse snds.intros)
  then obtain f where f: "\<forall>kv \<in> set fs. json_ok (f kv) \<and> json_text (f kv) = kval_text (snd kv)" by metis
  let ?fs = "map (\<lambda>kv. (escape (fst kv), f kv)) fs"
  have "map (\<lambda>(k, v). 34 # k @ 34 # 58 # json_text v) ?fs = map kv_text fs" using f by (simp add: kv_text_def)
  moreover have "\<forall>kv \<in> set fs. unescape (escape (fst kv)) \<noteq> None"
    using KObj.prems unescape_escape unfolding kval_obj by (auto simp: key_ok_def cstring_def)
  ultimately show ?case unfolding is_json_def kval_obj
    using f by (intro exI [of _ "JObj ?fs"]) (auto simp del: map_map)
qed

text \<open>C11: The encoder writes JSON: opening an object, encoding any list of keys with values, arrays and
  nested objects through \<open>uj_encKVn\<close> and closing it appends, behind the right separator, the text of
  a JSON object whose keys are exactly the given ones, escaped and in order; it holds wherever the
  buffer has room for that text and a terminator.\<close>

theorem uj_encKVn_json:
  assumes "buf_ok b" and "clean (written b)" and "kval_ok (KObj fs)"
    and "length (sep (written b) @ kval_text (KObj fs)) < bufsize b"
  shows "\<exists>b'. (uj_encOpen 123 b \<bind> uj_encKVn (kv_args fs @ [FStr None])) = Some b' \<and>
    written (uj_encClose 125 b') = sep (written b) @ kval_text (KObj fs) \<and>
    (\<exists>vs. json_ok (JObj vs) \<and> json_text (JObj vs) = kval_text (KObj fs) \<and> map fst vs = map (escape \<circ> fst) fs)"
proof -
  have ok: "\<And>kv. kv \<in> set fs \<Longrightarrow> encodes (snd kv) \<and> key_ok (fst kv) \<and> kval_ok (snd kv)"
    using assms(3) encodes_all unfolding kval_obj by blast
  have "encKVn False [FStr None] = Some" by (rule ext) (subst encKVn.simps, simp)
  then have "writes (\<lambda>w. w) (encKVn False [FStr None])" by (simp add: writes_def)
  from kvn_fields [OF ok this] have w: "writes (\<lambda>w. elems w (map kv_text fs)) (uj_encKVn (kv_args fs @ [FStr None]))"
    by (simp add: grows_def uj_encKVn_def [abs_def])
  have ends: "\<forall>t \<in> set (map kv_text fs). t \<noteq> [] \<and> last t \<notin> {44, 58, 91, 123}" proof -
    have "kv_text kv \<noteq> [] \<and> last (kv_text kv) \<notin> {44, 58, 91, 123}" if "kv \<in> set fs" for kv
      using ok [OF that] kv_text_ends by blast
    then show ?thesis by simp
  qed
  have "writes (\<lambda>w. elems (sep w @ [123]) (map kv_text fs)) (\<lambda>b. uj_encOpen 123 b \<bind> uj_encKVn (kv_args fs @ [FStr None]))"
    by (rule writes_then [OF writes_encOpen keeps_sep w]) (auto simp: grows_def length_elems)
  then have "writes (\<lambda>w. sep w @ 123 # commas (map kv_text fs)) (\<lambda>b. uj_encOpen 123 b \<bind> uj_encKVn (kv_args fs @ [FStr None]))"
    using elems_open [OF _ ends] by simp
  from writesD [OF this assms(1,2)] obtain b' where b': "(uj_encOpen 123 b \<bind> uj_encKVn (kv_args fs @ [FStr None])) = Some b'"
    "buf_ok b'" "bufsize b' = bufsize b" "written b' = sep (written b) @ 123 # commas (map kv_text fs)"
    using assms(4) unfolding kval_obj by auto
  have "written (uj_encClose 125 b') = sep (written b) @ kval_text (KObj fs)"
    using b' assms(4) written_addChar [OF b'(2), of 125] unfolding kval_obj by (simp add: uj_encClose_def)
  moreover have "\<forall>kv \<in> set fs. \<exists>j. json_ok j \<and> json_text j = kval_text (snd kv)"
    using ok kval_json unfolding is_json_def by blast
  then obtain f where f: "\<forall>kv \<in> set fs. json_ok (f kv) \<and> json_text (f kv) = kval_text (snd kv)" by metis
  let ?vs = "map (\<lambda>kv. (escape (fst kv), f kv)) fs"
  have "json_text (JObj ?vs) = kval_text (KObj fs)" unfolding kval_obj
    using f by (simp add: kv_text_def comp_def cong: map_cong)
  moreover have "json_ok (JObj ?vs)" using f ok by (auto simp: key_ok_def cstring_def unescape_escape)
  moreover have "map fst ?vs = map (escape \<circ> fst) fs" by simp
  ultimately show ?thesis using b'(1) by blast
qed

text \<open>The object \<open>{"msgtype":"dntxed","diid":7,"xtimes":[-1],"upinfo":{"fts":true}}\<close>.\<close>

definition sample_kvs :: "(bytes \<times> kval) list" where
  "sample_kvs =
     [(bytes_of ''msgtype'', KArg (As (Some (bytes_of ''dntxed'')))), (bytes_of ''diid'', KArg (AI 7)),
      (bytes_of ''xtimes'', KArr [AI (- 1)]), (bytes_of ''upinfo'', KObj [(bytes_of ''fts'', KArg (Ab 1))])]"

lemma bytes_of_length [simp]: "length (bytes_of s) = length s"
  by (simp add: bytes_of_def)

theorem uj_encKVn_json_witness:
  "\<exists>b'. (uj_encOpen 123 \<lparr>buf = replicate 100 0, pos = 0\<rparr> \<bind> uj_encKVn (kv_args sample_kvs @ [FStr None])) = Some b' \<and>
    written (uj_encClose 125 b') = bytes_of ''{\"msgtype\":\"dntxed\",\"diid\":7,\"xtimes\":[-1],\"upinfo\":{\"fts\":true}}''"
proof -
  let ?b = "\<lparr>buf = replicate 100 0, pos = 0\<rparr> :: dbuf"
  have d: "dec_text 7 = [55]" "dec_text (Suc 0) = [49]" by (subst dec_text.simps, simp)+
  have t: "kval_text (KObj sample_kvs) = bytes_of ''{\"msgtype\":\"dntxed\",\"diid\":7,\"xtimes\":[-1],\"upinfo\":{\"fts\":true}}''"
    by (simp add: sample_kvs_def d int_text_def esc_letter_def)
  have w: "written ?b = []" by (simp add: written_def)
  have "buf_ok ?b" "clean (written ?b)" by (simp_all add: buf_ok_def w clean_def)
  moreover have "kval_ok (KObj sample_kvs)" by (simp add: sample_kvs_def key_ok_def cstring_def)
  moreover have "length (sep (written ?b) @ kval_text (KObj sample_kvs)) < bufsize ?b" unfolding t w by (simp add: sep_def)
  ultimately show ?thesis using uj_encKVn_json [of ?b sample_kvs] unfolding t w by (auto simp: sep_def)
qed

end
