(* ===== verification/UjCodes.thy ===== *)
theory UjCodes
  imports UjObj
begin

text \<open>
  Strings through encoder and decoder, and what the encoder does when the buffer is full.
\<close>

section \<open>Strings\<close>

text \<open>C14: Strings survive: whatever bytes a C string holds, reading the value that \<open>uj_encStr\<close> wrote with
  the decoder gives these bytes back, and their keyword hash.\<close>

theorem uj_str_roundtrip:
  assumes "buf_ok b" and "cstring s" and "pos b = 0" and "length (escape s) + 2 < bufsize b"
  shows "\<exists>b'. uj_encStr (Some s) b = Some b' \<and>
    (\<exists>d'. uj_keyword (uj_iniDecoder (written b' @ rest)) = Inr (UJ_FINISH_CRC (foldl UJ_UPDATE_CRC 0 s), d') \<and>
      str_bytes d' = Some s \<and> ahead d' rest)"
proof -
  have w: "written b = []" using assms(3) by (simp add: written_def)
  then have "clean (written b)" "length (sep (written b) @ 34 # escape s @ [34]) < bufsize b"
    using assms(4) by (simp_all add: clean_def sep_def)
  then obtain b' where b': "uj_encStr (Some s) b = Some b'" "written b' = 34 # escape s @ [34]"
    using writesD [OF writes_encStr assms(1)] w by (metis append_Nil sep_def)
  let ?d = "uj_iniDecoder (written b' @ rest)"
  have "ahead ?d (34 # escape s @ 34 # rest)" "ty ?d = UJ_UNDEF" "\<not> skip_mode ?d"
    using b'(2) by (simp_all add: uj_iniDecoder_def)
  moreover have "unescape (escape s) = Some s" using assms(2) by (simp add: cstring_def unescape_escape)
  ultimately show ?thesis using uj_keyword_text b'(1) by blast
qed

theorem uj_str_roundtrip_witness:
  "\<exists>b'. uj_encStr (Some [97, 34, 7, 92, 200]) \<lparr>buf = replicate 32 0, pos = 0\<rparr> = Some b' \<and>
    (\<exists>d'. uj_keyword (uj_iniDecoder (written b' @ [44])) =
        Inr (UJ_FINISH_CRC (foldl UJ_UPDATE_CRC 0 [97, 34, 7, 92, 200]), d') \<and>
      str_bytes d' = Some [97, 34, 7, 92, 200] \<and> ahead d' [44])"
  by (rule uj_str_roundtrip) (simp_all add: buf_ok_def cstring_def esc_letter_def)

text \<open>C36: Encoding a string never leaves the buffer: \<open>uj_encStr\<close> returns for every string and every buffer,
  its text is the escaped string in quotes, merged with a string marked by \<open>uj_mergeStr\<close>, and cut off
  at the end of the buffer.\<close>

theorem uj_encStr_bounded:
  assumes "buf_ok b"
  shows "\<exists>b'. uj_encStr (Some s) b = Some b' \<and> buf_ok b' \<and> bufsize b' = bufsize b \<and>
    written b' = take (bufsize b) (str_sep (written b) @ escape s @ [34])"
proof -
  obtain b1 where b1: "anotherString b = Some b1" "buf_ok b1" "bufsize b1 = bufsize b"
    "written b1 = take (bufsize b) (str_sep (written b))" using anotherString_written [OF assms] by blast
  have c: "cuts (\<lambda>b. addChar 34 (enc_str_loop s b)) (escape s @ [34])" by (rule cuts_comp [OF cuts_enc_str cuts_addChar])
  have "written (addChar 34 (enc_str_loop s b1)) = take (bufsize b) (str_sep (written b) @ escape s @ [34])"
    using cutsD(3) [OF c b1(2)] b1(3,4) by (simp only: take_take_append)
  then show ?thesis using b1 cutsD(1,2) [OF c b1(2)] by (simp add: uj_encStr_def)
qed

text \<open>A full buffer, and one whose string waits for the rest.\<close>

theorem uj_encStr_bounded_witness:
  "\<exists>b'. uj_encStr (Some [120, 121, 122]) \<lparr>buf = [34, 97, 34, 8, 0], pos = 4\<rparr> = Some b' \<and> buf_ok b' \<and>
    written b' = [34, 97, 120, 121, 122]"
proof -
  have "buf_ok \<lparr>buf = [34, 97, 34, 8, 0], pos = 4\<rparr>" by (simp add: buf_ok_def)
  from uj_encStr_bounded [OF this, of "[120, 121, 122]"] show ?thesis
    by (auto simp: written_def str_sep_def esc_letter_def)
qed

section \<open>Numbers that do not fit\<close>

lemma lastChar_beyond: "bufsize b < pos b \<Longrightarrow> lastChar b = None"
  by (simp add: lastChar_def)

lemma snXp_beyond: "bufsize b < pos b \<Longrightarrow> snXp t b = None"
  by (simp add: snXp_def)

lemma snXp_overflow:
  assumes "pos b \<le> bufsize b" and "bufsize b < pos b + length t" and "pos b + length t < 2 ^ 32"
  obtains b' where "snXp t b = Some b'" "bufsize b' < pos b'"
proof (rule that)
  let ?n = "bufsize b - pos b"
  let ?b = "b\<lparr>buf := (if ?n = 0 then buf b else blit (pos b) (take (?n - 1) t @ [0]) (buf b)), pos := pos b + length t\<rparr>"
  show "snXp t b = Some ?b" using assms by (simp add: snXp_def Let_def)
  have "?n \<noteq> 0 \<Longrightarrow> length (take (?n - 1) t @ [0]) = ?n" using assms by simp
  then have "?n \<noteq> 0 \<Longrightarrow> length (blit (pos b) (take (?n - 1) t @ [0]) (buf b)) = bufsize b"
    using length_blit [of "pos b" "take (?n - 1) t @ [0]" "buf b"] assms(1) by simp
  then show "bufsize ?b < pos ?b" using assms(2) by simp
qed

text \<open>C37: A number that does not fit corrupts the buffer: when the text of a floating point value reaches
  past the end, \<open>uj_encNum\<close> leaves the write position behind the end, and the next value of any
  kind is an access outside of the buffer.\<close>

theorem uj_encNum_overflow:
  assumes "buf_ok b" and "sep (written b) = written b"
    and "bufsize b < pos b + length (jarg_text (Ag v))" and "pos b + length (jarg_text (Ag v)) < 2 ^ 32"
  shows "\<exists>b'. uj_encNum v b = Some b' \<and> bufsize b' < pos b' \<and>
    uj_encNum v' b' = None \<and> uj_encStr s b' = None \<and> uj_encInt i b' = None"
proof -
  let ?t = "(if v < 0 then [45] else []) @ general_text 6 \<bar>v\<bar>"
  have "anotherValue b = Some b"
    using lastChar_written [OF assms(1)] assms(2) by (auto simp: anotherValue_def sep_def split: if_splits)
  then have e: "uj_encNum v b = snXp ?t b" by (simp add: uj_encNum_def snprintf_dbl_texts)
  have p: "pos b \<le> bufsize b" using assms(1) by (simp add: buf_ok_def)
  obtain b' where b': "snXp ?t b = Some b'" "bufsize b' < pos b'"
    using snXp_overflow [OF p, of ?t] assms(3,4) by auto
  then have "anotherValue b' = None" "anotherString b' = None"
    by (simp_all add: anotherValue_def anotherString_def lastChar_beyond)
  then have "uj_encNum v' b' = None" "uj_encStr s b' = None" "uj_encInt i b' = None"
    by (auto simp: uj_encNum_def uj_encStr_def uj_encNull_def uj_encInt_def split: option.splits)
  then show ?thesis using e b' by auto
qed

theorem uj_encNum_overflow_witness:
  "\<exists>b'. uj_encNum 0 \<lparr>buf = [91], pos = 1\<rparr> = Some b' \<and> bufsize b' < pos b' \<and>
    uj_encNum 0 b' = None \<and> uj_encStr None b' = None \<and> uj_encInt 0 b' = None"
  by (rule uj_encNum_overflow) (simp_all add: buf_ok_def written_def sep_def general_text_def)

text \<open>Formatted output overruns its buffer: when a string element does not fit, the next element is
  written behind the end, whatever the number is.\<close>

theorem xprintf_overrun:
  assumes "pos b < bufsize b" and "bufsize b < pos b + length s" and "pos b + length s < 2 ^ 32"
  shows "xprintf (bytes_of ''%s%d'') [FStr (Some s), FInt n] b = None"
proof -
  have f: "bytes_of ''%s%d'' = [37, 115, 37, 100]" by (simp add: bytes_of_def)
  obtain b' where b': "snXp s b = Some b'" "bufsize b' < pos b'"
    using snXp_overflow [of b s] assms by auto
  then have "snXp t b' = None" for t by (simp add: snXp_beyond)
  then have "vxp_loop special_elem [37, 100] [FInt n] b' = None"
    by (simp add: vxp_loop.simps ch_def MAX_FMT_SIZE_def bytes_of_def std_elem_def conv_plain conv_word_def split: option.splits bind_splits)
  moreover have "std_elem [] 115 fe_ini [FStr (Some s), FInt n] b = Some (b', [FInt n])"
    using b'(1) by (simp add: std_elem_def conv_plain fe_ini_def bytes_of_def field_num_def blanks_def)
  ultimately have "vxp_loop special_elem [37, 115, 37, 100] [FStr (Some s), FInt n] b = None"
    by (subst vxp_loop.simps(2)) (simp add: ch_def MAX_FMT_SIZE_def bytes_of_def)
  then show ?thesis using assms(1) by (simp add: f xprintf_def vxprintf_def vxp_def)
qed

theorem xprintf_overrun_witness:
  "xprintf (bytes_of ''%s%d'') [FStr (Some (bytes_of ''hello'')), FInt 1] \<lparr>buf = [0, 0, 0, 0], pos = 0\<rparr> = None"
  by (rule xprintf_overrun) simp_all

end
