(* ===== verification/UjEui.thy ===== *)
theory UjEui
  imports UjVals
begin

text \<open>
  EUIs written by the encoder and read back by \<open>rt_readEui\<close>: bytes with dashes, and groups with colons.
\<close>

unbundle bit_operations_syntax

section \<open>Groups of hex digits\<close>

lemma hex_digit_read: "d < 16 \<Longrightarrow> rt_hexDigit (hex_digit u d) = int d"
  by (auto simp: hex_digit_def rt_hexDigit_def)

lemma or_shift:
  assumes "a < 16"
  shows "(a * 2 ^ s) mod 2 ^ 64 OR (b * 2 ^ (s + 4)) mod 2 ^ 64 = ((16 * b + a) * 2 ^ s) mod (2 ^ 64 :: nat)"
proof -
  have d: "push_bit 4 b OR a = push_bit 4 b + a"
  proof (rule disjunctive_add [symmetric])
    fix n
    have "bit a n \<longrightarrow> n < 4" using assms by (metis bit_take_bit_iff take_bit_nat_eq_self_iff numeral_pow power_numeral pow.simps Num.sqr.simps Num.pow.simps)
    then show "\<not> bit (push_bit 4 b) n \<or> \<not> bit a n" by (auto simp: bit_push_bit_iff_nat)
  qed
  have "(16 * b + a) * 2 ^ s = push_bit s (push_bit 4 b OR a)" unfolding d by (simp add: push_bit_eq_mult)
  then have "((16 * b + a) * 2 ^ s) mod 2 ^ 64 = take_bit 64 (push_bit s (push_bit 4 b) OR push_bit s a)"
    by (simp add: take_bit_eq_mod push_bit_or)
  also have "\<dots> = take_bit 64 (push_bit s a) OR take_bit 64 (push_bit (s + 4) b)"
    by (simp add: take_bit_or or.commute push_bit_push_bit)
  finally show ?thesis by (simp add: take_bit_eq_mod push_bit_eq_mult)
qed

lemma id6_hex:
  "16 \<le> sh + bits \<Longrightarrow> id6_loop (rev (hex_text False n) @ cs) sh bits g =
    id6_loop cs (sh + 4 * length (hex_text False n)) bits (g OR (n * 2 ^ (sh + bits - 16)) mod 2 ^ 64)"
proof (induction False n arbitrary: sh g rule: hex_text.induct)
  case (1 n)
  show ?case
  proof (cases "n < 16")
    case True
    then show ?thesis by (subst (1 2) hex_text.simps) (simp add: hex_digit_read Let_def)
  next
    case False
    have m: "n mod 16 < 16" by simp
    have "id6_loop (rev (hex_text False n) @ cs) sh bits g =
        id6_loop (rev (hex_text False (n div 16)) @ cs) (sh + 4) bits (g OR (n mod 16 * 2 ^ (sh + bits - 16)) mod 2 ^ 64)"
      using False by (subst hex_text.simps) (simp add: hex_digit_read [OF m] Let_def)
    also have "\<dots> = id6_loop cs (sh + 4 + 4 * length (hex_text False (n div 16))) bits
        ((g OR (n mod 16 * 2 ^ (sh + bits - 16)) mod 2 ^ 64) OR (n div 16 * 2 ^ (sh + 4 + bits - 16)) mod 2 ^ 64)"
      using 1 False by simp
    also have "(g OR (n mod 16 * 2 ^ (sh + bits - 16)) mod 2 ^ 64) OR (n div 16 * 2 ^ (sh + 4 + bits - 16)) mod 2 ^ 64 =
        g OR (n * 2 ^ (sh + bits - 16)) mod 2 ^ 64"
    proof -
      have "sh + 4 + bits - 16 = sh + bits - 16 + 4" using 1(2) by simp
      moreover have "16 * (n div 16) + n mod 16 = n" by simp
      ultimately show ?thesis using or_shift [OF m, of "sh + bits - 16" "n div 16"] by (simp only: or.assoc)
    qed
    finally have "id6_loop (rev (hex_text False n) @ cs) sh bits g =
      id6_loop cs (sh + 4 + 4 * length (hex_text False (n div 16))) bits (g OR (n * 2 ^ (sh + bits - 16)) mod 2 ^ 64)" .
    moreover have "length (hex_text False n) = Suc (length (hex_text False (n div 16)))"
      using False by (subst hex_text.simps) simp
    ultimately show ?thesis by (simp add: add.assoc)
  qed
qed

lemma hex_text_length: "n < 16 ^ Suc k \<Longrightarrow> length (hex_text u n) \<in> {1..Suc k}"
proof (induction k arbitrary: n)
  case 0
  then show ?case by (subst hex_text.simps) simp
next
  case (Suc k)
  show ?case
  proof (cases "n < 16")
    case True
    then show ?thesis by (subst hex_text.simps) simp
  next
    case False
    have "n div 16 < 16 ^ Suc k" using Suc.prems by (simp add: less_mult_imp_div_less mult.commute)
    from Suc.IH [OF this] show ?thesis using False by (subst hex_text.simps) auto
  qed
qed

lemma hex_len4: "n < 2 ^ 16 \<Longrightarrow> length (hex_text u n) \<in> {1..4}"
  using hex_text_length [of n 3] by simp

lemma or_high:
  assumes "(a :: nat) < 2 ^ s"
  shows "a OR (b * 2 ^ s) = a + b * 2 ^ s"
proof -
  have "\<not> bit a n \<or> \<not> bit (push_bit s b) n" for n
    using assms by (metis bit_push_bit_iff_nat bit_take_bit_iff take_bit_nat_eq_self_iff not_le)
  then have "a OR push_bit s b = a + push_bit s b" by (rule disjunctive_add [symmetric])
  then show ?thesis by (simp add: push_bit_eq_mult)
qed

text \<open>One group in front of the groups read already.\<close>

lemma id6_group:
  assumes "n < 2 ^ 16" and "g < 2 ^ (16 * k)" and "k < 4"
  shows "id6_loop (rev (hex_text False n)) 0 (16 * Suc k) g = Some (16 * Suc k, g + n * 2 ^ (16 * k))"
    and "id6_loop (rev (hex_text False n) @ 58 # cs) 0 (16 * Suc k) g = id6_loop cs 0 (16 * Suc (Suc k)) (g + n * 2 ^ (16 * k))"
proof -
  have l: "length (hex_text False n) \<in> {1..4}" by (rule hex_len4 [OF assms(1)])
  have "n * 2 ^ (16 * k) < 2 ^ (16 * Suc k)" using assms(1) by (simp add: power_add)
  also have "(2 :: nat) ^ (16 * Suc k) \<le> 2 ^ 64" by (rule power_increasing) (use assms(3) in auto)
  finally have m: "(n * 2 ^ (16 * k)) mod 2 ^ 64 = n * 2 ^ (16 * k)" by simp
  have o: "g OR n * 2 ^ (16 * k) = g + n * 2 ^ (16 * k)" by (rule or_high [OF assms(2)])
  have c: "rt_hexDigit 58 < 0" by (simp add: rt_hexDigit_def)
  show "id6_loop (rev (hex_text False n)) 0 (16 * Suc k) g = Some (16 * Suc k, g + n * 2 ^ (16 * k))"
    using id6_hex [of 0 "16 * Suc k" n "[]" g] l m o by auto
  show "id6_loop (rev (hex_text False n) @ 58 # cs) 0 (16 * Suc k) g = id6_loop cs 0 (16 * Suc (Suc k)) (g + n * 2 ^ (16 * k))"
    using id6_hex [of 0 "16 * Suc k" n "58 # cs" g] l m o c by (auto simp: Let_def algebra_simps)
qed

text \<open>Texts of one, two and four groups.\<close>

lemma parse_groups:
  assumes "a < 2 ^ 16" and "b < 2 ^ 16"
  shows "id6_loop (rev (hex_text False b)) 0 16 0 = Some (16, b)"
    and "id6_loop (rev (hex_text False a @ 58 # hex_text False b)) 0 16 0 = Some (32, b + a * 2 ^ 16)"
  using id6_group(1) [OF assms(2), of 0 0] id6_group(2) [OF assms(2), of 0 0 "rev (hex_text False a)"]
    id6_group(1) [OF assms(1), of b 1] assms by simp_all

lemma parse_groups4:
  assumes "a < 2 ^ 16" and "b < 2 ^ 16" and "c < 2 ^ 16" and "d < 2 ^ 16"
  shows "id6_loop (rev (hex_text False a @ 58 # hex_text False b @ 58 # hex_text False c @ 58 # hex_text False d)) 0 16 0 =
    Some (64, d + c * 2 ^ 16 + b * 2 ^ 32 + a * 2 ^ 48)"
proof -
  have dc: "d + c * 2 ^ 16 < 2 ^ 32" using assms(3,4) by simp
  then have dcb: "d + c * 2 ^ 16 + b * 2 ^ 32 < 2 ^ 48" using assms(2) by simp
  show ?thesis
    using id6_group(2) [OF assms(4), of 0 0 "rev (hex_text False a @ 58 # hex_text False b @ 58 # hex_text False c)"]
      id6_group(2) [OF assms(3), of d 1 "rev (hex_text False a @ 58 # hex_text False b)"]
      id6_group(2) [OF assms(2), of "d + c * 2 ^ 16" 2 "rev (hex_text False a)"]
      id6_group(1) [OF assms(1), of "d + c * 2 ^ 16 + b * 2 ^ 32" 3] dc dcb assms(4)
    by simp
qed

section \<open>Scanning\<close>

lemma eui_scan_text:
  assumes "\<forall>c \<in> set s. c = 45 \<or> c = 58 \<or> 0 \<le> rt_hexDigit c \<and> c \<noteq> 0"
  shows "n \<le> length s \<Longrightarrow> eui_scan s 0 0 n d c h =
    (length s, d + length (filter (\<lambda>c. c = 45) (drop n s)), c + length (filter (\<lambda>c. c = 58) (drop n s)),
     h + length (filter (\<lambda>c. c \<noteq> 45 \<and> c \<noteq> 58) (drop n s)))"
proof (induction "length s - n" arbitrary: n d c h)
  case 0
  then show ?case by (subst eui_scan.simps) (simp add: Let_def)
next
  case (Suc m)
  then have n: "n < length s" by simp
  have ok: "s ! n = 45 \<or> s ! n = 58 \<or> 0 \<le> rt_hexDigit (s ! n) \<and> s ! n \<noteq> 0" using assms n by simp
  have drop: "drop n s = s ! n # drop (Suc n) s" using n by (simp add: Cons_nth_drop_Suc)
  have IH: "eui_scan s 0 0 (Suc n) d c h = (length s, d + length (filter (\<lambda>c. c = 45) (drop (Suc n) s)),
      c + length (filter (\<lambda>c. c = 58) (drop (Suc n) s)), h + length (filter (\<lambda>c. c \<noteq> 45 \<and> c \<noteq> 58) (drop (Suc n) s)))" for d c h
    by (rule Suc.hyps(1)) (use Suc.hyps(2) n in auto)
  show ?case unfolding drop using ok n by (subst eui_scan.simps) (auto simp: ch_def Let_def IH)
qed

text \<open>Texts without two colons in a row.\<close>

fun nodc :: "bytes \<Rightarrow> bool" where
  "nodc (x # y # t) = (\<not> (x = 58 \<and> y = 58) \<and> nodc (y # t))"
| "nodc _ = True"

lemma nodc_nth: "nodc t \<Longrightarrow> Suc i < length t \<Longrightarrow> \<not> (t ! i = 58 \<and> t ! Suc i = 58)"
proof (induction t arbitrary: i rule: nodc.induct)
  case (1 x y t)
  then show ?case by (cases i) auto
qed auto

lemma double_colon_none:
  assumes "nodc s"
  shows "double_colon s 0 (length s) = None"
  unfolding double_colon_def
proof (subst find_None_iff, safe)
  fix i
  assume "i \<in> set [1..<length s]" and c: "ch s (0 + i) = 58" "ch s (0 + i - 1) = 58"
  then show False using nodc_nth [OF assms, of "i - 1"] by (auto simp: ch_def split: if_splits)
qed

lemma find_append: "find P (xs @ ys) = (case find P xs of None \<Rightarrow> find P ys | Some x \<Rightarrow> Some x)"
  by (induction xs) auto

lemma double_colon_at:
  assumes s: "s = a @ 58 # 58 # b" and "nodc (a @ [58])"
  shows "double_colon s 0 (length s) = Some (Suc (length a))"
proof -
  let ?P = "\<lambda>i. ch s (0 + i) = 58 \<and> ch s (0 + i - 1) = 58"
  have "find ?P [1..<Suc (length a)] = None"
  proof (subst find_None_iff, safe)
    fix i
    assume "i \<in> set [1..<Suc (length a)]" and c: "ch s (0 + i) = 58" "ch s (0 + i - 1) = 58"
    moreover from this have "1 \<le> i \<and> i < Suc (length a)" unfolding set_upt by auto
    then obtain j where j: "i = Suc j" "j < length a" by (cases i) auto
    have "s = (a @ [58]) @ 58 # b" by (simp add: s)
    then have "s ! Suc j = (a @ [58]) ! Suc j" "s ! j = (a @ [58]) ! j" using j by (simp_all only: nth_append) auto
    moreover have "ch s (Suc j) = s ! Suc j" "ch s j = s ! j" using j by (simp_all add: s ch_def)
    ultimately show False using nodc_nth [OF assms(2), of j] j c by simp
  qed
  moreover have "?P (Suc (length a))" by (simp add: s ch_def nth_append)
  ultimately have "find ?P ([1..<Suc (length a)] @ Suc (length a) # [Suc (Suc (length a))..<length s]) = Some (Suc (length a))"
    by (simp add: find_append)
  moreover have "[1..<length s] = [1..<Suc (length a)] @ Suc (length a) # [Suc (Suc (length a))..<length s]"
    using upt_add_eq_append [of 1 "Suc (length a)" "Suc (length b)"]
      upt_conv_Cons [of "Suc (length a)" "Suc (length a) + Suc (length b)"] by (simp add: s del: upt_Suc)
  ultimately show ?thesis unfolding double_colon_def by (simp only:)
qed

section \<open>Round trips\<close>

definition hexs :: "bytes \<Rightarrow> bool" where
  "hexs t \<longleftrightarrow> (\<forall>c \<in> set t. 0 \<le> rt_hexDigit c \<and> c \<noteq> 0 \<and> c \<noteq> 45 \<and> c \<noteq> 58)"

lemma hexs_simps [simp]: "hexs []" "hexs (s @ t) \<longleftrightarrow> hexs s \<and> hexs t"
  by (auto simp: hexs_def)

lemma hexs_digit: "d < 16 \<Longrightarrow> hexs [hex_digit u d]"
  by (auto simp: hexs_def hex_digit_def rt_hexDigit_def)

lemma hexs_hex_text [simp]: "hexs (hex_text u n)"
proof (induction u n rule: hex_text.induct)
  case (1 u n)
  then show ?case by (subst hex_text.simps) (simp add: hexs_digit)
qed

lemma hexs_filter: "hexs t \<Longrightarrow> filter (\<lambda>c. c = 45) t = []" "hexs t \<Longrightarrow> filter (\<lambda>c. c = 58) t = []"
  "hexs t \<Longrightarrow> filter (\<lambda>c. c \<noteq> 45 \<and> c \<noteq> 58) t = t" "hexs t \<Longrightarrow> filter (\<lambda>c. c \<noteq> 58) t = t"
  by (auto simp: hexs_def filter_empty_conv filter_id_conv)

lemma nodc_app: "hexs h \<Longrightarrow> nodc t \<Longrightarrow> nodc (h @ t)"
proof (induction h)
  case (Cons x h)
  then show ?case by (cases "h @ t") (auto simp: hexs_def)
qed simp

lemma nodc_colon: "nodc t \<Longrightarrow> t = [] \<or> hd t \<noteq> 58 \<Longrightarrow> nodc (58 # t)"
  by (cases t) auto

lemma hexs_hd: "hexs h \<Longrightarrow> h \<noteq> [] \<Longrightarrow> hd (h @ t) \<noteq> 58"
  by (cases h) (auto simp: hexs_def)

lemma nodc_more: "hexs h \<Longrightarrow> h \<noteq> [] \<Longrightarrow> nodc (h @ t) \<Longrightarrow> nodc (58 # h @ t)"
  by (rule nodc_colon) (auto dest: hexs_hd)

text \<open>The scan accepts groups of hex digits with two or three colons, and leaves the rest to \<open>read_id6\<close>.\<close>

lemma readEui_id6:
  assumes "\<forall>c \<in> set s. c = 58 \<or> hexs [c]" and "length (filter (\<lambda>c. c = 58) s) \<in> {2, 3}"
    and "0 < length (filter (\<lambda>c. c \<noteq> 58) s)" and "length (filter (\<lambda>c. c \<noteq> 58) s) \<le> 16"
    and "read_id6 s 0 (length s) = Some eui"
  shows "rt_readEui s 0 0 = (eui, Some (length s))"
proof -
  have v: "\<forall>c \<in> set s. c = 45 \<or> c = 58 \<or> 0 \<le> rt_hexDigit c \<and> c \<noteq> 0" using assms(1) by (auto simp: hexs_def)
  have "\<forall>c \<in> set s. c \<noteq> 45" using assms(1) by (auto simp: hexs_def)
  then have f: "filter (\<lambda>c. c = 45) s = []" "filter (\<lambda>c. c \<noteq> 45 \<and> c \<noteq> 58) s = filter (\<lambda>c. c \<noteq> 58) s"
    by (auto intro!: filter_cong)
  show ?thesis using eui_scan_text [OF v, of 0 0 0 0] f assms(2-5)
    by (auto simp: rt_readEui_def)
qed

lemma grp_16 [simp]: "grp eui i < 65536"
  by (simp add: grp_def)

lemma hex_nonempty [simp]: "hex_text False (grp eui i) \<noteq> []"
  using hex_len4 [of "grp eui i" False] by auto

lemma grp_sum:
  assumes "eui < 2 ^ 64"
  shows "grp eui 3 + grp eui 2 * 2 ^ 16 + grp eui 1 * 2 ^ 32 + grp eui 0 * 2 ^ 48 = eui"
proof -
  define x y z where "x = eui div 65536" and "y = x div 65536" and "z = y div 65536"
  have d: "eui div 4294967296 = y" "eui div 281474976710656 = z" by (simp_all add: x_def y_def z_def flip: div_mult2_eq)
  have "z < 65536" using assms by (simp flip: d)
  then have g: "grp eui 0 = z" "grp eui 1 = y mod 65536" "grp eui 2 = x mod 65536" "grp eui 3 = eui mod 65536"
    by (simp_all add: grp_def d x_def)
  have "eui = x * 65536 + eui mod 65536" "x = y * 65536 + x mod 65536" "y = z * 65536 + y mod 65536"
    unfolding x_def y_def z_def by simp_all
  then show ?thesis unfolding g by (simp del: div_mult_mod_eq mod_div_mult_eq)
qed

lemma parse_blk: "blk p n s = t \<Longrightarrow> parseId6Fragment s p n = id6_loop (rev t) 0 16 0"
  by (simp add: parseId6Fragment_def)

abbreviation groups :: "bytes \<Rightarrow> (nat \<times> uL) option" where
  "groups t \<equiv> id6_loop (rev t) 0 16 0"

lemma read_front: "groups t = Some (n, e) \<Longrightarrow> read_id6 (58 # 58 # t) 0 (length (58 # 58 # t)) = Some e"
  using double_colon_at [of _ "[]" t, OF refl] by (simp add: read_id6_def parseId6Fragment_def blk_def)

lemma read_back:
  assumes "nodc (a @ [58])" and "a \<noteq> []" and "groups a = Some (n, e)"
  shows "read_id6 (a @ [58, 58]) 0 (length (a @ [58, 58])) = Some (e * 2 ^ (64 - n) mod 2 ^ 64)"
  using double_colon_at [of _ a "[]", OF refl assms(1)] assms(2,3) by (simp add: read_id6_def parseId6Fragment_def blk_def)

lemma read_mid:
  assumes "nodc (a @ [58])" and "a \<noteq> []" and "b \<noteq> []" and "groups a = Some (n, x)" and "groups b = Some (m, y)"
  shows "read_id6 (a @ 58 # 58 # b) 0 (length (a @ 58 # 58 # b)) = Some (y OR (x * 2 ^ (64 - n) mod 2 ^ 64))"
  using double_colon_at [of _ a b, OF refl assms(1)] assms(2-) by (simp add: read_id6_def parseId6Fragment_def blk_def)

lemma read_plain: "nodc s \<Longrightarrow> groups s = Some (n, e) \<Longrightarrow> read_id6 s 0 (length s) = Some e"
  by (simp add: read_id6_def parseId6Fragment_def blk_def double_colon_none)

lemma id6_roundtrip:
  assumes "eui < 2 ^ 64"
  shows "rt_readEui (id6_text eui) 0 0 = (eui, Some (length (id6_text eui)))"
proof -
  let ?h = "\<lambda>i. hex_text False (grp eui i)"
  have pg: "groups (?h i) = Some (16, grp eui i)" "groups (?h j @ 58 # ?h i) = Some (32, grp eui i + grp eui j * 2 ^ 16)" for i j
    using parse_groups [of "grp eui j" "grp eui i"] by simp_all
  note s = grp_sum [OF assms]
  have l: "length (?h i) \<in> {1..4}" for i using hex_len4 [of "grp eui i" False] by simp
  have v: "\<forall>c \<in> set (id6_text eui). c = 58 \<or> hexs [c]"
    using hexs_hex_text by (auto simp: id6_text_def Let_def hexs_def)
  have ok: "rt_readEui (id6_text eui) 0 0 = (eui, Some (length (id6_text eui)))"
    if "read_id6 (id6_text eui) 0 (length (id6_text eui)) = Some eui"
      "length (filter (\<lambda>c. c = 58) (id6_text eui)) \<in> {2, 3}"
      "length (filter (\<lambda>c. c \<noteq> 58) (id6_text eui)) \<in> {1..16}"
    by (rule readEui_id6 [OF v]) (use that in auto)
  consider (c3) "grp eui 0 = 0" "grp eui 1 = 0" "grp eui 2 = 0"
    | (c23) "grp eui 0 = 0" "grp eui 1 = 0" "grp eui 2 \<noteq> 0"
    | (c0) "\<not> (grp eui 0 = 0 \<and> grp eui 1 = 0)" "grp eui 2 = 0" "grp eui 3 = 0" "grp eui 1 = 0"
    | (c01) "grp eui 1 \<noteq> 0" "grp eui 2 = 0" "grp eui 3 = 0"
    | (c03) "\<not> (grp eui 0 = 0 \<and> grp eui 1 = 0)" "\<not> (grp eui 2 = 0 \<and> grp eui 3 = 0)" "grp eui 1 = 0" "grp eui 2 = 0"
    | (all) "\<not> (grp eui 0 = 0 \<and> grp eui 1 = 0)" "\<not> (grp eui 2 = 0 \<and> grp eui 3 = 0)" "\<not> (grp eui 1 = 0 \<and> grp eui 2 = 0)"
    by (cases "grp eui 0 = 0"; cases "grp eui 1 = 0"; cases "grp eui 2 = 0"; cases "grp eui 3 = 0") blast+
  then show ?thesis
  proof cases
    case c3
    then have t: "id6_text eui = 58 # 58 # ?h 3" by (simp add: id6_text_def Let_def)
    have "read_id6 (id6_text eui) 0 (length (id6_text eui)) = Some eui"
      unfolding t using read_front [OF pg(1) [of 3]] c3 s by simp
    then show ?thesis by (rule ok) (use l [of 3] in \<open>simp_all add: t hexs_filter\<close>)
  next
    case c23
    then have t: "id6_text eui = 58 # 58 # ?h 2 @ 58 # ?h 3" by (simp add: id6_text_def Let_def)
    have "read_id6 (id6_text eui) 0 (length (id6_text eui)) = Some eui"
      unfolding t using read_front [OF pg(2)] c23 s by simp
    then show ?thesis by (rule ok) (use l [of 3] l [of 2] in \<open>simp_all add: t hexs_filter\<close>)
  next
    case c0
    then have t: "id6_text eui = ?h 0 @ [58, 58]" by (simp add: id6_text_def Let_def)
    have "nodc (?h 0 @ [58])" by (simp add: nodc_app)
    then have "read_id6 (id6_text eui) 0 (length (id6_text eui)) = Some eui"
      unfolding t using read_back [OF _ _ pg(1)] c0 s assms by simp
    then show ?thesis by (rule ok) (use l [of 0] in \<open>simp_all add: t hexs_filter\<close>)
  next
    case c01
    then have t: "id6_text eui = (?h 0 @ 58 # ?h 1) @ [58, 58]" by (simp add: id6_text_def Let_def)
    have "nodc ((?h 0 @ 58 # ?h 1) @ [58])" by (simp add: nodc_app nodc_more)
    then have "read_id6 (id6_text eui) 0 (length (id6_text eui)) = Some eui"
      unfolding t using read_back [OF _ _ pg(2)] c01 s assms by simp
    then show ?thesis by (rule ok) (use l [of 0] l [of 1] in \<open>simp_all add: t hexs_filter\<close>)
  next
    case c03
    then have t: "id6_text eui = ?h 0 @ 58 # 58 # ?h 3" by (simp add: id6_text_def Let_def)
    have "nodc (?h 0 @ [58])" by (simp add: nodc_app)
    moreover have "grp eui 3 OR grp eui 0 * 2 ^ 48 = eui" using or_high [of "grp eui 3" 48 "grp eui 0"] c03 s
      by (simp add: order_less_trans [OF grp_16])
    moreover have "grp eui 0 * 2 ^ 48 mod 2 ^ 64 = grp eui 0 * 2 ^ 48" by (simp add: less_le_trans [OF mult_strict_right_mono [OF grp_16]])
    ultimately have "read_id6 (id6_text eui) 0 (length (id6_text eui)) = Some eui"
      unfolding t using read_mid [OF _ _ _ pg(1) pg(1)] by simp
    then show ?thesis by (rule ok) (use l [of 0] l [of 3] in \<open>simp_all add: t hexs_filter\<close>)
  next
    case all
    then have t: "id6_text eui = ?h 0 @ 58 # ?h 1 @ 58 # ?h 2 @ 58 # ?h 3" by (auto simp: id6_text_def Let_def)
    have "nodc (?h 0 @ 58 # ?h 1 @ 58 # ?h 2 @ 58 # ?h 3)"
      using nodc_more [of "?h 3" "[]"] nodc_app [of "?h 3" "[]"] by (simp add: nodc_app nodc_more)
    then have "read_id6 (id6_text eui) 0 (length (id6_text eui)) = Some eui"
      unfolding t using read_plain [OF _ parse_groups4] s by simp
    then show ?thesis by (rule ok) (use l [of 0] l [of 1] l [of 2] l [of 3] in \<open>simp_all add: t hexs_filter\<close>)
  qed
qed

text \<open>Bytes with dashes.\<close>

lemma hexs_hex2 [simp]: "hexs (hex2 v)"
  by (auto simp: hex2_def hexs_def hex_digit_def rt_hexDigit_def)

lemma length_hex2 [simp]: "length (hex2 v) = 2"
  by (simp add: hex2_def)

abbreviation eui_step :: "uL \<Rightarrow> nat \<Rightarrow> uL" where
  "eui_step \<equiv> \<lambda>eui c. if rt_hexDigit c \<ge> 0 then ((eui * 16) mod 2 ^ 64) OR nat (rt_hexDigit c) else eui"

lemma eui_step_digit: "x < 2 ^ 60 \<Longrightarrow> d < 16 \<Longrightarrow> eui_step x (hex_digit u d) = x * 16 + d"
proof -
  assume x: "x < 2 ^ 60" and d: "d < 16"
  then have "x * 16 < 2 ^ 64" by simp
  moreover have "d OR x * 2 ^ 4 = d + x * 2 ^ 4" by (rule or_high) (use d in simp)
  ultimately show ?thesis using d by (simp add: hex_digit_read or.commute [of "x * 16"])
qed

lemma eui_step_hex2: "x < 2 ^ 56 \<Longrightarrow> foldl eui_step x (hex2 v) = x * 256 + v mod 256"
proof -
  assume x: "x < 2 ^ 56"
  have v: "v div 16 mod 16 < 16" "v mod 16 < 16" by simp_all
  have "x * 16 + v div 16 mod 16 < 2 ^ 60" using x v(1) by simp
  then have "eui_step (x * 16 + v div 16 mod 16) (hex_digit True (v mod 16)) = (x * 16 + v div 16 mod 16) * 16 + v mod 16"
    by (rule eui_step_digit [OF _ v(2)])
  moreover have "eui_step x (hex_digit True (v div 16 mod 16)) = x * 16 + v div 16 mod 16"
    by (rule eui_step_digit [OF _ v(1)]) (use x in simp)
  moreover have "v mod 256 = v div 16 mod 16 * 16 + v mod 16" using mod_mult2_eq [of v 16 16] by simp
  ultimately show ?thesis by (simp add: hex2_def)
qed

lemma eui_step_dash: "(if rt_hexDigit 45 \<ge> 0 then ((x * 16) mod 2 ^ 64) OR nat (rt_hexDigit 45) else x) = x"
  by (simp add: rt_hexDigit_def)

lemma eui_hex_dash:
  "n \<le> 7 \<Longrightarrow> eui < 2 ^ 64 \<Longrightarrow> foldl eui_step (eui div 2 ^ (8 * n)) (dash_bytes n eui) = eui"
proof (induction n)
  case (Suc n)
  have "eui div 2 ^ (8 * Suc n) < 2 ^ 56"
  proof -
    note Suc.prems(2)
    also have "(2 :: nat) ^ 64 \<le> 2 ^ (56 + 8 * Suc n)" by (rule power_increasing) auto
    also have "\<dots> = 2 ^ 56 * 2 ^ (8 * Suc n)" by (rule power_add)
    finally show ?thesis by (rule less_mult_imp_div_less)
  qed
  moreover have "eui div 2 ^ (8 * Suc n) * 256 + eui div 2 ^ (8 * n) mod 256 = eui div 2 ^ (8 * n)"
  proof -
    have "eui div 2 ^ (8 * Suc n) = eui div 2 ^ (8 * n) div 256" by (simp add: power_add mult.commute flip: div_mult2_eq)
    then show ?thesis by simp
  qed
  ultimately have "foldl eui_step (eui div 2 ^ (8 * Suc n)) (hex2 (eui div 2 ^ (8 * n))) = eui div 2 ^ (8 * n)"
    using eui_step_hex2 by presburger
  then show ?case using Suc by (simp only: dash_bytes.simps foldl.simps foldl_append eui_step_dash)
qed simp

lemma dash_counts:
  "filter (\<lambda>c. c = 45) (dash_bytes n eui) = replicate n 45" "filter (\<lambda>c. c = 58) (dash_bytes n eui) = []"
  "length (filter (\<lambda>c. c \<noteq> 45 \<and> c \<noteq> 58) (dash_bytes n eui)) = 2 * n" "length (dash_bytes n eui) = 3 * n"
  by (induction n) (auto simp: hexs_filter)

lemma dash_chars_ok: "c \<in> set (dash_bytes n eui) \<Longrightarrow> c = 45 \<or> hexs [c]"
  by (induction n) (use hexs_hex2 in \<open>auto simp: hexs_def\<close>)

lemma eui_roundtrip:
  assumes "eui < 2 ^ 64"
  shows "rt_readEui (eui_text eui) 0 0 = (eui, Some (length (eui_text eui)))"
proof -
  have v: "\<forall>c \<in> set (eui_text eui). c = 45 \<or> c = 58 \<or> 0 \<le> rt_hexDigit c \<and> c \<noteq> 0"
    using dash_chars_ok [of _ 7 eui] hexs_hex2 [of "eui div 2 ^ 56"] by (auto simp: eui_text_def hexs_def)
  have "eui div 2 ^ 56 < 256" using assms by (simp add: less_mult_imp_div_less)
  then have "eui_hex (eui_text eui) = eui"
    using eui_step_hex2 [of 0 "eui div 2 ^ 56"] eui_hex_dash [of 7 eui] assms by (simp add: eui_hex_def eui_text_def)
  then show ?thesis using eui_scan_text [OF v, of 0 0 0 0]
    by (simp add: rt_readEui_def blk_def eui_text_def dash_counts hexs_filter)
qed

text \<open>C31: EUIs survive printing: for every 64-bit EUI, what the encoder writes in the groups of an IPv6
  address, with its four short forms around a double colon, and what it writes as eight bytes with
  dashes are both read back by \<open>rt_readEui\<close> as the same EUI, up to the last character.\<close>

theorem eui_print_read:
  assumes "eui < 2 ^ 64" and "buf_ok b" and "pos b = 0" and "23 < bufsize b"
  shows "(\<exists>b'. encId6 eui b = Some b' \<and> rt_readEui (written b') 0 0 = (eui, Some (pos b'))) \<and>
    rt_readEui (written (encEui eui 0 b)) 0 0 = (eui, Some (pos (encEui eui 0 b)))"
proof -
  have w: "written b = []" using assms(3) by (simp add: written_def)
  have l: "length (hex_text False (grp eui i)) \<le> 4" for i using hex_len4 [of "grp eui i" False] by simp
  have "length (hex_text False 0) = 1" by (subst hex_text.simps) simp
  then have "length (id6_text eui) \<le> 19" using l [of 0] l [of 1] l [of 2] l [of 3] by (simp add: id6_text_def Let_def)
  then obtain b' where b': "encId6 eui b = Some b'" "buf_ok b'" "written b' = id6_text eui"
    using writesD [OF writes_encId6_text assms(2), of eui] w assms(4) by (auto simp: clean_def)
  then have "\<exists>b'. encId6 eui b = Some b' \<and> rt_readEui (written b') 0 0 = (eui, Some (pos b'))"
    using id6_roundtrip [OF assms(1)] length_written [OF b'(2)] by auto
  moreover have "length (eui_text eui) = 23" by (simp add: eui_text_def dash_counts)
  then have "written (encEui eui 0 b) = eui_text eui" "buf_ok (encEui eui 0 b)"
    using cutsD [OF cuts_encEui assms(2), of eui] w assms(4) by simp_all
  then have "rt_readEui (written (encEui eui 0 b)) 0 0 = (eui, Some (pos (encEui eui 0 b)))"
    using eui_roundtrip [OF assms(1)] length_written by metis
  ultimately show ?thesis by blast
qed

theorem eui_print_read_witness:
  "let b = \<lparr>buf = replicate 32 0, pos = 0\<rparr> in
   (\<exists>b'. encId6 0x100000000000002 b = Some b' \<and> rt_readEui (written b') 0 0 = (0x100000000000002, Some (pos b'))) \<and>
   rt_readEui (written (encEui 0x100000000000002 0 b)) 0 0 = (0x100000000000002, Some (pos (encEui 0x100000000000002 0 b)))"
  unfolding Let_def by (rule eui_print_read) (simp_all add: buf_ok_def)

end
