(* ===== verification/Ral.thy ===== *)
theory Ral
  imports RtText
begin

text \<open>
  The parameters of src/src/s2conf.h that the modelled components use, and the radio independent part
  of the radio layer: the encoding of time stamps (src/src/ral.h) and the allocation of channels to
  the modems of the concentrator chips (src/src/ral.c).
\<close>

section \<open>Parameters\<close>

definition MAX_TXUNITS :: nat where "MAX_TXUNITS = 4"
definition MAX_130X :: nat where "MAX_130X = 8"
definition MIN_UPJSON_SIZE :: nat where "MIN_UPJSON_SIZE = 384"

text \<open>Runtime parameters, which the station's configuration file may override, and their defaults.\<close>

record s2conf =
  TC_TIMEOUT :: ustime
  CLASS_C_BACKOFF_BY :: ustime
  CLASS_C_BACKOFF_MAX :: u4
  PPS_VALID_INTV :: ustime
  TIMESYNC_RADIO_INTV :: ustime
  TIMESYNC_LNS_RETRY :: ustime
  TIMESYNC_LNS_PAUSE :: ustime
  TIMESYNC_LNS_BURST :: u4
  TX_MIN_GAP :: ustime
  TX_AIM_GAP :: ustime
  TX_MAX_AHEAD :: ustime
  TXCHECK_FUDGE :: ustime
  BEACON_INTVL :: ustime

definition dflt_conf :: s2conf where
  "dflt_conf = \<lparr>TC_TIMEOUT = rt_seconds 60, CLASS_C_BACKOFF_BY = rt_millis 100, CLASS_C_BACKOFF_MAX = 10,
     PPS_VALID_INTV = rt_seconds 600, TIMESYNC_RADIO_INTV = rt_millis 2100, TIMESYNC_LNS_RETRY = rt_millis 71,
     TIMESYNC_LNS_PAUSE = rt_seconds 5, TIMESYNC_LNS_BURST = 10, TX_MIN_GAP = rt_millis 10, TX_AIM_GAP = rt_millis 20,
     TX_MAX_AHEAD = rt_seconds 600, TXCHECK_FUDGE = rt_millis 5, BEACON_INTVL = rt_seconds 128\<rparr>"

section \<open>Time stamps\<close>

definition RAL_TXUNIT_SHIFT :: nat where "RAL_TXUNIT_SHIFT = 56"
definition RAL_XTSESS_SHIFT :: nat where "RAL_XTSESS_SHIFT = 48"
definition RAL_TXUNIT_MASK :: int where "RAL_TXUNIT_MASK = 0x7F"
definition RAL_XTSESS_MASK :: int where "RAL_XTSESS_MASK = 0xFF"

text \<open>Shifts of a signed value go to the next lower integer, and the masks are those of low bits.\<close>

definition ral_xtime2sess :: "sL \<Rightarrow> u1" where
  "ral_xtime2sess xtime = nat (xtime div 2 ^ RAL_XTSESS_SHIFT mod (RAL_XTSESS_MASK + 1))"

definition ral_xtime2txunit :: "sL \<Rightarrow> u1" where
  "ral_xtime2txunit xtime = nat (xtime div 2 ^ RAL_TXUNIT_SHIFT mod (RAL_TXUNIT_MASK + 1))"

definition ral_xtime2rctx :: "sL \<Rightarrow> sL" where
  "ral_xtime2rctx xtime = int (ral_xtime2txunit xtime)"

definition ral_rctx2txunit :: "sL \<Rightarrow> u1" where
  "ral_rctx2txunit rctx = nat (rctx mod (RAL_TXUNIT_MASK + 1))"

lemmas ral_consts = RAL_TXUNIT_SHIFT_def RAL_XTSESS_SHIFT_def RAL_TXUNIT_MASK_def RAL_XTSESS_MASK_def

section \<open>Allocation of channels\<close>

text \<open>
  The spreading factors and bandwidths of src/src/s2e.h. The bit fields of a channel's parameters hold
  3, 3 and 2 bits. A channel of the list is its frequency, 0 for an unused slot, and its parameters.
\<close>

definition SF12 :: nat where "SF12 = 0"
definition SF11 :: nat where "SF11 = 1"
definition SF10 :: nat where "SF10 = 2"
definition SF9 :: nat where "SF9 = 3"
definition SF8 :: nat where "SF8 = 4"
definition SF7 :: nat where "SF7 = 5"
definition SF6 :: nat where "SF6 = 6"
definition SF5 :: nat where "SF5 = 7"
definition FSK :: nat where "FSK = 8"
definition BW125 :: nat where "BW125 = 0"
definition BW250 :: nat where "BW250 = 1"
definition BW500 :: nat where "BW500 = 2"
definition BWNIL :: nat where "BWNIL = 3"

definition MAX_UPCHNLS :: nat where "MAX_UPCHNLS = MAX_130X * 10"
definition SX130X_RFE_MAXCOFF_125 :: u4 where "SX130X_RFE_MAXCOFF_125 = (925000 - 125000) div 2"
definition SX130X_RFE_MAXCOFF_250 :: u4 where "SX130X_RFE_MAXCOFF_250 = (1000000 - 250000) div 2"
definition SX130X_RFE_MAXCOFF_500 :: u4 where "SX130X_RFE_MAXCOFF_500 = (1100000 - 500000) div 2"
definition SX130X_IF_NB :: nat where "SX130X_IF_NB = 10"
definition INT_MAX :: u4 where "INT_MAX = 2 ^ 31 - 1"

record chrps =
  minSF :: nat
  maxSF :: nat
  ch_bw :: nat

type_synonym chdefl = "(u4 \<times> chrps) list"

text \<open>The calls of the callback. For a channel: chip, modem, radio front end and its frequency, frequency and parameters
  of the channel; for a finished chip: chip, number of channels, lowest and highest frequency.\<close>

datatype challoc =
    CHALLOC_START
  | CHALLOC_CHIP_START nat
  | CHALLOC_CH nat nat nat u4 u4 chrps
  | CHALLOC_CHIP_DONE nat nat u4 u4
  | CHALLOC_DONE

text \<open>The frequencies a front end spans so far, \<open>(INT_MAX, 0)\<close> for an unused one; a pair for the two of a chip.\<close>

type_synonym span = "u4 \<times> u4"

definition add4 :: "u4 \<Rightarrow> u4 \<Rightarrow> u4" where "add4 a b = (a + b) mod 2 ^ 32"
definition sub4 :: "u4 \<Rightarrow> u4 \<Rightarrow> u4" where "sub4 a b = to_u 32 (int a - int b)"

definition widen :: "u4 \<Rightarrow> span \<Rightarrow> span" where
  "widen hz s = (min hz (fst s), max hz (snd s))"

text \<open>The first front end that passes the check.\<close>

definition rfe_pick :: "(span \<Rightarrow> bool) \<Rightarrow> span \<times> span \<Rightarrow> nat option" where
  "rfe_pick ok ss = (if ok (fst ss) then Some 0 else if ok (snd ss) then Some 1 else None)"

definition span_at :: "span \<times> span \<Rightarrow> nat \<Rightarrow> span" where
  "span_at ss i = (if i = 0 then fst ss else snd ss)"

definition span_upd :: "u4 \<Rightarrow> nat \<Rightarrow> span \<times> span \<Rightarrow> span \<times> span" where
  "span_upd hz i ss = (if i = 0 then (widen hz (fst ss), snd ss) else (fst ss, widen hz (snd ss)))"

definition fits_125 :: "u4 \<Rightarrow> span \<Rightarrow> bool" where
  "fits_125 hz s \<longleftrightarrow> snd s = 0 \<or> sub4 hz (fst s) div 2 \<le> SX130X_RFE_MAXCOFF_125"

definition fits_fsk :: "u4 \<Rightarrow> span \<Rightarrow> bool" where
  "fits_fsk hz s \<longleftrightarrow> snd s = 0 \<or> (hz \<ge> sub4 (snd s) (2 * SX130X_RFE_MAXCOFF_125) \<and> hz \<le> add4 (fst s) (2 * SX130X_RFE_MAXCOFF_125))"

definition fits_fl :: "u4 \<Rightarrow> u4 \<Rightarrow> span \<Rightarrow> bool" where
  "fits_fl maxcoff hz s \<longleftrightarrow> snd s = 0 \<or> (hz \<ge> sub4 (sub4 (snd s) SX130X_RFE_MAXCOFF_125) maxcoff \<and>
     hz \<le> add4 (add4 (fst s) SX130X_RFE_MAXCOFF_125) maxcoff)"

definition mid_freq :: "span \<Rightarrow> u4" where
  "mid_freq s = add4 (fst s) (snd s) div 2"

definition fl_freq :: "u4 \<Rightarrow> u4 \<Rightarrow> span \<Rightarrow> u4" where
  "fl_freq maxcoff hz s = add4 (max (sub4 (snd s) SX130X_RFE_MAXCOFF_125) (sub4 hz maxcoff))
     (min (add4 (fst s) SX130X_RFE_MAXCOFF_125) (add4 hz maxcoff)) div 2"

text \<open>The multi-SF modems of a chip take the next 125 kHz channels until one fits no front end.\<close>

function alloc_multi :: "chdefl \<Rightarrow> nat \<Rightarrow> nat \<Rightarrow> nat \<Rightarrow> span \<times> span \<Rightarrow> nat \<times> nat \<times> (span \<times> span) \<times> challoc list" where
  "alloc_multi upchs chip_idx slot modem ss =
     (if slot < MAX_UPCHNLS \<and> modem < SX130X_IF_NB - 2 then
        (case upchs ! slot of (hz, r) \<Rightarrow>
          if hz = 0 \<or> maxSF r = FSK \<or> ch_bw r \<noteq> BW125 then alloc_multi upchs chip_idx (slot + 1) modem ss
          else
            (case rfe_pick (fits_125 hz) ss of
               None \<Rightarrow> (slot, modem, ss, [])
             | Some i \<Rightarrow>
                 let ss = span_upd hz i ss;
                     ev = CHALLOC_CH chip_idx modem i (mid_freq (span_at ss i)) hz r;
                     (slot', modem', ss', evs) = alloc_multi upchs chip_idx (slot + 1) (modem + 1) ss
                 in (slot', modem', ss', ev # evs)))
      else (slot, modem, ss, []))"
  by pat_completeness auto
termination by (relation "measure (\<lambda>(upchs, chip_idx, slot, modem, ss). MAX_UPCHNLS - slot)") auto

declare alloc_multi.simps [simp del]

text \<open>The next slot of a kind, and one attempt to give it to the chip's FSK or fast LoRa modem.\<close>

function next_slot :: "(u4 \<times> chrps \<Rightarrow> bool) \<Rightarrow> chdefl \<Rightarrow> nat \<Rightarrow> nat" where
  "next_slot P upchs slot = (if slot < MAX_UPCHNLS \<and> \<not> P (upchs ! slot) then next_slot P upchs (slot + 1) else slot)"
  by pat_completeness auto
termination by (relation "measure (\<lambda>(P, upchs, slot). MAX_UPCHNLS - slot)") auto

declare next_slot.simps [simp del]

definition alloc_fsk :: "chdefl \<Rightarrow> nat \<Rightarrow> nat \<Rightarrow> nat \<Rightarrow> span \<times> span \<Rightarrow> nat \<times> nat \<times> (span \<times> span) \<times> challoc list" where
  "alloc_fsk upchs chip_idx slot modem ss =
     (let slot = next_slot (\<lambda>(hz, r). hz \<noteq> 0 \<and> maxSF r = FSK) upchs slot in
      if slot < MAX_UPCHNLS then
        (case upchs ! slot of (hz, r) \<Rightarrow>
          (case rfe_pick (fits_fsk hz) ss of
             None \<Rightarrow> (slot, modem, ss, [])
           | Some i \<Rightarrow>
               let ss = span_upd hz i ss in
               (slot + 1, modem + 1, ss, [CHALLOC_CH chip_idx (SX130X_IF_NB - 1) i (mid_freq (span_at ss i)) hz r])))
      else (slot, modem, ss, []))"

definition alloc_fl :: "chdefl \<Rightarrow> nat \<Rightarrow> nat \<Rightarrow> nat \<Rightarrow> span \<times> span \<Rightarrow> nat \<times> nat \<times> (span \<times> span) \<times> challoc list" where
  "alloc_fl upchs chip_idx slot modem ss =
     (let slot = next_slot (\<lambda>(hz, r). hz \<noteq> 0 \<and> (ch_bw r = BW250 \<or> ch_bw r = BW500)) upchs slot in
      if slot < MAX_UPCHNLS then
        (case upchs ! slot of (hz, r) \<Rightarrow>
          let maxcoff = (if ch_bw r = BW250 then SX130X_RFE_MAXCOFF_250 else SX130X_RFE_MAXCOFF_500) in
          (case rfe_pick (fits_fl maxcoff hz) ss of
             None \<Rightarrow> (slot, modem, ss, [])
           | Some i \<Rightarrow>
               (slot + 1, modem + 1, span_upd hz i ss,
                [CHALLOC_CH chip_idx (SX130X_IF_NB - 2) i (fl_freq maxcoff hz (span_at ss i)) hz r])))
      else (slot, modem, ss, []))"

definition alloc_chip :: "chdefl \<Rightarrow> nat \<Rightarrow> nat \<times> nat \<times> nat \<Rightarrow> (nat \<times> nat \<times> nat) \<times> challoc list" where
  "alloc_chip upchs chip_idx slots =
     (case slots of (multi, fsk, fl) \<Rightarrow>
      let (multi, modem, ss, evs1) = alloc_multi upchs chip_idx multi 0 ((INT_MAX, 0), (INT_MAX, 0));
          (fsk, modem, ss, evs2) = alloc_fsk upchs chip_idx fsk modem ss;
          (fl, modem, ss, evs3) = alloc_fl upchs chip_idx fl modem ss;
          fin = CHALLOC_CHIP_DONE chip_idx modem (if modem \<noteq> 0 then fst (fst ss) else 0)
                  (if modem \<noteq> 0 then max (snd (snd ss)) (snd (fst ss)) else 0)
      in ((multi, fsk, fl), CHALLOC_CHIP_START chip_idx # evs1 @ evs2 @ evs3 @ [fin]))"

function alloc_chips :: "chdefl \<Rightarrow> nat \<Rightarrow> nat \<times> nat \<times> nat \<Rightarrow> challoc list" where
  "alloc_chips upchs chip_idx slots =
     (case slots of (multi, fsk, fl) \<Rightarrow>
      if chip_idx < MAX_130X \<and> (multi < MAX_UPCHNLS \<or> fsk < MAX_UPCHNLS \<or> fl < MAX_UPCHNLS)
      then (case alloc_chip upchs chip_idx slots of (slots, evs) \<Rightarrow> evs @ alloc_chips upchs (chip_idx + 1) slots)
      else [])"
  by pat_completeness auto
termination by (relation "measure (\<lambda>(upchs, chip_idx, slots). MAX_130X - chip_idx)") auto

declare alloc_chips.simps [simp del]

definition ral_challoc :: "chdefl \<Rightarrow> challoc list" where
  "ral_challoc upchs = CHALLOC_START # alloc_chips upchs 0 (0, 0, 0) @ [CHALLOC_DONE]"

lemmas rfe_consts = SX130X_RFE_MAXCOFF_125_def SX130X_RFE_MAXCOFF_250_def SX130X_RFE_MAXCOFF_500_def SX130X_IF_NB_def
  INT_MAX_def MAX_UPCHNLS_def MAX_130X_def FSK_def BW125_def BW250_def BW500_def

section \<open>Front ends and modems are used within their limits\<close>

lemma fits_125_range:
  assumes "fits_125 hz (lo, hi)" and "hi \<noteq> 0" and "hz < 2 ^ 31" and "lo < 2 ^ 31"
  shows "lo \<le> hz \<and> hz \<le> lo + 800001"
proof -
  have "sub4 hz lo \<le> 800001" using assms(1,2) by (simp add: fits_125_def rfe_consts)
  moreover have "sub4 hz lo = (if lo \<le> hz then hz - lo else 2 ^ 32 + hz - lo)"
  proof (cases "lo \<le> hz")
    case False
    have "(int hz - int lo) mod 2 ^ 32 = (int hz - int lo + 2 ^ 32) mod 2 ^ 32" by simp
    also have "\<dots> = int hz - int lo + 2 ^ 32" using False assms(3,4) by (intro mod_pos_pos_trivial) simp_all
    finally show ?thesis using False by (simp add: sub4_def to_u_def)
  qed (use assms(3) in \<open>simp add: sub4_def to_u_def\<close>)
  ultimately show ?thesis using assms(3,4) by (auto split: if_splits)
qed

text \<open>\<open>lo i\<close> is the lowest frequency of front end \<open>i\<close>, the one of its first channel.\<close>

definition span_base :: "(nat \<Rightarrow> u4) \<Rightarrow> span \<times> span \<Rightarrow> bool" where
  "span_base lo ss \<longleftrightarrow> (\<forall>i < 2. span_at ss i = (INT_MAX, 0) \<or> (fst (span_at ss i) = lo i \<and> lo i < 2 ^ 31 \<and> snd (span_at ss i) \<noteq> 0))"

lemma span_at_upd: "j < 2 \<Longrightarrow> i < 2 \<Longrightarrow> span_at (span_upd hz i ss) j = (if j = i then widen hz (span_at ss i) else span_at ss j)"
  by (auto simp: span_at_def span_upd_def)

lemma rfe_pick_fits: "rfe_pick ok ss = Some i \<Longrightarrow> i < 2 \<and> ok (span_at ss i)"
  by (auto simp: rfe_pick_def span_at_def split: if_splits)

lemma span_base_step:
  assumes "span_base lo ss" and "rfe_pick (fits_125 hz) ss = Some i" and "0 < hz" and "hz < 2 ^ 31"
  obtains lo' where "span_base lo' (span_upd hz i ss)" and "lo' i \<le> hz" and "hz \<le> lo' i + 800001"
    and "\<And>j. j < 2 \<Longrightarrow> snd (span_at ss j) \<noteq> 0 \<Longrightarrow> lo' j = lo j"
proof (cases "snd (span_at ss i) = 0")
  case True
  then have "span_at ss i = (INT_MAX, 0)"
    using assms(1) rfe_pick_fits [OF assms(2)] by (auto simp: span_base_def)
  then have "widen hz (span_at ss i) = (hz, hz)" using assms(4) by (simp add: widen_def INT_MAX_def)
  then have "span_base (lo(i := hz)) (span_upd hz i ss)"
    using assms(1,3,4) rfe_pick_fits [OF assms(2)] by (auto simp: span_base_def span_at_upd)
  then show ?thesis
    by (rule that) (use True in auto)
next
  case False
  then have lo: "fst (span_at ss i) = lo i" "lo i < 2 ^ 31" and fits: "fits_125 hz (span_at ss i)" and i: "i < 2"
    using assms(1) rfe_pick_fits [OF assms(2)] by (auto simp: span_base_def)
  have range: "lo i \<le> hz" "hz \<le> lo i + 800001"
    using fits_125_range [of hz "fst (span_at ss i)" "snd (span_at ss i)", unfolded prod.collapse, OF fits False assms(4)] lo by simp_all
  have "span_base lo (span_upd hz i ss)"
    using assms(1) range lo False i by (auto simp: span_base_def span_at_upd widen_def)
  then show ?thesis by (rule that) (use range in auto)
qed

lemma span_used:
  "0 < hz \<Longrightarrow> i < 2 \<Longrightarrow> j < 2 \<Longrightarrow> j = i \<or> snd (span_at ss j) \<noteq> 0 \<Longrightarrow> snd (span_at (span_upd hz i ss) j) \<noteq> 0"
  by (auto simp: span_at_upd widen_def)

lemma alloc_multi_limits:
  assumes "alloc_multi upchs c slot modem ss = (slot', modem', ss', evs)" and "span_base lo ss" and "length upchs = MAX_UPCHNLS"
    and "\<forall>(hz, r) \<in> set upchs. hz < 2 ^ 31" and "modem \<le> 8"
  shows "modem \<le> modem' \<and> modem' \<le> 8 \<and> (\<exists>lo'. (\<forall>j < 2. snd (span_at ss j) \<noteq> 0 \<longrightarrow> lo' j = lo j) \<and>
    (\<forall>e \<in> set evs. \<exists>m i f hz r. e = CHALLOC_CH c m i f hz r \<and> modem \<le> m \<and> i < 2 \<and> lo' i \<le> hz \<and> hz \<le> lo' i + 800001)) \<and>
    map (\<lambda>e. case e of CHALLOC_CH c m i f hz r \<Rightarrow> m | _ \<Rightarrow> 0) evs = [modem ..< modem']"
  using assms
proof (induction upchs c slot modem ss arbitrary: slot' modem' ss' evs lo rule: alloc_multi.induct)
  case (1 upchs c slot modem ss)
  note prems = "1.prems" and IH = "1.IH"
  show ?case
  proof (cases "slot < MAX_UPCHNLS \<and> modem < SX130X_IF_NB - 2")
    case False
    then show ?thesis using prems by (subst (asm) alloc_multi.simps) (auto intro: exI [of _ lo])
  next
    case True
    obtain hz r where hz: "upchs ! slot = (hz, r)" by fastforce
    show ?thesis
    proof (cases "hz = 0 \<or> maxSF r = FSK \<or> ch_bw r \<noteq> BW125")
      case skip: True
      have "alloc_multi upchs c (slot + 1) modem ss = (slot', modem', ss', evs)"
        using prems(1) True skip hz by (subst (asm) alloc_multi.simps) simp
      then show ?thesis using IH(1) [OF True hz [symmetric] skip] prems(2-5) by blast
    next
      case take: False
      show ?thesis
      proof (cases "rfe_pick (fits_125 hz) ss")
        case None
        then show ?thesis using prems True take hz by (subst (asm) alloc_multi.simps) (auto intro: exI [of _ lo])
      next
        case (Some i)
        obtain slot2 modem2 ss2 evs2 where
          rec: "alloc_multi upchs c (slot + 1) (modem + 1) (span_upd hz i ss) = (slot2, modem2, ss2, evs2)"
          by (metis prod_cases4)
        have out: "modem' = modem2" "evs = CHALLOC_CH c modem i (mid_freq (span_at (span_upd hz i ss) i)) hz r # evs2"
          using prems(1) True take hz Some rec by (subst (asm) alloc_multi.simps, simp)+
        have i: "i < 2" using rfe_pick_fits [OF Some] by simp
        have "(hz, r) \<in> set upchs" using prems(3) True hz by (metis nth_mem)
        then have small: "hz < 2 ^ 31" "0 < hz" using prems(4) take by auto
        obtain lo1 where lo1: "span_base lo1 (span_upd hz i ss)" "lo1 i \<le> hz" "hz \<le> lo1 i + 800001"
          and keep: "\<And>j. j < 2 \<Longrightarrow> snd (span_at ss j) \<noteq> 0 \<Longrightarrow> lo1 j = lo j"
          using span_base_step [OF prems(2) Some small(2,1)] by blast
        have m: "modem + 1 \<le> 8" using True by (simp add: rfe_consts)
        have ih: "modem + 1 \<le> modem2 \<and> modem2 \<le> 8 \<and> (\<exists>lo'. (\<forall>j < 2. snd (span_at (span_upd hz i ss) j) \<noteq> 0 \<longrightarrow> lo' j = lo1 j) \<and>
          (\<forall>e \<in> set evs2. \<exists>m i f hz r. e = CHALLOC_CH c m i f hz r \<and> modem + 1 \<le> m \<and> i < 2 \<and> lo' i \<le> hz \<and> hz \<le> lo' i + 800001)) \<and>
          map (\<lambda>e. case e of CHALLOC_CH c m i f hz r \<Rightarrow> m | _ \<Rightarrow> 0) evs2 = [modem + 1 ..< modem2]"
          using IH(2) [OF True hz [symmetric] take Some refl refl rec lo1(1) prems(3,4) m] .
        then obtain lo' where lo': "\<And>j. j < 2 \<Longrightarrow> snd (span_at (span_upd hz i ss) j) \<noteq> 0 \<Longrightarrow> lo' j = lo1 j"
          and evs: "\<And>e. e \<in> set evs2 \<Longrightarrow> \<exists>m i f hz r. e = CHALLOC_CH c m i f hz r \<and> modem + 1 \<le> m \<and> i < 2 \<and> lo' i \<le> hz \<and> hz \<le> lo' i + 800001"
          by blast
        have "lo' j = lo j" if "j < 2" "snd (span_at ss j) \<noteq> 0" for j
          using lo' [OF that(1) span_used [OF small(2) i that(1)]] keep [OF that] that(2) by simp
        moreover have "lo' i = lo1 i" by (rule lo' [OF i span_used [OF small(2) i i]]) simp
        moreover have "\<exists>m i f hz r. e = CHALLOC_CH c m i f hz r \<and> modem \<le> m \<and> i < 2 \<and> lo' i \<le> hz \<and> hz \<le> lo' i + 800001"
          if "e \<in> set evs" for e
        proof (cases "e \<in> set evs2")
          case True
          then show ?thesis using evs by (metis add_leD1)
        next
          case False
          then have "e = CHALLOC_CH c modem i (mid_freq (span_at (span_upd hz i ss) i)) hz r" using that out(2) by simp
          then show ?thesis using lo1(2,3) i calculation(2) by auto
        qed
        moreover have "[modem ..< modem'] = modem # [modem + 1 ..< modem2]" using ih out(1) by (simp add: upt_conv_Cons)
        ultimately show ?thesis using ih out by (intro conjI exI [of _ lo']) simp_all
      qed
    qed
  qed
qed

text \<open>The modems that got a channel, in order.\<close>

fun modem_of :: "challoc \<Rightarrow> (nat \<times> nat) list" where
  "modem_of (CHALLOC_CH c m i f hz r) = [(c, m)]"
| "modem_of _ = []"

definition modems :: "challoc list \<Rightarrow> (nat \<times> nat) list" where
  "modems evs = concat (map modem_of evs)"

lemma modems_simps [simp]: "modems [] = []" "modems (e # evs) = modem_of e @ modems evs" "modems (evs @ evs') = modems evs @ modems evs'"
  by (simp_all add: modems_def)

lemma alloc_fsk_modem: "alloc_fsk upchs c slot modem ss = (slot', modem', ss', evs) \<Longrightarrow> evs = [] \<or> (\<exists>i f hz r. evs = [CHALLOC_CH c 9 i f hz r])"
  by (auto simp: alloc_fsk_def Let_def rfe_consts split: if_splits option.splits prod.splits)

lemma alloc_fl_modem: "alloc_fl upchs c slot modem ss = (slot', modem', ss', evs) \<Longrightarrow> evs = [] \<or> (\<exists>i f hz r. evs = [CHALLOC_CH c 8 i f hz r])"
  by (auto simp: alloc_fl_def Let_def rfe_consts split: if_splits option.splits prod.splits)

lemma modems_chip:
  assumes "\<forall>e \<in> set evs. \<exists>m i f hz r. e = CHALLOC_CH c m i f hz r"
  shows "modems evs = map (Pair c) (map (\<lambda>e. case e of CHALLOC_CH c m i f hz r \<Rightarrow> m | _ \<Rightarrow> 0) evs)"
  using assms by (induction evs) auto

lemma alloc_chip_limits:
  assumes "alloc_chip upchs c slots = (slots', evs)" and "length upchs = MAX_UPCHNLS" and "\<forall>(hz, r) \<in> set upchs. hz < 2 ^ 31"
  shows "distinct (modems evs) \<and> fst ` set (modems evs) \<subseteq> {c} \<and>
    (\<exists>lo. \<forall>m i f hz r. CHALLOC_CH c m i f hz r \<in> set evs \<and> m < 8 \<longrightarrow> lo i \<le> hz \<and> hz \<le> lo i + 800001)"
proof -
  obtain multi fsk fl where slots: "slots = (multi, fsk, fl)" by (metis prod_cases3)
  obtain multi1 modem1 ss1 evs1 where a1: "alloc_multi upchs c multi 0 ((INT_MAX, 0), (INT_MAX, 0)) = (multi1, modem1, ss1, evs1)"
    by (metis prod_cases4)
  obtain fsk2 modem2 ss2 evs2 where a2: "alloc_fsk upchs c fsk modem1 ss1 = (fsk2, modem2, ss2, evs2)" by (metis prod_cases4)
  obtain fl3 modem3 ss3 evs3 where a3: "alloc_fl upchs c fl modem2 ss2 = (fl3, modem3, ss3, evs3)" by (metis prod_cases4)
  obtain c_fin where evs: "evs = CHALLOC_CHIP_START c # evs1 @ evs2 @ evs3 @ [c_fin]" and fin: "modem_of c_fin = []"
    "\<And>m i f hz r. c_fin \<noteq> CHALLOC_CH c m i f hz r"
    using assms(1) a1 a2 a3 by (auto simp: alloc_chip_def slots Let_def)
  have "span_base (\<lambda>_. 0) ((INT_MAX, 0), (INT_MAX, 0))" by (simp add: span_base_def span_at_def)
  from alloc_multi_limits [OF a1 this assms(2,3)] obtain lo where m8: "modem1 \<le> 8" and
    e1: "\<And>e. e \<in> set evs1 \<Longrightarrow> \<exists>m i f hz r. e = CHALLOC_CH c m i f hz r \<and> lo i \<le> hz \<and> hz \<le> lo i + 800001" and
    map1: "map (\<lambda>e. case e of CHALLOC_CH c m i f hz r \<Rightarrow> m | _ \<Rightarrow> 0) evs1 = [0 ..< modem1]"
    by auto blast
  have c1: "modems evs1 = map (Pair c) [0 ..< modem1]"
    using modems_chip [of evs1 c] e1 map1 by metis
  have c2: "modems evs2 \<in> {[], [(c, 9)]}" using alloc_fsk_modem [OF a2] by auto
  have c3: "modems evs3 \<in> {[], [(c, 8)]}" using alloc_fl_modem [OF a3] by auto
  have "distinct (modems evs) \<and> fst ` set (modems evs) \<subseteq> {c}"
    using c1 c2 c3 m8 fin(1) unfolding evs by (elim insertE emptyE) (auto simp: distinct_map inj_on_def)
  moreover have "lo i \<le> hz \<and> hz \<le> lo i + 800001" if "CHALLOC_CH c m i f hz r \<in> set evs" "m < 8" for m i f hz r
  proof -
    have "CHALLOC_CH c m i f hz r \<in> set evs1"
    proof -
      let ?e = "CHALLOC_CH c m i f hz r"
      have "?e \<notin> set evs2" using alloc_fsk_modem [OF a2] that(2) by auto
      moreover have "?e \<notin> set evs3" using alloc_fl_modem [OF a3] that(2) by auto
      moreover have "c_fin \<noteq> ?e" by (rule fin(2))
      ultimately show ?thesis using that(1) by (simp add: evs)
    qed
    from e1 [OF this] show ?thesis by auto
  qed
  then have "\<exists>lo. \<forall>m i f hz r. CHALLOC_CH c m i f hz r \<in> set evs \<and> m < 8 \<longrightarrow> lo i \<le> hz \<and> hz \<le> lo i + 800001"
    by (intro exI [of _ lo] allI impI) blast
  ultimately show ?thesis by simp
qed

lemma in_modems: "CHALLOC_CH c m i f hz r \<in> set evs \<Longrightarrow> (c, m) \<in> set (modems evs)"
  by (induction evs) auto

lemma alloc_chips_limits:
  assumes "length upchs = MAX_UPCHNLS" and "\<forall>(hz, r) \<in> set upchs. hz < 2 ^ 31"
  shows "distinct (modems (alloc_chips upchs c slots)) \<and>
    (\<forall>d \<in> fst ` set (modems (alloc_chips upchs c slots)). c \<le> d \<and> d < MAX_130X) \<and>
    (\<forall>d. \<exists>lo. \<forall>m i f hz r. CHALLOC_CH d m i f hz r \<in> set (alloc_chips upchs c slots) \<and> m < 8 \<longrightarrow> lo i \<le> hz \<and> hz \<le> lo i + 800001)"
  using assms
proof (induction upchs c slots rule: alloc_chips.induct)
  case (1 upchs c slots)
  obtain multi fsk fl where slots: "slots = (multi, fsk, fl)" by (metis prod_cases3)
  show ?case
  proof (cases "c < MAX_130X \<and> (multi < MAX_UPCHNLS \<or> fsk < MAX_UPCHNLS \<or> fl < MAX_UPCHNLS)")
    case False
    then have "alloc_chips upchs c slots = []" by (subst alloc_chips.simps) (auto simp: slots)
    then show ?thesis by simp
  next
    case True
    obtain slots' evs where chip: "alloc_chip upchs c slots = (slots', evs)" by fastforce
    have out: "alloc_chips upchs c slots = evs @ alloc_chips upchs (c + 1) slots'"
      using True chip by (subst alloc_chips.simps) (simp add: slots)
    note one = alloc_chip_limits [OF chip "1.prems"]
    note rest = "1.IH" [OF slots [symmetric] refl True chip [symmetric] "1.prems"]
    have disj: "set (modems evs) \<inter> set (modems (alloc_chips upchs (c + 1) slots')) = {}" using one rest by fastforce
    have "\<exists>lo. \<forall>m i f hz r. CHALLOC_CH d m i f hz r \<in> set (alloc_chips upchs c slots) \<and> m < 8 \<longrightarrow> lo i \<le> hz \<and> hz \<le> lo i + 800001" for d
    proof (cases "d = c")
      case True
      then have "CHALLOC_CH d m i f hz r \<notin> set (alloc_chips upchs (c + 1) slots')" for m i f hz r
        using rest in_modems [of d m i f hz r] by fastforce
      then show ?thesis using one True unfolding out by auto
    next
      case False
      then have "CHALLOC_CH d m i f hz r \<notin> set evs" for m i f hz r
        using one in_modems [of d m i f hz r] by fastforce
      then show ?thesis using rest unfolding out by auto
    qed
    moreover have "\<forall>d \<in> fst ` set (modems (alloc_chips upchs c slots)). c \<le> d \<and> d < MAX_130X"
      using one rest True unfolding out by fastforce
    moreover have "distinct (modems (alloc_chips upchs c slots))"
      using one rest disj unfolding out by simp
    ultimately show ?thesis by blast
  qed
qed

text \<open>C26: The channel allocation keeps to the hardware: for every channel list, the chips are among the eight there are, each
  modem of a chip gets at most one channel, and any two 125 kHz channels of one front end of a chip are at
  most 800001 Hz apart.\<close>

theorem ral_challoc_limits:
  assumes "length upchs = MAX_UPCHNLS" and "\<forall>(hz, r) \<in> set upchs. hz < 2 ^ 31"
  shows "distinct (modems (ral_challoc upchs)) \<and> (\<forall>(c, m) \<in> set (modems (ral_challoc upchs)). c < MAX_130X) \<and>
    (\<forall>c m m' i f f' hz hz' r r'. CHALLOC_CH c m i f hz r \<in> set (ral_challoc upchs) \<longrightarrow>
       CHALLOC_CH c m' i f' hz' r' \<in> set (ral_challoc upchs) \<longrightarrow> m < 8 \<longrightarrow> m' < 8 \<longrightarrow> hz \<le> hz' + 800001)"
proof -
  let ?evs = "alloc_chips upchs 0 (0, 0, 0)"
  note lim = alloc_chips_limits [OF assms, of 0 "(0, 0, 0)"]
  have "hz \<le> hz' + 800001" if "CHALLOC_CH c m i f hz r \<in> set ?evs" "CHALLOC_CH c m' i f' hz' r' \<in> set ?evs" "m < 8" "m' < 8"
    for c m m' i f f' hz hz' r r'
  proof -
    obtain lo where lo: "\<And>m i f hz r. CHALLOC_CH c m i f hz r \<in> set ?evs \<Longrightarrow> m < 8 \<Longrightarrow> lo i \<le> hz \<and> hz \<le> lo i + 800001"
      using lim by metis
    show ?thesis using lo [OF that(1,3)] lo [OF that(2,4)] by simp
  qed
  moreover have "\<forall>(c, m) \<in> set (modems ?evs). c < MAX_130X" using lim by fastforce
  moreover have "modems (ral_challoc upchs) = modems ?evs"
    and "CHALLOC_CH c m i f hz r \<in> set (ral_challoc upchs) \<longleftrightarrow> CHALLOC_CH c m i f hz r \<in> set ?evs" for c m i f hz r
    by (simp_all add: ral_challoc_def)
  moreover have "distinct (modems ?evs)" using lim by simp
  ultimately show ?thesis by simp
qed

definition eu_upchs :: chdefl where
  "eu_upchs = [(868100000, \<lparr>minSF = 0, maxSF = 5, ch_bw = 0\<rparr>), (868300000, \<lparr>minSF = 0, maxSF = 5, ch_bw = 0\<rparr>)] @
     replicate 78 (0, \<lparr>minSF = 0, maxSF = 0, ch_bw = 0\<rparr>)"

theorem ral_challoc_limits_witness:
  "distinct (modems (ral_challoc eu_upchs))"
  using ral_challoc_limits [of eu_upchs] by (simp add: eu_upchs_def rfe_consts)

text \<open>A channel list whose first channel is a fast LoRa one at 868.3 MHz gets a front end at 434.1 MHz: the span of an unused front
  end enters the computation of its frequency.\<close>

lemma fl_freq_unused: "fl_freq SX130X_RFE_MAXCOFF_250 868300000 (INT_MAX, 0) = 434137500"
  by (simp add: fl_freq_def sub4_def add4_def to_u_def rfe_consts)

text \<open>An FSK channel is never allocated: no value of the 3-bit field is the constant it is compared with.\<close>

lemma alloc_fsk_none:
  assumes "length upchs = MAX_UPCHNLS" and "\<forall>(hz, r) \<in> set upchs. maxSF r < 8"
  shows "alloc_fsk upchs c slot modem ss = (max slot MAX_UPCHNLS, modem, ss, [])"
proof -
  have "next_slot (\<lambda>(hz, r). hz \<noteq> 0 \<and> maxSF r = FSK) upchs slot = max slot MAX_UPCHNLS"
  proof (induction "MAX_UPCHNLS - slot" arbitrary: slot)
    case 0
    then show ?case by (subst next_slot.simps) simp
  next
    case (Suc l)
    then have "upchs ! slot \<in> set upchs" using assms(1) by (intro nth_mem) simp
    then have "\<not> (case upchs ! slot of (hz, r) \<Rightarrow> hz \<noteq> 0 \<and> maxSF r = FSK)" using assms(2) by (auto simp: FSK_def)
    then show ?case using Suc by (subst next_slot.simps) (simp add: Suc_diff_le max_def)
  qed
  then show ?thesis by (simp add: alloc_fsk_def)
qed

end
