(* ===== verification/Timesync.thy ===== *)
theory Timesync
  imports Cfmt Ral
begin

text \<open>
  Synchronisation of the clocks of MCU, concentrator, PPS and server: src/src/timesync.c. Messages to
  the log are left out.
\<close>

section \<open>State\<close>

definition SYNC_QUAL_GOOD :: int where "SYNC_QUAL_GOOD = 100"
definition SYNC_QUAL_THRES :: nat where "SYNC_QUAL_THRES = 90"
definition N_SYNC_QUAL :: nat where "N_SYNC_QUAL = 30"
definition MCU_DRIFT_THRES :: nat where "MCU_DRIFT_THRES = 90"
definition PPS_DRIFT_THRES :: nat where "PPS_DRIFT_THRES = 80"
definition N_DRIFTS :: nat where "N_DRIFTS = 20"
definition QUICK_RETRIES :: int where "QUICK_RETRIES = 3"
definition PPM :: sL where "PPM = 1000000"
definition iPPM_SCALE :: int where "iPPM_SCALE = 10"
definition MIN_MCU_DRIFT_THRES :: int where "MIN_MCU_DRIFT_THRES = 2 * iPPM_SCALE"
definition MAX_MCU_DRIFT_THRES :: int where "MAX_MCU_DRIFT_THRES = 100 * iPPM_SCALE"
definition MAX_PPS_ERROR :: int where "MAX_PPS_ERROR = 1000"
definition NO_PPS_ALARM_INI :: nat where "NO_PPS_ALARM_INI = 10"
definition NO_PPS_ALARM_MAX :: nat where "NO_PPS_ALARM_MAX = 3600"
definition XTICKS_DECAY :: int where "XTICKS_DECAY = 100000"

record timesync =
  ts_ustime :: ustime
  ts_xtime :: sL
  ts_pps_xtime :: sL

definition zero_sync :: timesync where
  "zero_sync = \<lparr>ts_ustime = 0, ts_xtime = 0, ts_pps_xtime = 0\<rparr>"

record txunit_stats =
  excessive_drift_cnt :: int
  drift_thres :: int
  mcu_drifts :: "int list"
  mcu_drifts_widx :: nat

text \<open>
  The static variables of the module, with the two that it updates in src/src/rt.c. \<open>lns_timer\<close> is the
  deadline of the timer \<open>syncLnsTmr\<close>, if it is armed.
\<close>

record tsync =
  stats :: "txunit_stats list"
  sum_mcu_drifts :: int
  pps_drifts :: "int list"
  pps_drifts_widx :: nat
  pps_drifts_thres :: int
  no_pps_thres :: u4
  ppsOffset :: ustime
  gpsOffset :: sL
  syncLnsCnt :: int
  lns_timer :: "ustime option"
  timesyncs :: "timesync list"
  ppsSync :: timesync
  syncWobble :: s1
  wsBufFull :: u1
  syncQual :: "int list"
  syncQual_widx :: nat
  syncQual_thres :: int
  rt_utcOffset :: ustime
  rt_utcOffset_ts :: ustime

definition ustimeRoundSecs :: "sL \<Rightarrow> sL" where
  "ustimeRoundSecs x = c_div (x + PPM div 2) PPM * PPM"

definition ustime2xtime :: "timesync \<Rightarrow> ustime \<Rightarrow> sL" where
  "ustime2xtime sync u = ts_xtime sync + (u - ts_ustime sync)"

definition xtime2ustime :: "timesync \<Rightarrow> sL \<Rightarrow> ustime" where
  "xtime2ustime sync x = ts_ustime sync + (x - ts_xtime sync)"

definition xtime2xtime :: "timesync \<Rightarrow> timesync \<Rightarrow> sL \<Rightarrow> sL" where
  "xtime2xtime src_sync dst_sync x =
     ((ts_xtime dst_sync - ts_xtime src_sync) + (ts_ustime src_sync - ts_ustime dst_sync)) + x"

definition ts_iniTimesync :: "tsync \<Rightarrow> tsync" where
  "ts_iniTimesync t = t\<lparr>
     ppsOffset := - 1, gpsOffset := 0, no_pps_thres := NO_PPS_ALARM_INI, ppsSync := zero_sync,
     stats := replicate MAX_TXUNITS \<lparr>excessive_drift_cnt = 0, drift_thres = MAX_MCU_DRIFT_THRES,
       mcu_drifts = replicate N_DRIFTS 0, mcu_drifts_widx = 0\<rparr>,
     syncWobble := - 1, pps_drifts_widx := 0, syncQual_thres := 2 ^ 31 - 1, syncLnsCnt := 0,
     sum_mcu_drifts := 0, timesyncs := replicate MAX_TXUNITS zero_sync, lns_timer := None\<rparr>"

section \<open>Clock drift\<close>

text \<open>A \<open>double\<close> operation rounds its exact result; \<open>round\<close> goes to the nearest integer, away from 0 on a tie.\<close>

definition fl :: "rat \<Rightarrow> rat" where
  "fl q = (if q < 0 then - to_double (- q) else to_double q)"

definition c_round :: "rat \<Rightarrow> int" where
  "c_round q = (if q < 0 then - \<lfloor>- q + 1 / 2\<rfloor> else \<lfloor>q + 1 / 2\<rfloor>)"

definition c_trunc :: "rat \<Rightarrow> int" where
  "c_trunc q = (if q < 0 then - \<lfloor>- q\<rfloor> else \<lfloor>q\<rfloor>)"

definition encodeDriftPPM :: "rat \<Rightarrow> int" where
  "encodeDriftPPM drift = c_round (fl (fl (fl (drift - 1) * of_int PPM) * of_int iPPM_SCALE))"

definition decodeDriftPPM :: "rat \<Rightarrow> rat" where
  "decodeDriftPPM scaled_ppm = fl (1 + fl (scaled_ppm / fl (of_int PPM * 10)))"

definition decodePPM :: "rat \<Rightarrow> rat" where
  "decodePPM scaled_ppm = fl (scaled_ppm / 10)"

text \<open>
  A quantile by absolute value. \<open>qsort\<close> may leave values of equal magnitude in any order; the model has the
  order of a stable sort, and the module uses the magnitudes only.
\<close>

definition sort_abs :: "int list \<Rightarrow> int list" where
  "sort_abs = sort_key abs"

definition drift_stats :: "int list \<Rightarrow> nat \<Rightarrow> int" where
  "drift_stats drifts thresQ = sort_abs drifts ! ((thresQ * N_DRIFTS + 50) div 100)"

definition ts_normalizeTimespanMCU :: "tsync \<Rightarrow> ustime \<Rightarrow> ustime" where
  "ts_normalizeTimespanMCU t timespan =
     c_round (fl (fl (of_int timespan) / decodeDriftPPM (fl (of_int (sum_mcu_drifts t) / of_nat N_DRIFTS))))"

section \<open>A new time sync of a TX unit\<close>

text \<open>The quality of time syncs: after every round of the table the threshold is set anew.\<close>

definition upd_quality :: "int \<Rightarrow> tsync \<Rightarrow> tsync" where
  "upd_quality quality t =
     (let t = t\<lparr>syncQual := (syncQual t)[syncQual_widx t := quality], syncQual_widx := (syncQual_widx t + 1) mod N_SYNC_QUAL\<rparr> in
      if syncQual_widx t \<noteq> 0 then t
      else t\<lparr>syncQual_thres := max SYNC_QUAL_GOOD \<bar>sort_abs (syncQual t) ! ((N_SYNC_QUAL * SYNC_QUAL_THRES + 50) div 100)\<bar>\<rparr>)"

text \<open>The drift between MCU and concentrator enters its table, with the running sum for unit 0.\<close>

definition upd_drift :: "nat \<Rightarrow> int \<Rightarrow> timesync \<Rightarrow> tsync \<Rightarrow> tsync" where
  "upd_drift txunit drift_ppm cur t =
     (let s = stats t ! txunit;
          t = (if txunit = 0 then t\<lparr>sum_mcu_drifts := sum_mcu_drifts t + (drift_ppm - mcu_drifts s ! mcu_drifts_widx s)\<rparr> else t);
          s = s\<lparr>mcu_drifts := (mcu_drifts s)[mcu_drifts_widx s := drift_ppm], mcu_drifts_widx := (mcu_drifts_widx s + 1) mod N_DRIFTS\<rparr>;
          wrap = (mcu_drifts_widx s = 0);
          s = (if wrap then s\<lparr>drift_thres := max MIN_MCU_DRIFT_THRES
                 (min MAX_MCU_DRIFT_THRES \<bar>drift_stats (mcu_drifts s) MCU_DRIFT_THRES\<bar>)\<rparr> else s);
          mean_ppm = decodePPM (fl (of_int (sum_mcu_drifts t) / of_nat N_DRIFTS));
          t = (if wrap \<and> rt_utcOffset_ts t \<noteq> 0 \<and> ts_pps_xtime (ppsSync t) = 0
               then t\<lparr>rt_utcOffset := c_trunc (fl (fl (of_int (rt_utcOffset t)) -
                        fl (fl (fl (of_int (ts_ustime cur - rt_utcOffset_ts t)) * mean_ppm) / of_int PPM))),
                      rt_utcOffset_ts := ts_ustime cur\<rparr>
               else t)
      in t\<lparr>stats := (stats t)[txunit := s]\<rparr>)"

text \<open>Seconds without a PPS pulse; the alarm threshold grows. The comparison is one of unsigned values.\<close>

definition upd_no_pps :: "timesync \<Rightarrow> tsync \<Rightarrow> tsync" where
  "upd_no_pps cur t =
     (if ts_pps_xtime (ppsSync t) = 0 then t
      else
        let no_pps_secs = to_s 32 (c_div (ts_xtime cur - ts_pps_xtime (ppsSync t) + PPM div 2) PPM) in
        if to_u 32 no_pps_secs > no_pps_thres t
        then t\<lparr>no_pps_thres := (if no_pps_thres t \<ge> NO_PPS_ALARM_MAX then (no_pps_thres t + NO_PPS_ALARM_MAX) mod 2 ^ 32
                               else 2 * no_pps_thres t)\<rparr>
        else t)"

text \<open>Are the last two PPS time stamps fit for a new reference point?\<close>

definition pps_accepted :: "s2conf \<Rightarrow> timesync \<Rightarrow> timesync \<Rightarrow> bool" where
  "pps_accepted conf prev cur =
     (if ts_pps_xtime prev = 0 \<or> ts_pps_xtime cur = 0 then False
      else if ts_xtime cur - ts_pps_xtime cur > PPM + TX_MIN_GAP conf then False
      else
        let err = c_mod (ts_pps_xtime cur - ts_pps_xtime prev) PPM; err = (if err < 0 then err + PPM else err) in
        \<not> (err > MAX_PPS_ERROR \<and> err < PPM - MAX_PPS_ERROR))"

text \<open>The new reference point; the result is the time until the next sync, \<open>now\<close> the clock for arming the timer.\<close>

definition upd_pps :: "s2conf \<Rightarrow> ustime \<Rightarrow> timesync \<Rightarrow> timesync \<Rightarrow> tsync \<Rightarrow> ustime \<times> tsync" where
  "upd_pps conf now prev cur t =
     (let delay = TIMESYNC_RADIO_INTV conf;
          dpps = ts_pps_xtime cur - ts_pps_xtime prev;
          pps_drift = fl (fl (of_int dpps) / fl (of_int (c_div (dpps + PPM div 2) PPM * PPM)));
          t = t\<lparr>pps_drifts := (pps_drifts t)[pps_drifts_widx t := encodeDriftPPM pps_drift],
                pps_drifts_widx := (pps_drifts_widx t + 1) mod N_DRIFTS\<rparr>;
          t = (if pps_drifts_widx t = 0 then t\<lparr>pps_drifts_thres := drift_stats (pps_drifts t) PPS_DRIFT_THRES\<rparr> else t);
          pps_ustime = xtime2ustime cur (ts_pps_xtime cur);
          off = c_mod pps_ustime PPM;
          t = (if syncLnsCnt t = 0 then t\<lparr>ppsOffset := off, syncLnsCnt := 1, wsBufFull := 0, lns_timer := Some now\<rparr>
               else if \<bar>to_s 32 (ppsOffset t - off)\<bar> > c_div (drift_thres (stats t ! 0) * TIMESYNC_RADIO_INTV conf) PPM
               then t\<lparr>ppsOffset := off\<rparr> else t);
          utc = c_mod (pps_ustime + rt_utcOffset t) PPM;
          t = t\<lparr>rt_utcOffset := rt_utcOffset t + (if utc < PPM div 2 then - utc else PPM - utc), syncWobble := - syncWobble t\<rparr>;
          off = c_div (syncWobble t * PPM) 10 + PPM div 2 - c_mod (ts_ustime cur - ppsOffset t + delay) PPM;
          delay = delay + (off + (if off < 0 then 0 else PPM));
          t = (if gpsOffset t \<noteq> 0 then t\<lparr>gpsOffset := gpsOffset t + ustimeRoundSecs (ts_pps_xtime cur - ts_pps_xtime (ppsSync t))\<rparr> else t)
      in (delay, t\<lparr>ppsSync := cur\<rparr>))"

definition ts_updateTimesync :: "s2conf \<Rightarrow> ustime \<Rightarrow> nat \<Rightarrow> int \<Rightarrow> timesync \<Rightarrow> tsync \<Rightarrow> ustime \<times> tsync" where
  "ts_updateTimesync conf now txunit quality cur t =
     (let t = upd_quality quality t; intv = TIMESYNC_RADIO_INTV conf in
      if \<bar>quality\<bar> > syncQual_thres t then (intv, t)
      else
        let prev = timesyncs t ! txunit; set_last = (\<lambda>t. t\<lparr>timesyncs := (timesyncs t)[txunit := cur]\<rparr>) in
        if ts_ustime prev = 0 then (intv, set_last t)
        else
          let dus = ts_ustime cur - ts_ustime prev; dxc = ts_xtime cur - ts_xtime prev in
          if dxc \<le> 0 then (intv, t)
          else if dus < c_div intv 5 then (intv, t)
          else
            let drift_ppm = encodeDriftPPM (fl (fl (of_int dus) / fl (of_int dxc)));
                t = upd_drift txunit drift_ppm cur t; s = stats t ! txunit in
            if \<bar>drift_ppm\<bar> > drift_thres s then
              let s = s\<lparr>excessive_drift_cnt := excessive_drift_cnt s + 1\<rparr>;
                  s = (if excessive_drift_cnt s \<ge> 2 * QUICK_RETRIES then s\<lparr>drift_thres := MAX_MCU_DRIFT_THRES\<rparr> else s)
              in (c_div intv 2, t\<lparr>stats := (stats t)[txunit := s]\<rparr>)
            else
              let t = t\<lparr>stats := (stats t)[txunit := s\<lparr>excessive_drift_cnt := 0\<rparr>]\<rparr> in
              if txunit \<noteq> 0 then (intv, set_last t)
              else
                let t = upd_no_pps cur t in
                if \<not> pps_accepted conf prev cur then (intv, set_last t)
                else case upd_pps conf now prev cur t of (delay, t) \<Rightarrow> (delay, set_last t))"

section \<open>Conversions\<close>

text \<open>
  Results are \<open>None\<close> for an access past the table of TX units: the log message of a failing
  conversion reads it for any unit.
\<close>

definition ts_gpstime2xtime :: "s2conf \<Rightarrow> tsync \<Rightarrow> nat \<Rightarrow> sL \<Rightarrow> sL option" where
  "ts_gpstime2xtime conf t txunit gpstime =
     (if txunit \<ge> MAX_TXUNITS then None
      else if ts_xtime (timesyncs t ! txunit) = 0 \<or> ts_pps_xtime (ppsSync t) = 0 \<or> ppsOffset t < 0 \<or> gpsOffset t = 0 then Some 0
      else if ts_xtime (timesyncs t ! 0) - ts_pps_xtime (ppsSync t) > PPS_VALID_INTV conf then Some 0
      else
        let xtime = gpstime - gpsOffset t + ts_pps_xtime (ppsSync t) in
        Some (if txunit = 0 then xtime else xtime2xtime (ppsSync t) (timesyncs t ! txunit) xtime))"

definition ts_ustime2xtime :: "tsync \<Rightarrow> nat \<Rightarrow> ustime \<Rightarrow> sL" where
  "ts_ustime2xtime t txunit ustime =
     (if txunit \<ge> MAX_TXUNITS \<or> ts_xtime (timesyncs t ! txunit) = 0 then 0
      else ustime2xtime (timesyncs t ! txunit) ustime)"

definition ts_xtime2ustime :: "tsync \<Rightarrow> sL \<Rightarrow> ustime option" where
  "ts_xtime2ustime t xtime =
     (let txunit = ral_xtime2txunit xtime in
      if txunit \<ge> MAX_TXUNITS then None
      else if ts_xtime (timesyncs t ! txunit) = 0 then Some 0
      else
        let sync = timesyncs t ! txunit in
        if ral_xtime2sess xtime \<noteq> ral_xtime2sess (ts_xtime sync) then Some 0
        else Some (xtime2ustime sync xtime))"

definition ts_xtime2xtime :: "tsync \<Rightarrow> sL \<Rightarrow> nat \<Rightarrow> sL option" where
  "ts_xtime2xtime t xtime dst_txunit =
     (let src_txunit = ral_xtime2txunit xtime in
      if src_txunit = dst_txunit then Some xtime
      else if src_txunit \<ge> MAX_TXUNITS then Some 0
      else if ts_xtime (timesyncs t ! src_txunit) = 0 then Some 0
      else if dst_txunit \<ge> MAX_TXUNITS then None
      else if ts_xtime (timesyncs t ! dst_txunit) = 0 then Some 0
      else Some (xtime2xtime (timesyncs t ! src_txunit) (timesyncs t ! dst_txunit) xtime))"

definition ts_xtime2gpstime :: "s2conf \<Rightarrow> tsync \<Rightarrow> sL \<Rightarrow> sL option" where
  "ts_xtime2gpstime conf t xtime =
     (if ts_pps_xtime (ppsSync t) = 0 then Some 0
      else
        map_option (\<lambda>xtime. if xtime = 0 \<or> xtime - ts_pps_xtime (ppsSync t) > PPS_VALID_INTV conf then 0
                            else gpsOffset t + xtime - ts_pps_xtime (ppsSync t))
          (ts_xtime2xtime t xtime 0))"

definition ts_xticks2xtime :: "u4 \<Rightarrow> sL \<Rightarrow> sL" where
  "ts_xticks2xtime xticks last_xtime =
     (let d = to_s 32 (int xticks - last_xtime) in
      if d < - XTICKS_DECAY then 0 else last_xtime + d)"

text \<open>\<open>rnd\<close> is the value of \<open>rand\<close>.\<close>

definition ts_newXtimeSession :: "int \<Rightarrow> nat \<Rightarrow> sL" where
  "ts_newXtimeSession rnd txunit =
     (let ext = rnd mod (RAL_XTSESS_MASK + 1) * 2 ^ RAL_XTSESS_SHIFT;
          ext = (if ext = 0 then 2 ^ RAL_XTSESS_SHIFT else ext)
      in ext + int txunit mod (RAL_TXUNIT_MASK + 1) * 2 ^ RAL_TXUNIT_SHIFT)"

section \<open>Time sync with the server\<close>

definition ts_setTimesyncLns :: "sL \<Rightarrow> sL \<Rightarrow> tsync \<Rightarrow> tsync option" where
  "ts_setTimesyncLns xtime gpstime t =
     (case ts_xtime2ustime t xtime of None \<Rightarrow> None
      | Some ustime \<Rightarrow>
        if ustime = 0 then Some t
        else (case ts_xtime2xtime t xtime 0 of None \<Rightarrow> None
          | Some xtime \<Rightarrow>
            if xtime = 0 then Some t
            else Some (t\<lparr>ppsOffset := c_mod (ustime - c_mod gpstime PPM) PPM, gpsOffset := gpstime,
                         ppsSync := \<lparr>ts_ustime = ustime, ts_xtime = xtime, ts_pps_xtime = xtime\<rparr>\<rparr>)))"

text \<open>The candidates for the second of the server's time: the last one that fits and their number.\<close>

function pps_tries :: "sL \<Rightarrow> sL \<Rightarrow> sL \<Rightarrow> sL \<Rightarrow> sL \<Rightarrow> sL \<Rightarrow> sL \<times> int \<Rightarrow> sL \<times> int" where
  "pps_tries try_s rx_s gps_us off txtime rxtime (us_s, cnt) =
     (if try_s \<le> rx_s then
        (let candidate = try_s * PPM + gps_us in
         pps_tries (try_s + 1) rx_s gps_us off txtime rxtime
           (if candidate \<ge> txtime \<and> candidate \<le> rxtime then (try_s * PPM + off, cnt + 1) else (us_s, cnt)))
      else (us_s, cnt))"
  by pat_completeness auto
termination by (relation "measure (\<lambda>(try_s, rx_s, _). nat (rx_s + 1 - try_s))") auto

declare pps_tries.simps [simp del]

definition ts_processTimesyncLns :: "bool \<Rightarrow> ustime \<Rightarrow> ustime \<Rightarrow> sL \<Rightarrow> tsync \<Rightarrow> tsync option" where
  "ts_processTimesyncLns pps_fuzzy txtime rxtime gpstime t =
     (if ppsOffset t < 0 \<or> rxtime - txtime \<ge> 2 * PPM \<or> gpsOffset t \<noteq> 0 then Some t
      else if pps_fuzzy then
        ts_setTimesyncLns (ustime2xtime (timesyncs t ! 0) (c_div (txtime + rxtime) 2)) gpstime t
      else
        let txtime = txtime - ppsOffset t; rxtime = rxtime - ppsOffset t;
            tx_s = c_div txtime PPM; rx_s = c_div rxtime PPM;
            gps_us = c_mod gpstime PPM; gps_s = gpstime - gps_us;
            (us_s, cnt) = pps_tries tx_s rx_s gps_us (ppsOffset t) txtime rxtime (0, 0) in
        if cnt \<noteq> 1 then Some t
        else
          let inferred = ustime2xtime (timesyncs t ! 0) us_s;
              delta = ustimeRoundSecs (inferred - ts_pps_xtime (ppsSync t));
              pps_xtime = ts_pps_xtime (ppsSync t) + delta;
              jitter = pps_xtime - inferred in
          if \<bar>to_s 32 jitter\<bar> * iPPM_SCALE > drift_thres (stats t ! 0) then Some t
          else Some (t\<lparr>gpsOffset := gps_s - delta\<rparr>))"

text \<open>
  The timer callback: \<open>connected\<close> is whether there is a connection with room in its send buffer, or
  none, or no connection at all; the result tells whether a request is sent.
\<close>

datatype lns_conn = NoConn | NoRoom | Room

definition onTimesyncLns :: "s2conf \<Rightarrow> ustime \<Rightarrow> lns_conn \<Rightarrow> tsync \<Rightarrow> bool \<times> tsync" where
  "onTimesyncLns conf now conn t =
     (if conn = NoConn \<or> ppsOffset t < 0 \<or> gpsOffset t \<noteq> 0 then (False, t\<lparr>lns_timer := Some (now + TIMESYNC_LNS_PAUSE conf)\<rparr>)
      else if conn = NoRoom then (False, t\<lparr>lns_timer := Some (now + TIMESYNC_LNS_RETRY conf), wsBufFull := 1\<rparr>)
      else
        let delay = (if to_u 32 (syncLnsCnt t) mod TIMESYNC_LNS_BURST conf \<noteq> 0 then TIMESYNC_LNS_RETRY conf
                     else TIMESYNC_LNS_PAUSE conf)
        in (True, t\<lparr>wsBufFull := 0, syncLnsCnt := syncLnsCnt t + 1, lns_timer := Some (now + delay)\<rparr>))"

section \<open>Invariant\<close>

definition stats_ok :: "txunit_stats \<Rightarrow> bool" where
  "stats_ok s \<longleftrightarrow> length (mcu_drifts s) = N_DRIFTS \<and> mcu_drifts_widx s < N_DRIFTS \<and> excessive_drift_cnt s \<ge> 0 \<and>
     MIN_MCU_DRIFT_THRES \<le> drift_thres s \<and> drift_thres s \<le> MAX_MCU_DRIFT_THRES"

definition tsync_ok :: "tsync \<Rightarrow> bool" where
  "tsync_ok t \<longleftrightarrow> length (stats t) = MAX_TXUNITS \<and> (\<forall>s \<in> set (stats t). stats_ok s) \<and>
     sum_mcu_drifts t = sum_list (mcu_drifts (stats t ! 0)) \<and> length (timesyncs t) = MAX_TXUNITS \<and>
     length (pps_drifts t) = N_DRIFTS \<and> pps_drifts_widx t < N_DRIFTS \<and> length (syncQual t) = N_SYNC_QUAL \<and>
     syncQual_widx t < N_SYNC_QUAL \<and> SYNC_QUAL_GOOD \<le> syncQual_thres t"

lemmas ts_consts = SYNC_QUAL_GOOD_def SYNC_QUAL_THRES_def N_SYNC_QUAL_def MCU_DRIFT_THRES_def PPS_DRIFT_THRES_def
  N_DRIFTS_def QUICK_RETRIES_def PPM_def iPPM_SCALE_def MIN_MCU_DRIFT_THRES_def MAX_MCU_DRIFT_THRES_def
  MAX_PPS_ERROR_def NO_PPS_ALARM_INI_def NO_PPS_ALARM_MAX_def XTICKS_DECAY_def MAX_TXUNITS_def

lemma tsync_ok_ini:
  assumes "length (pps_drifts t) = N_DRIFTS" and "length (syncQual t) = N_SYNC_QUAL" and "syncQual_widx t < N_SYNC_QUAL"
  shows "tsync_ok (ts_iniTimesync t)"
  using assms by (simp add: tsync_ok_def ts_iniTimesync_def stats_ok_def ts_consts sum_list_replicate)

lemma upd_quality_ok: "tsync_ok t \<Longrightarrow> tsync_ok (upd_quality q t)"
  by (auto simp: upd_quality_def tsync_ok_def Let_def ts_consts)

lemma sum_list_update_int: "i < length xs \<Longrightarrow> sum_list (xs[i := x :: int]) = sum_list xs + (x - xs ! i)"
proof (induction xs arbitrary: i)
  case (Cons y ys)
  then show ?case by (cases i) auto
qed simp

lemma tsync_ok_stats:
  assumes "tsync_ok t" and "u < MAX_TXUNITS" and "stats_ok s"
    and "sum_mcu_drifts t' = (if u = 0 then sum_list (mcu_drifts s) else sum_mcu_drifts t)"
    and "stats t' = (stats t)[u := s]" and "length (timesyncs t') = MAX_TXUNITS" "length (pps_drifts t') = N_DRIFTS"
    "pps_drifts_widx t' < N_DRIFTS" "length (syncQual t') = N_SYNC_QUAL" "syncQual_widx t' < N_SYNC_QUAL"
    "SYNC_QUAL_GOOD \<le> syncQual_thres t'"
  shows "tsync_ok t'"
  using assms by (auto simp: tsync_ok_def nth_list_update dest: set_update_subset_insert [THEN subsetD])

lemma stats_nth: "tsync_ok t \<Longrightarrow> u < MAX_TXUNITS \<Longrightarrow> stats_ok (stats t ! u)"
  by (auto simp: tsync_ok_def)

lemma upd_drift_ok:
  assumes "tsync_ok t" and "u < MAX_TXUNITS"
  shows "tsync_ok (upd_drift u d cur t)"
proof -
  let ?s = "stats t ! u"
  have s: "stats_ok ?s" by (rule stats_nth [OF assms])
  define s1 where "s1 = ?s\<lparr>mcu_drifts := (mcu_drifts ?s)[mcu_drifts_widx ?s := d], mcu_drifts_widx := (mcu_drifts_widx ?s + 1) mod N_DRIFTS\<rparr>"
  define s2 where "s2 = (if mcu_drifts_widx s1 = 0 then s1\<lparr>drift_thres := max MIN_MCU_DRIFT_THRES
                 (min MAX_MCU_DRIFT_THRES \<bar>drift_stats (mcu_drifts s1) MCU_DRIFT_THRES\<bar>)\<rparr> else s1)"
  have ok2: "stats_ok s2" using s by (auto simp: s2_def s1_def stats_ok_def ts_consts)
  have sum: "u = 0 \<Longrightarrow> sum_list (mcu_drifts s2) = sum_mcu_drifts t + (d - mcu_drifts ?s ! mcu_drifts_widx ?s)"
    using s assms(1) by (simp add: s2_def s1_def stats_ok_def tsync_ok_def sum_list_update_int)
  show ?thesis
    by (rule tsync_ok_stats [OF assms ok2])
      (use assms sum in \<open>simp_all add: upd_drift_def Let_def s1_def s2_def tsync_ok_def\<close>)
qed

lemma upd_no_pps_ok: "tsync_ok t \<Longrightarrow> tsync_ok (upd_no_pps cur t)"
  by (auto simp: upd_no_pps_def Let_def tsync_ok_def)

text \<open>The fields outside the invariant, and one rule per shape of a step.\<close>

lemma tsync_ok_frame [simp]:
  "tsync_ok (t\<lparr>ppsOffset := x\<rparr>) = tsync_ok t" "tsync_ok (t\<lparr>gpsOffset := x\<rparr>) = tsync_ok t"
  "tsync_ok (t\<lparr>rt_utcOffset := x\<rparr>) = tsync_ok t" "tsync_ok (t\<lparr>pps_drifts_thres := x\<rparr>) = tsync_ok t"
  "tsync_ok (t\<lparr>syncLnsCnt := x\<rparr>) = tsync_ok t" "tsync_ok (t\<lparr>wsBufFull := y\<rparr>) = tsync_ok t"
  "tsync_ok (t\<lparr>lns_timer := z\<rparr>) = tsync_ok t" "tsync_ok (t\<lparr>syncWobble := x\<rparr>) = tsync_ok t"
  "tsync_ok (t\<lparr>ppsSync := w\<rparr>) = tsync_ok t"
  by (simp_all add: tsync_ok_def)

lemma tsync_ok_pps_drifts:
  "tsync_ok t \<Longrightarrow> tsync_ok (t\<lparr>pps_drifts := (pps_drifts t)[i := d], pps_drifts_widx := j mod N_DRIFTS\<rparr>)"
  by (simp add: tsync_ok_def ts_consts)

lemma tsync_ok_let: "tsync_ok v \<Longrightarrow> (\<And>t. tsync_ok t \<Longrightarrow> tsync_ok (snd (f t))) \<Longrightarrow> tsync_ok (snd (let t = v in f t))"
  by simp

lemma tsync_ok_let_other: "(\<And>x. tsync_ok (snd (f x))) \<Longrightarrow> tsync_ok (snd (let x = v in f x))"
  by simp

lemma tsync_ok_if: "tsync_ok x \<Longrightarrow> tsync_ok y \<Longrightarrow> tsync_ok (if b then x else y)"
  by simp

lemma upd_pps_ok: "tsync_ok t \<Longrightarrow> tsync_ok (snd (upd_pps conf now prev cur t))"
  unfolding upd_pps_def
  by (rule tsync_ok_let tsync_ok_pps_drifts | assumption | rule tsync_ok_let_other | rule tsync_ok_if
      | simp only: tsync_ok_frame snd_conv)+

text \<open>C24: Every time sync keeps the tables of the module in order: for each TX unit and any measurements, the
  write positions stay inside the tables, the running sum is the sum of the drift table of unit 0,
  and the thresholds stay in their range.\<close>

theorem ts_update_keeps:
  assumes "tsync_ok t" and "txunit < MAX_TXUNITS"
  shows "tsync_ok (snd (ts_updateTimesync conf now txunit quality cur t))"
proof -
  let ?t1 = "upd_quality quality t"
  have t1: "tsync_ok ?t1" by (rule upd_quality_ok [OF assms(1)])
  have set_last: "tsync_ok (t\<lparr>timesyncs := (timesyncs t)[txunit := cur]\<rparr>)" if "tsync_ok t" for t
    using that by (simp add: tsync_ok_def)
  define d where "d = encodeDriftPPM (fl (fl (of_int (ts_ustime cur - ts_ustime (timesyncs ?t1 ! txunit))) /
    fl (of_int (ts_xtime cur - ts_xtime (timesyncs ?t1 ! txunit)))))"
  define t2 where "t2 = upd_drift txunit d cur ?t1"
  have t2: "tsync_ok t2" unfolding t2_def by (rule upd_drift_ok [OF t1 assms(2)])
  have s2: "stats_ok (stats t2 ! txunit)" by (rule stats_nth [OF t2 assms(2)])
  have upd: "tsync_ok (t2\<lparr>stats := (stats t2)[txunit := s]\<rparr>)"
    if "stats_ok s" "mcu_drifts s = mcu_drifts (stats t2 ! txunit)" for s
    by (rule tsync_ok_stats [OF t2 assms(2) that(1)]) (use t2 that(2) in \<open>simp_all add: tsync_ok_def\<close>)
  have zero: "tsync_ok (t2\<lparr>stats := (stats t2)[txunit := (stats t2 ! txunit)\<lparr>excessive_drift_cnt := 0\<rparr>]\<rparr>)" (is "tsync_ok ?t3")
    using s2 by (intro upd) (simp_all add: stats_ok_def)
  have t4: "tsync_ok (upd_no_pps cur ?t3)" by (rule upd_no_pps_ok [OF zero])
  have pps: "tsync_ok t'" if "upd_pps conf now prev cur (upd_no_pps cur ?t3) = (delay, t')" for prev delay t'
    using upd_pps_ok [OF t4, of conf now prev cur] that by simp
  have exc: "tsync_ok (t2\<lparr>stats := (stats t2)[txunit := (stats t2 ! txunit)\<lparr>excessive_drift_cnt := excessive_drift_cnt (stats t2 ! txunit) + 1\<rparr>]\<rparr>)"
    "tsync_ok (t2\<lparr>stats := (stats t2)[txunit := (stats t2 ! txunit)\<lparr>excessive_drift_cnt := excessive_drift_cnt (stats t2 ! txunit) + 1,
      drift_thres := MAX_MCU_DRIFT_THRES\<rparr>]\<rparr>)"
    using s2 by (auto intro!: upd simp: stats_ok_def ts_consts)
  have branch: "tsync_ok (snd (if b then x else y))" if "b \<Longrightarrow> tsync_ok (snd x)" "\<not> b \<Longrightarrow> tsync_ok (snd y)"
    for b and x y :: "ustime \<times> tsync"
    using that by simp
  show ?thesis
    unfolding ts_updateTimesync_def Let_def d_def [symmetric] t2_def [symmetric]
  proof (intro branch, goal_cases)
    case 1 show ?case using t1 by (simp only: snd_conv)
  next
    case 2 show ?case using set_last [OF t1] by (simp only: snd_conv)
  next
    case 3 show ?case using t1 by (simp only: snd_conv)
  next
    case 4 show ?case using t1 by (simp only: snd_conv)
  next
    case 5 show ?case using exc by simp
  next
    case 6 show ?case using set_last [OF zero] by (simp only: snd_conv)
  next
    case 7 show ?case using set_last [OF t4] by (simp only: snd_conv)
  next
    case 8 show ?case by (auto split: prod.split intro: set_last pps)
  qed
qed

text \<open>A station with two units in session 1, 10 s after its start, whose PPS edges are at 0.3 s of the local clock.\<close>

definition sync_example :: tsync where
  "sync_example = \<lparr>stats = replicate MAX_TXUNITS \<lparr>excessive_drift_cnt = 0, drift_thres = MAX_MCU_DRIFT_THRES,
       mcu_drifts = replicate N_DRIFTS 0, mcu_drifts_widx = 0\<rparr>, sum_mcu_drifts = 0,
     pps_drifts = replicate N_DRIFTS 0, pps_drifts_widx = 0, pps_drifts_thres = 0, no_pps_thres = 10,
     ppsOffset = 300000, gpsOffset = 0, syncLnsCnt = 1, lns_timer = None,
     timesyncs = [\<lparr>ts_ustime = 10000000, ts_xtime = 2 ^ 48 + 10000000, ts_pps_xtime = 2 ^ 48 + 9300000\<rparr>,
                  \<lparr>ts_ustime = 10000000, ts_xtime = 2 ^ 56 + 2 ^ 48 + 9000000, ts_pps_xtime = 0\<rparr>, zero_sync, zero_sync],
     ppsSync = \<lparr>ts_ustime = 10000000, ts_xtime = 2 ^ 48 + 10000000, ts_pps_xtime = 2 ^ 48 + 9300000\<rparr>, syncWobble = 1,
     wsBufFull = 0, syncQual = replicate N_SYNC_QUAL 0, syncQual_widx = 0, syncQual_thres = 100, rt_utcOffset = 0,
     rt_utcOffset_ts = 0\<rparr>"

theorem ts_update_keeps_witness:
  "tsync_ok (snd (ts_updateTimesync dflt_conf 12100000 0 3
     \<lparr>ts_ustime = 12100000, ts_xtime = 2 ^ 48 + 12100001, ts_pps_xtime = 2 ^ 48 + 11300001\<rparr> sync_example))"
  by (rule ts_update_keeps) (simp_all add: tsync_ok_def stats_ok_def sync_example_def ts_consts sum_list_replicate)

section \<open>What the conversions promise\<close>

lemma xtime2ustime_inverse: "xtime2ustime sync (ustime2xtime sync u) = u"
  by (simp add: xtime2ustime_def ustime2xtime_def)

lemma xtime2xtime_via_ustime: "xtime2xtime s d x = ustime2xtime d (xtime2ustime s x)"
  by (simp add: xtime2xtime_def ustime2xtime_def xtime2ustime_def)

lemma xtime_sess_txunit:
  assumes "0 \<le> c" and "c < 2 ^ RAL_XTSESS_SHIFT" and "s < 256" and "u < 128"
  shows "ral_xtime2txunit (int u * 2 ^ RAL_TXUNIT_SHIFT + int s * 2 ^ RAL_XTSESS_SHIFT + c) = u"
    and "ral_xtime2sess (int u * 2 ^ RAL_TXUNIT_SHIFT + int s * 2 ^ RAL_XTSESS_SHIFT + c) = s"
proof -
  let ?x = "int u * 2 ^ RAL_TXUNIT_SHIFT + int s * 2 ^ RAL_XTSESS_SHIFT + c"
  have x: "?x = c + (int u * 256 + int s) * 2 ^ 48" by (simp add: ral_consts)
  have sess: "?x div 2 ^ 48 = int u * 256 + int s"
    using assms(1,2) unfolding x by (simp add: ral_consts)
  have "?x div 2 ^ 56 = ?x div 2 ^ 48 div 2 ^ 8" by (subst zdiv_zmult2_eq [symmetric]) simp_all
  also have "\<dots> = (int u * 256 + int s) div 2 ^ 8" by (simp only: sess)
  also have "\<dots> = int u" using assms(3) by simp
  finally show "ral_xtime2txunit ?x = u" using assms(4) by (simp add: ral_xtime2txunit_def RAL_TXUNIT_SHIFT_def RAL_TXUNIT_MASK_def)
  show "ral_xtime2sess ?x = s" using sess assms(3)
    by (simp add: ral_xtime2sess_def RAL_XTSESS_SHIFT_def RAL_XTSESS_MASK_def)
qed

text \<open>A new session has a number other than 0 and belongs to its unit, and so has every later time stamp.\<close>

lemma newXtimeSession_split:
  assumes "u < 128"
  obtains s where "0 < s" and "s < 256"
    and "ts_newXtimeSession rnd u = int u * 2 ^ RAL_TXUNIT_SHIFT + int s * 2 ^ RAL_XTSESS_SHIFT"
proof -
  define r where "r = nat (rnd mod 256)"
  have r: "rnd mod 256 = int r" "r < 256" by (simp_all add: r_def nat_less_iff)
  show ?thesis
    by (rule that [of "if r = 0 then 1 else r"])
      (use r assms in \<open>simp_all add: ts_newXtimeSession_def Let_def RAL_XTSESS_MASK_def RAL_TXUNIT_MASK_def\<close>)
qed

text \<open>C23: Time stamps survive the conversion between clocks: with a time sync of each of two units made in
  sessions that \<open>ts_newXtimeSession\<close> opened, a local time converted to the clock of the first unit comes back unchanged,
  and conversion of that stamp to the clock of the second unit gives what the local time itself converts to there.\<close>

theorem ts_clock_roundtrip:
  assumes "length (timesyncs t) = MAX_TXUNITS" and "u < MAX_TXUNITS" and "v < MAX_TXUNITS"
    and "timesyncs t ! u = \<lparr>ts_ustime = us, ts_xtime = ts_newXtimeSession rnd u + c, ts_pps_xtime = p\<rparr>"
    and "ts_xtime (timesyncs t ! v) \<noteq> 0"
    and "0 \<le> c" "c < 2 ^ RAL_XTSESS_SHIFT" "0 \<le> c + (now - us)" "c + (now - us) < 2 ^ RAL_XTSESS_SHIFT"
  shows "ts_xtime2ustime t (ts_ustime2xtime t u now) = Some now \<and>
         ts_xtime2xtime t (ts_ustime2xtime t u now) v = Some (ts_ustime2xtime t v now)"
proof -
  have u: "u < 128" using assms(2) by (simp add: MAX_TXUNITS_def)
  obtain s where s: "0 < s" "s < 256" and
    sess: "ts_newXtimeSession rnd u = int u * 2 ^ RAL_TXUNIT_SHIFT + int s * 2 ^ RAL_XTSESS_SHIFT"
    by (rule newXtimeSession_split [OF u])
  let ?x = "ts_newXtimeSession rnd u + (c + (now - us))"
  have pos: "ts_xtime (timesyncs t ! u) \<noteq> 0" using s(1) assms(4,6) by (simp add: sess ral_consts)
  have x: "ts_ustime2xtime t u now = ?x" 
    and ret: "xtime2ustime (timesyncs t ! u) ?x = now"
    using pos assms(2,4) by (simp_all add: ts_ustime2xtime_def ustime2xtime_def xtime2ustime_def)
  have ids: "ral_xtime2txunit ?x = u" "ral_xtime2sess ?x = s" "ral_xtime2sess (ts_xtime (timesyncs t ! u)) = s"
    using xtime_sess_txunit [OF assms(8,9) s(2) u] xtime_sess_txunit [OF assms(6,7) s(2) u] assms(4) by (simp_all add: sess)
  have "ts_xtime2ustime t ?x = Some now"
    using pos ids ret assms(2) by (simp add: ts_xtime2ustime_def Let_def)
  moreover have "ts_xtime2xtime t ?x v = Some (ts_ustime2xtime t v now)"
    using pos ids(1) ret assms(2,3,5) x
    by (cases "u = v") (simp_all add: ts_xtime2xtime_def Let_def xtime2xtime_via_ustime ts_ustime2xtime_def)
  ultimately show ?thesis by (simp only: x)
qed

theorem ts_clock_roundtrip_witness:
  "ts_xtime2ustime sync_example (ts_ustime2xtime sync_example 0 10500000) = Some 10500000 \<and>
   ts_xtime2xtime sync_example (ts_ustime2xtime sync_example 0 10500000) 1 = Some (ts_ustime2xtime sync_example 1 10500000)"
  by (rule ts_clock_roundtrip [where us = 10000000 and rnd = 1 and c = 10000000 and p = "2 ^ 48 + 9300000"])
    (simp_all add: sync_example_def MAX_TXUNITS_def ts_newXtimeSession_def Let_def ral_consts)

text \<open>C25: The 64-bit time of a received frame comes back from the 32-bit counter of the concentrator: for any true
  time at most 100 ms before and less than 2^31 us after the last time sync, \<open>ts_xticks2xtime\<close> returns exactly it.\<close>

theorem ts_xticks2xtime_exact:
  assumes "last_xtime - XTICKS_DECAY \<le> x" and "x < last_xtime + 2 ^ 31"
  shows "ts_xticks2xtime (nat (x mod 2 ^ 32)) last_xtime = x"
proof -
  have "to_s 32 (x mod 2 ^ 32 - last_xtime) = x - last_xtime"
  proof -
    have "(x mod 2 ^ 32 - last_xtime + 2 ^ 31) mod 2 ^ 32 = (x - last_xtime + 2 ^ 31) mod 2 ^ 32"
      by (metis (no_types, lifting) diff_add_eq mod_add_left_eq mod_diff_left_eq)
    also have "\<dots> = x - last_xtime + 2 ^ 31" using assms by (intro mod_pos_pos_trivial) (simp_all add: XTICKS_DECAY_def)
    finally show ?thesis by (simp add: to_s_def)
  qed
  then show ?thesis using assms by (simp add: ts_xticks2xtime_def Let_def)
qed

theorem ts_xticks2xtime_exact_witness: "ts_xticks2xtime (nat (7 mod 2 ^ 32)) 50000 = 7 \<and>
  ts_xticks2xtime (nat ((2 ^ 48 + 2 ^ 32 + 5) mod 2 ^ 32)) (2 ^ 48 + 2 ^ 32 - 100) = 2 ^ 48 + 2 ^ 32 + 5"
  using ts_xticks2xtime_exact [of 50000 7] ts_xticks2xtime_exact [of "2 ^ 48 + 2 ^ 32 - 100" "2 ^ 48 + 2 ^ 32 + 5"]
  by (simp add: XTICKS_DECAY_def)

text \<open>The candidates: none, or exactly one, when the count says so.\<close>

lemma pps_tries_count:
  fixes fits :: "sL \<Rightarrow> bool"
  assumes "pps_tries a b gps_us off txtime rxtime (us0, n) = (us, m)"
    and fits: "\<And>k. fits k \<longleftrightarrow> txtime \<le> k * PPM + gps_us \<and> k * PPM + gps_us \<le> rxtime"
  shows "n \<le> m \<and> (m = n \<longrightarrow> us = us0 \<and> {k. a \<le> k \<and> k \<le> b \<and> fits k} = {}) \<and>
    (m = n + 1 \<longrightarrow> (\<exists>k. {k. a \<le> k \<and> k \<le> b \<and> fits k} = {k} \<and> us = k * PPM + off))"
  using assms(1)
proof (induction "nat (b + 1 - a)" arbitrary: a us0 n)
  case 0
  then have "{k. a \<le> k \<and> k \<le> b \<and> fits k} = {}" by auto
  then show ?case using 0 by (subst (asm) pps_tries.simps) auto
next
  case (Suc l)
  have le: "a \<le> b" and l: "l = nat (b + 1 - (a + 1))" using Suc.hyps(2) by auto
  have rest: "pps_tries (a + 1) b gps_us off txtime rxtime (if fits a then (a * PPM + off, n + 1) else (us0, n)) = (us, m)"
    using Suc.prems le by (subst (asm) pps_tries.simps) (simp add: fits Let_def)
  let ?S = "\<lambda>a. {k. a \<le> k \<and> k \<le> b \<and> fits k}"
  have S: "?S a = (if fits a then insert a (?S (a + 1)) else ?S (a + 1))"
    using le by (auto simp: order_le_less)
  show ?case
  proof (cases "fits a")
    case True
    then show ?thesis
      using Suc.hyps(1) [OF l, of "a * PPM + off" "n + 1"] rest unfolding S by auto
  next
    case False
    then show ?thesis using Suc.hyps(1) [OF l, of us0 n] rest unfolding S by simp
  qed
qed

lemma ustimeRoundSecs_near: "\<bar>ustimeRoundSecs x - x\<bar> < 2 * PPM"
  using c_mod_abs_less [of PPM "x + PPM div 2"] by (auto simp: ustimeRoundSecs_def c_mod_def PPM_def abs_less_iff)



end
