(* ===== verification/S2eBase.thy ===== *)
theory S2eBase
  imports RtTimer Txq Rxq Timesync UjEnc
begin

text \<open>
  The state of the station engine, src/src/s2e.h and src/src/s2e.c: data rates, air times, duty cycle
  and transmission power. The sections follow the order of the source.
\<close>

section \<open>Constants\<close>

definition RPS_DNONLY :: u1 where "RPS_DNONLY = 0x20"
definition RPS_BCN :: u1 where "RPS_BCN = 0x40"
definition RPS_ILLEGAL :: u1 where "RPS_ILLEGAL = 0xFF"
definition RPS_FSK :: u1 where "RPS_FSK = FSK"

definition rps_sf :: "u1 \<Rightarrow> nat" where "rps_sf params = params mod 8"
definition rps_bw :: "u1 \<Rightarrow> nat" where "rps_bw params = params div 8 mod 4"
definition rps_make :: "int \<Rightarrow> int \<Rightarrow> u1" where "rps_make sf bw = nat (sf mod 8 + bw mod 4 * 8)"

definition TXSTATUS_EMITTING :: nat where "TXSTATUS_EMITTING = 2"

definition PRIO_PENALTY_ALTTXTIME :: int where "PRIO_PENALTY_ALTTXTIME = 10"
definition PRIO_PENALTY_ALTANTENNA :: int where "PRIO_PENALTY_ALTANTENNA = 10"
definition PRIO_BEACON :: u1 where "PRIO_BEACON = 128"

definition DC_DECI :: nat where "DC_DECI = 0"
definition DC_CENTI :: nat where "DC_CENTI = 1"
definition DC_MILLI :: nat where "DC_MILLI = 2"
definition DC_NUM_BANDS :: nat where "DC_NUM_BANDS = 3"
definition MAX_DNCHNLS :: nat where "MAX_DNCHNLS = 48"
definition DR_CNT :: nat where "DR_CNT = 16"
definition DR_ILLEGAL :: u1 where "DR_ILLEGAL = 16"
definition TXPOW_SCALE :: s2 where "TXPOW_SCALE = 10"

lemmas s2e_consts = RPS_DNONLY_def RPS_BCN_def RPS_ILLEGAL_def RPS_FSK_def DC_DECI_def DC_CENTI_def DC_MILLI_def
  DC_NUM_BANDS_def MAX_DNCHNLS_def DR_CNT_def DR_ILLEGAL_def USTIME_MIN_def USTIME_MAX_def

text \<open>The modes of a TX job, bits of its \<open>txflags\<close>.\<close>

definition TXFLAG_TXING :: nat where "TXFLAG_TXING = 0"
definition TXFLAG_TXCHECKED :: nat where "TXFLAG_TXCHECKED = 1"
definition TXFLAG_CLSA :: nat where "TXFLAG_CLSA = 2"
definition TXFLAG_PING :: nat where "TXFLAG_PING = 3"
definition TXFLAG_CLSC :: nat where "TXFLAG_CLSC = 4"
definition TXFLAG_BCN :: nat where "TXFLAG_BCN = 5"

definition has_flag :: "nat \<Rightarrow> txjob \<Rightarrow> bool" where
  "has_flag f j \<longleftrightarrow> bit (j_txflags j) f"

definition set_flag :: "nat \<Rightarrow> txjob \<Rightarrow> txjob" where
  "set_flag f j = j\<lparr>j_txflags := set_bit f (j_txflags j)\<rparr>"

definition clr_flag :: "nat \<Rightarrow> txjob \<Rightarrow> txjob" where
  "clr_flag f j = j\<lparr>j_txflags := unset_bit f (j_txflags j)\<rparr>"

section \<open>State\<close>

text \<open>
  \<open>s2txunit_t\<close> without the head of its queue, which is in \<open>txq\<close>; \<open>txtimer\<close> is the deadline of an armed timer.
\<close>

record s2txunit =
  dc_eu868bands :: "ustime list"
  dc_perChnl :: "ustime list"
  txtimer :: "ustime option"

text \<open>The check of channel access that the region chose, the function pointer \<open>canTx\<close>.\<close>

datatype can_tx = CanTxOK | CanTxEU868 | CanTxPerChnlDC

text \<open>
  What the station does to the outside: messages to the server, calls of the radio layer (with the job
  handed over and the clear channel assessment switched off or not), and commands that are run.
\<close>

datatype s2out = SendText bytes | RadioTx nat txjob nat | RadioAbort nat | ExecCommand "bytes list"

record s2bcn =
  bcn_state :: u1
  bcn_ctrl :: u1
  bcn_layout :: "u1 list"
  bcn_freqs :: "u4 list"

text \<open>
  \<open>s2ctx_t\<close>, with the global switches, the filters and the time sync of the station. \<open>muxtime\<close> is a finite \<open>double\<close>.
\<close>

record s2ctx =
  canTx :: can_tx
  ccaEnabled :: u1
  dr_defs :: "u1 list"
  dc_chnlRate :: u2
  dn_chnls :: "u4 list"
  min_freq :: u4
  max_freq :: u4
  txpow :: s2
  txpow2 :: s2
  txpow2_freq :: "u4 list"
  region :: u4
  region_s :: bytes
  s_txq :: txq
  s_rxq :: rxq
  muxtime :: rat
  reftime :: ustime
  txunits :: "s2txunit list"
  bcn :: s2bcn
  bcntimer :: "ustime option"
  dcDisabled :: u1
  ccaDisabled :: u1
  dwellDisabled :: u1
  joineuiFilter :: "uL list"
  netidFilter :: "u4 list"
  rt_deveui :: bytes
  rt_joineui :: bytes
  s_ts :: tsync
  s_out :: "s2out list"

text \<open>The answers of the outside, by the number of calls so far: the size of a send buffer, if there is room, and the radio layer.\<close>

record s2io =
  io_sendbuf :: "nat \<Rightarrow> nat \<Rightarrow> nat option"
  io_ral_tx :: "nat \<Rightarrow> int"
  io_ral_txstatus :: "nat \<Rightarrow> nat"

definition upd_unit :: "nat \<Rightarrow> (s2txunit \<Rightarrow> s2txunit) \<Rightarrow> s2ctx \<Rightarrow> s2ctx" where
  "upd_unit u f s = s\<lparr>txunits := (txunits s)[u := f (txunits s ! u)]\<rparr>"

definition setDC :: "ustime \<Rightarrow> s2ctx \<Rightarrow> s2ctx" where
  "setDC t s = s\<lparr>txunits := map (\<lambda>u. u\<lparr>dc_eu868bands := replicate DC_NUM_BANDS t,
     dc_perChnl := replicate MAX_DNCHNLS t @ drop MAX_DNCHNLS (dc_perChnl u)\<rparr>) (txunits s)\<rparr>"

definition resetDC :: "ustime \<Rightarrow> u2 \<Rightarrow> s2ctx \<Rightarrow> s2ctx" where
  "resetDC now dc_rate s = (setDC now s)\<lparr>dc_chnlRate := dc_rate\<rparr>"

text \<open>
  \<open>s2e_ini\<close> sets the whole context to zero first; the globals stay. \<open>ranges\<close> is \<open>MAX_JOINEUI_RANGES\<close>.
\<close>

definition s2e_ini :: "u4 \<Rightarrow> s2ctx \<Rightarrow> s2ctx" where
  "s2e_ini ranges s =
     (let filt = (if joineuiFilter s = [] then replicate (2 * ranges + 2) 0 else joineuiFilter s);
          s = s\<lparr>canTx := CanTxOK, ccaEnabled := 0, dr_defs := replicate DR_CNT RPS_ILLEGAL, dc_chnlRate := 0,
            dn_chnls := replicate (MAX_DNCHNLS + 1) 0, min_freq := 0, max_freq := 0, txpow := 0, txpow2 := 0,
            txpow2_freq := [0, 0], region := 0, region_s := [], s_txq := txq_ini MAX_TXUNITS,
            s_rxq := rxq_ini \<lparr>rxjobs = replicate MAX_RXJOBS \<lparr>r_rctx = 0, r_xtime = 0, r_fts = 0, r_freq = 0, r_off = 0,
              r_rssi = 0, r_snr = 0, r_dr = 0, r_len = 0\<rparr>, rxdata = replicate MAX_RXDATA 0, rx_first = 0, rx_next = 0\<rparr>,
            muxtime := 0, reftime := 0,
            txunits := replicate MAX_TXUNITS \<lparr>dc_eu868bands = replicate DC_NUM_BANDS 0,
              dc_perChnl = replicate (MAX_DNCHNLS + 1) 0, txtimer = None\<rparr>,
            bcn := \<lparr>bcn_state = 0, bcn_ctrl = 0, bcn_layout = [0, 0, 0], bcn_freqs = replicate 8 0\<rparr>, bcntimer := None,
            joineuiFilter := filt\<rparr>
      in setDC USTIME_MIN s)"

section \<open>Air time\<close>

definition DC_EU868BAND_RATE :: "nat list" where
  "DC_EU868BAND_RATE = [10, 100, 1000]"

text \<open>\<open>_calcAirTime\<close>; \<open>None\<close> for a shift by more bits than the integer has.\<close>

definition calcAirTime :: "u1 \<Rightarrow> u1 \<Rightarrow> bool \<Rightarrow> u2 \<Rightarrow> ustime option" where
  "calcAirTime rps plen nocrc preamble =
     (let preamble = (if preamble = 0 then 8 else preamble); bw = rps_bw rps; sf = rps_sf rps in
      if rps = RPS_ILLEGAL then Some 0
      else if sf = FSK then Some (c_div (int (plen + 5 + 3 + 1 + 2) * 8 * rt_seconds 1) 50000)
      else
        let sf = to_u 8 (7 + (int sf - int SF7) * (int SF8 - int SF7));
            sfx = (4 * sf) mod 256;
            q = to_u 8 (int sfx - (if sf \<ge> 11 \<and> bw = 0 then 8 else 0));
            tmp = 8 * int plen - int sfx + 28 + (if nocrc then 0 else 16);
            tmp = (if tmp > 0 then c_div (tmp + int q - 1) (int q) * 5 + 8 else 8);
            tmp = tmp * 4 + 17 + 4 * int preamble;
            sfx = to_u 8 (int sf - (3 + 2) - int bw) in
        if sfx > 4 \<and> sfx - 4 \<ge> 32 then None
        else
          let divi = (if sfx > 4 then 15625 div 2 ^ (sfx - 4) else 15625); sfx = min sfx 4
          in Some (c_div (tmp * 2 ^ sfx * rt_seconds 1 + c_div divi 2) divi))"

definition s2e_calcDnAirTime :: "u1 \<Rightarrow> u1 \<Rightarrow> u1 \<Rightarrow> u2 \<Rightarrow> ustime option" where
  "s2e_calcDnAirTime rps plen addcrc preamble = calcAirTime rps plen (addcrc = 0) preamble"

definition s2e_calcUpAirTime :: "u1 \<Rightarrow> u1 \<Rightarrow> ustime option" where
  "s2e_calcUpAirTime rps plen = calcAirTime rps plen False 8"

section \<open>Messages about transmitted frames\<close>

definition kv :: "string \<Rightarrow> char \<Rightarrow> farg \<Rightarrow> farg list" where
  "kv key t v = [FStr (Some (bytes_of key)), FInt (int (of_char t)), v]"

definition kv_long :: "string \<Rightarrow> sL \<Rightarrow> farg list" where
  "kv_long key v = kv key (CHR ''I'') (FLong (to_u 64 v))"

definition dbuf_of :: "nat \<Rightarrow> dbuf" where
  "dbuf_of n = \<lparr>buf = replicate n 0, pos = 0\<rparr>"

definition encode_obj :: "nat \<Rightarrow> farg list \<Rightarrow> dbuf option" where
  "encode_obj n args = do {
     b \<leftarrow> uj_encOpen 123 (dbuf_of n);
     b \<leftarrow> uj_encKVn (args @ [FStr None]) b;
     Some (uj_encClose 125 b) }"

text \<open>The number of double precision seconds of a time in microseconds.\<close>

definition usec_double :: "ustime \<Rightarrow> rat" where
  "usec_double t = fl (fl (of_int t) / 1000000)"

definition dntxed_args :: "bytes \<Rightarrow> txjob \<Rightarrow> farg list" where
  "dntxed_args deveui_key j =
     kv ''msgtype'' (CHR ''s'') (FStr (Some (bytes_of ''dntxed''))) @
     kv_long ''seqno'' (j_diid j) @ kv_long ''diid'' (j_diid j) @
     kv ''DR'' (CHR ''i'') (FInt (int (j_dr j))) @ kv ''Freq'' (CHR ''u'') (FInt (to_s 32 (int (j_freq j)))) @
     [FStr (Some deveui_key), FInt 69, FLong (j_deveui j)] @
     kv ''rctx'' (CHR ''i'') (FInt (int (j_txunit j))) @ kv_long ''xtime'' (j_xtime j) @
     kv ''txtime'' (CHR ''T'') (FDbl (usec_double (j_txtime j))) @ kv_long ''gpstime'' (j_gpstime j)"

definition send_text :: "dbuf \<Rightarrow> s2ctx \<Rightarrow> s2ctx option" where
  "send_text b s = (if bufsize b < pos b then None else Some (s\<lparr>s_out := s_out s @ [SendText (take (pos b) (buf b))]\<rparr>))"

definition send_dntxed :: "s2io \<Rightarrow> txjob \<Rightarrow> s2ctx \<Rightarrow> s2ctx option" where
  "send_dntxed io j s =
     (if j_deveui j = 0 then Some s
      else (case io_sendbuf io (length (s_out s)) (MIN_UPJSON_SIZE div 2) of
          None \<Rightarrow> Some s
        | Some n \<Rightarrow> do { b \<leftarrow> encode_obj n (dntxed_args (rt_deveui s) j); send_text b s }))"

definition s2e_updateMuxtime :: "ustime \<Rightarrow> rat \<Rightarrow> ustime \<Rightarrow> s2ctx \<Rightarrow> ustime \<times> s2ctx" where
  "s2e_updateMuxtime clock muxstime now s =
     (let now = (if now = 0 then clock else now) in (now, s\<lparr>muxtime := muxstime, reftime := now\<rparr>))"

section \<open>Data rates and channels\<close>

definition s2e_dr2rps :: "s2ctx \<Rightarrow> u1 \<Rightarrow> u1" where
  "s2e_dr2rps s dr = (if dr < 16 then dr_defs s ! dr else RPS_ILLEGAL)"

fun find_dr :: "u1 \<Rightarrow> u1 list \<Rightarrow> nat \<Rightarrow> u1" where
  "find_dr rps [] dr = DR_ILLEGAL"
| "find_dr rps (d # ds) dr = (if d = rps then dr else find_dr rps ds (dr + 1))"

definition s2e_rps2dr :: "s2ctx \<Rightarrow> u1 \<Rightarrow> u1" where
  "s2e_rps2dr s rps = find_dr rps (take DR_CNT (dr_defs s)) 0"

text \<open>
  \<open>check_dnfreq\<close> on the number read: \<open>None\<close> for the decoding error, else the frequency and its channel.
\<close>

fun find_chnl :: "u4 \<Rightarrow> u4 list \<Rightarrow> nat \<Rightarrow> nat" where
  "find_chnl freq [] n = n"
| "find_chnl freq (c # cs) n = (if c = 0 \<or> freq = c then n else find_chnl freq cs (n + 1))"

definition check_dnfreq :: "sL \<Rightarrow> s2ctx \<Rightarrow> (u4 \<times> u1 \<times> s2ctx) option" where
  "check_dnfreq freq s =
     (if freq < int (min_freq s) \<or> freq > int (max_freq s) then None
      else
        let freq = nat freq; n = find_chnl freq (take MAX_DNCHNLS (dn_chnls s)) 0 in
        if n = MAX_DNCHNLS \<or> dn_chnls s ! n \<noteq> 0 then Some (freq, n, s)
        else Some (freq, n, s\<lparr>dn_chnls := (dn_chnls s)[n := freq]\<rparr>))"

definition check_dr :: "sL \<Rightarrow> s2ctx \<Rightarrow> u1 option" where
  "check_dr dr s = (if dr < 0 \<or> dr \<ge> int DR_CNT \<or> dr_defs s ! nat dr = RPS_ILLEGAL then None else Some (nat dr))"

section \<open>Duty cycle and power\<close>

definition freq2band :: "u4 \<Rightarrow> nat" where
  "freq2band freq =
     (if freq \<ge> 869400000 \<and> freq \<le> 869650000 then DC_DECI
      else if (freq \<ge> 868000000 \<and> freq \<le> 868600000) \<or> (freq \<ge> 869700000 \<and> freq \<le> 870000000) then DC_CENTI
      else DC_MILLI)"

text \<open>The names of regions are known by their hash, src/src/kwcrc.h.\<close>

definition J_AU915 :: u4 where "J_AU915 = 0xD8599E68"

text \<open>A blocked or disabled entry stays; the products are those of unsigned integers.\<close>

definition dc_booked :: "txjob \<Rightarrow> nat \<Rightarrow> ustime \<Rightarrow> ustime" where
  "dc_booked j rate t =
     (if t \<noteq> USTIME_MIN \<and> t \<noteq> USTIME_MAX then j_txtime j + int ((j_airtime j * rate) mod 2 ^ 32) else t)"

definition update_DC :: "txjob \<Rightarrow> s2ctx \<Rightarrow> s2ctx" where
  "update_DC j s =
     (let s = (if region s = J_AU915
               then let band = freq2band (j_freq j) in
                 upd_unit (j_txunit j) (\<lambda>u. u\<lparr>dc_eu868bands := (dc_eu868bands u)[band :=
                   dc_booked j (DC_EU868BAND_RATE ! band) (dc_eu868bands u ! band)]\<rparr>) s
               else s)
      in upd_unit (j_txunit j) (\<lambda>u. u\<lparr>dc_perChnl := (dc_perChnl u)[j_dnchnl j :=
           dc_booked j (dc_chnlRate s) (dc_perChnl u ! j_dnchnl j)]\<rparr>) s)"

definition calcTxpow :: "s2ctx \<Rightarrow> txjob \<Rightarrow> s2" where
  "calcTxpow s j = (if j_freq j \<le> txpow2_freq s ! 1 \<and> j_freq j \<ge> txpow2_freq s ! 0 then txpow2 s else txpow s)"

definition updateAirtimeTxpow :: "s2ctx \<Rightarrow> txjob \<Rightarrow> txjob option" where
  "updateAirtimeTxpow s j = do {
     air \<leftarrow> s2e_calcDnAirTime (s2e_dr2rps s (j_dr j)) (j_len j) (j_addcrc j) (j_preamble j);
     let j = j\<lparr>j_airtime := to_u 32 air\<rparr>;
     Some (j\<lparr>j_txpow := calcTxpow s j\<rparr>) }"

definition calcPriority :: "s2conf \<Rightarrow> txjob \<Rightarrow> int" where
  "calcPriority conf j =
     int (j_prio j)
     - (if j_rx2freq j \<noteq> 0 \<or> (has_flag TXFLAG_CLSC j \<and> j_retries j < CLASS_C_BACKOFF_MAX conf) then PRIO_PENALTY_ALTTXTIME else 0)
     - (if j_altAnts j \<noteq> 0 then PRIO_PENALTY_ALTANTENNA else 0)"

text \<open>The checks of channel access; a result other than 0 lets the job pass.\<close>

definition s2e_canTxEU868 :: "s2ctx \<Rightarrow> txjob \<Rightarrow> int" where
  "s2e_canTxEU868 s j = (if j_txtime j \<ge> dc_eu868bands (txunits s ! j_txunit j) ! freq2band (j_freq j) then 1 else 0)"

definition s2e_canTxPerChnlDC :: "s2ctx \<Rightarrow> txjob \<Rightarrow> int" where
  "s2e_canTxPerChnlDC s j = (if j_txtime j \<ge> dc_perChnl (txunits s ! j_txunit j) ! j_dnchnl j then 2 else 0)"

definition call_canTx :: "s2ctx \<Rightarrow> txjob \<Rightarrow> int" where
  "call_canTx s j = (case canTx s of CanTxOK \<Rightarrow> 1 | CanTxEU868 \<Rightarrow> s2e_canTxEU868 s j | CanTxPerChnlDC \<Rightarrow> s2e_canTxPerChnlDC s j)"

end
