(* ===== verification/S2eTx.thy ===== *)
theory S2eTx
  imports S2eBase
begin

text \<open>
  The transmission part of src/src/s2e.c: placing a job in the queue of a TX unit, with its alternatives
  in time and antenna, and the engine that takes the head of a queue through its states to the radio.
\<close>

definition RAL_TX_OK :: int where "RAL_TX_OK = 0"

section \<open>Alternative TX times\<close>

definition get_job :: "s2ctx \<Rightarrow> nat \<Rightarrow> txjob" where
  "get_job s i = txjobs (s_txq s) ! i"

definition set_job :: "nat \<Rightarrow> (txjob \<Rightarrow> txjob) \<Rightarrow> s2ctx \<Rightarrow> s2ctx" where
  "set_job i f s = s\<lparr>s_txq := upd_job i f (s_txq s)\<rparr>"

text \<open>The radio layers of the station have no alternative antennas, src/src/ral_lgw.c.\<close>

definition ral_altAntennas :: "u1 \<Rightarrow> u1" where
  "ral_altAntennas txunit = 0"

text \<open>Switching to RX2: the job takes over the second set of parameters.\<close>

definition use_rx2 :: "txjob \<Rightarrow> txjob" where
  "use_rx2 j = j\<lparr>j_freq := j_rx2freq j, j_dr := j_rx2dr j, j_dnchnl := j_dnchnl2 j, j_rx2freq := 0\<rparr>"

definition shift_job :: "ustime \<Rightarrow> txjob \<Rightarrow> txjob" where
  "shift_job d j = j\<lparr>j_txtime := j_txtime j + d, j_xtime := j_xtime j + d\<rparr>"

text \<open>
  One round from the label \<open>again\<close> for class C; the flag is false where the code returns 0. The whole
  loop is \<open>None\<close> where it would not end.
\<close>

definition clsC_rx2 :: "s2conf \<Rightarrow> s2ctx \<Rightarrow> ustime \<Rightarrow> txjob \<Rightarrow> (bool \<times> txjob) option" where
  "clsC_rx2 conf s earliest j =
     (if j_rx2freq j = 0 then Some (True, j)
      else
        let t = earliest - CLASS_C_BACKOFF_BY conf;
            j = use_rx2 (j\<lparr>j_txtime := t, j_xtime := ts_ustime2xtime (s_ts s) (j_txunit j) t, j_retries := 0\<rparr>)
        in map_option (\<lambda>j. (j_xtime j \<noteq> 0, j)) (updateAirtimeTxpow s j))"

partial_function (option) altTx_clsC :: "s2conf \<Rightarrow> s2ctx \<Rightarrow> ustime \<Rightarrow> txjob \<Rightarrow> (bool \<times> txjob) option" where
  "altTx_clsC conf s earliest j = do {
     (ok, j) \<leftarrow> clsC_rx2 conf s earliest j;
     if \<not> ok \<or> j_retries j > CLASS_C_BACKOFF_MAX conf then Some (False, j)
     else
       let j = shift_job (CLASS_C_BACKOFF_BY conf) (j\<lparr>j_retries := (j_retries j + 1) mod 256\<rparr>) in
       if j_txtime j < earliest then altTx_clsC conf s earliest j else Some (True, j) }"

definition altTxTime :: "s2conf \<Rightarrow> s2ctx \<Rightarrow> ustime \<Rightarrow> txjob \<Rightarrow> (bool \<times> txjob) option" where
  "altTxTime conf s earliest j =
     (if has_flag TXFLAG_CLSC j then altTx_clsC conf s earliest j
      else if has_flag TXFLAG_PING j then Some (False, j)
      else if j_rx2freq j = 0 then Some (False, j)
      else map_option (\<lambda>j. (j_txtime j \<ge> earliest, j)) (updateAirtimeTxpow s (shift_job (rt_seconds 1) (use_rx2 j))))"

section \<open>Placing a job\<close>

text \<open>The place for a time: the first link whose job starts later. A job outside the pool is an access outside.\<close>

partial_function (option) ins_find :: "txq \<Rightarrow> ustime \<Rightarrow> txlink \<Rightarrow> txlink option" where
  "ins_find q t pidx =
     (let idx = rd_idx q pidx in
      if idx = TXIDX_END then Some pidx
      else if \<not> idx < MAX_TXJOBS then None
      else if t < j_txtime (txjobs q ! idx) then Some pidx
      else ins_find q t (LNext idx))"

text \<open>The label \<open>check_alt\<close>: the next antenna or the next time; the flag is false when there is none.\<close>

definition lowest_bit :: "u1 \<Rightarrow> nat" where
  "lowest_bit alts = hd (filter (bit alts) [0..<8])"

definition add_check_alt :: "s2conf \<Rightarrow> ustime \<Rightarrow> nat \<Rightarrow> s2ctx \<Rightarrow> (bool \<times> s2ctx) option" where
  "add_check_alt conf earliest i s =
     (let j = get_job s i in
      if j_altAnts j = 0 then do {
        (ok, j) \<leftarrow> altTxTime conf s earliest j;
        if \<not> ok then Some (False, set_job i (\<lambda>_. j) s)
        else
          let u = ral_rctx2txunit (j_rctx j)
          in Some (True, set_job i (\<lambda>_. j\<lparr>j_txunit := u, j_altAnts := ral_altAntennas u\<rparr>) s) }
      else
        let u = lowest_bit (j_altAnts j)
        in Some (True, set_job i (\<lambda>_. j\<lparr>j_txunit := u, j_altAnts := unset_bit u (j_altAnts j)\<rparr>) s))"

text \<open>The label \<open>start\<close>: \<open>None\<close> inside stands for going to \<open>check_alt\<close>. \<open>clock\<close> is the time for the timer.\<close>

definition add_start :: "s2conf \<Rightarrow> ustime \<Rightarrow> nat \<Rightarrow> s2ctx \<Rightarrow> s2ctx option option" where
  "add_start conf clock i s =
     (let j = get_job s i; u = j_txunit j; q = s_txq s; idx = rd_idx q (LHead u); cur = get_job s idx in
      if \<not> u < MAX_TXUNITS then None
      else if dcDisabled s = 0 \<and> call_canTx s j = 0 then Some None
      else if idx \<noteq> TXIDX_END \<and> \<not> idx < MAX_TXJOBS then None
      else if idx \<noteq> TXIDX_END \<and> has_flag TXFLAG_TXING cur \<and>
              j_txtime j < j_txtime cur + int (j_airtime cur) + TX_MIN_GAP conf then Some None
      else do {
        pidx \<leftarrow> ins_find q (j_txtime j) (LHead u);
        q \<leftarrow> txq_insJob pidx i q;
        let s = s\<lparr>s_txq := q\<rparr>;
        Some (Some (if pidx = LHead u then upd_unit u (txtimer_update (\<lambda>_. Some clock)) s else s)) })"

partial_function (option) add_loop :: "s2conf \<Rightarrow> ustime \<Rightarrow> ustime \<Rightarrow> bool \<Rightarrow> nat \<Rightarrow> s2ctx \<Rightarrow> (bool \<times> s2ctx) option" where
  "add_loop conf clock earliest alt i s = do {
     (ok, s) \<leftarrow> (if alt then add_check_alt conf earliest i s else Some (True, s));
     if \<not> ok then Some (False, s)
     else do {
       r \<leftarrow> add_start conf clock i s;
       (case r of None \<Rightarrow> add_loop conf clock earliest True i s | Some s \<Rightarrow> Some (True, s)) } }"

definition s2e_addTxjob :: "s2conf \<Rightarrow> ustime \<Rightarrow> nat \<Rightarrow> bool \<Rightarrow> ustime \<Rightarrow> s2ctx \<Rightarrow> (bool \<times> s2ctx) option" where
  "s2e_addTxjob conf clock i relocate now s =
     (let earliest = now + TX_AIM_GAP conf in
      if relocate then add_loop conf clock earliest True i s
      else do {
        let j = get_job s i;
        let txtime = j_txtime j;
        let u = ral_rctx2txunit (j_rctx j);
        j \<leftarrow> updateAirtimeTxpow s (j\<lparr>j_txunit := u, j_altAnts := ral_altAntennas u\<rparr>);
        let s = set_job i (\<lambda>_. j) s;
        if txtime > now + TX_MAX_AHEAD conf then Some (False, s)
        else if txtime < earliest then do {
          (ok, j) \<leftarrow> altTxTime conf s earliest j;
          let s = set_job i (\<lambda>_. j) s;
          if \<not> ok then Some (False, s) else add_loop conf clock earliest False i s }
        else add_loop conf clock earliest False i s })"

section \<open>The engine of a TX unit\<close>

text \<open>Does a later job that overlaps have a higher priority?\<close>

partial_function (option) hindered :: "s2conf \<Rightarrow> txq \<Rightarrow> ustime \<Rightarrow> int \<Rightarrow> nat \<Rightarrow> bool option" where
  "hindered conf q txend prio i =
     (case txq_idx2job (j_next (txjobs q ! i)) of
        None \<Rightarrow> Some False
      | Some n \<Rightarrow>
        if \<not> n < MAX_TXJOBS then None
        else if txend < j_txtime (txjobs q ! n) - TX_MIN_GAP conf then Some False
        else if prio < calcPriority conf (txjobs q ! n) then Some True
        else hindered conf q txend prio n)"

definition relocate_or_free :: "s2conf \<Rightarrow> ustime \<Rightarrow> ustime \<Rightarrow> nat \<Rightarrow> s2ctx \<Rightarrow> s2ctx option" where
  "relocate_or_free conf clock now i s = do {
     (ok, s) \<leftarrow> s2e_addTxjob conf clock i True now s;
     if ok then Some s else map_option (\<lambda>q. s\<lparr>s_txq := q\<rparr>) (txq_freeJob i (s_txq s)) }"

definition unq :: "txlink \<Rightarrow> s2ctx \<Rightarrow> s2ctx option" where
  "unq l s = map_option (\<lambda>(_, q). s\<lparr>s_txq := q\<rparr>) (txq_unqJob l (s_txq s))"

text \<open>The jobs that overlap the one handed to the radio leave the queue and are placed anew or dropped.\<close>

partial_function (option) displace :: "s2conf \<Rightarrow> ustime \<Rightarrow> ustime \<Rightarrow> ustime \<Rightarrow> nat \<Rightarrow> s2ctx \<Rightarrow> s2ctx option" where
  "displace conf clock now txend i s =
     (case txq_idx2job (j_next (get_job s i)) of
        None \<Rightarrow> Some s
      | Some n \<Rightarrow>
        if \<not> n < MAX_TXJOBS then None
        else if txend < j_txtime (get_job s n) - TX_MIN_GAP conf then Some s
        else do {
          s \<leftarrow> unq (LNext i) s;
          s \<leftarrow> relocate_or_free conf clock now n s;
          displace conf clock now txend i s })"

text \<open>The head job is over or on the air: it is booked, and reported to the server, once.\<close>

definition tx_checked :: "s2io \<Rightarrow> nat \<Rightarrow> s2ctx \<Rightarrow> s2ctx option" where
  "tx_checked io i s =
     (let s = set_job i (set_flag TXFLAG_TXCHECKED) (update_DC (get_job s i) s)
      in send_dntxed io (get_job s i) s)"

text \<open>
  One round from the label \<open>again\<close>: the time of the next action, or \<open>None\<close> inside for one more round. \<open>now\<close> is
  the clock at the start of the call.
\<close>

definition next_check_alt :: "s2conf \<Rightarrow> ustime \<Rightarrow> ustime \<Rightarrow> nat \<Rightarrow> nat \<Rightarrow> s2ctx \<Rightarrow> (ustime option \<times> s2ctx) option" where
  "next_check_alt conf clock now u i s = do {
     s \<leftarrow> unq (LHead u) s;
     s \<leftarrow> relocate_or_free conf clock now i s;
     Some (None, s) }"

text \<open>A head job that the radio has.\<close>

definition next_txing :: "s2conf \<Rightarrow> s2io \<Rightarrow> ustime \<Rightarrow> ustime \<Rightarrow> nat \<Rightarrow> nat \<Rightarrow> s2ctx \<Rightarrow> (ustime option \<times> s2ctx) option" where
  "next_txing conf io clock now u i s =
     (let j = get_job s i; txend = j_txtime j + int (j_airtime j) in
      if now \<ge> txend then do {
        s \<leftarrow> (if has_flag TXFLAG_TXCHECKED j then Some s else tx_checked io i s);
        s \<leftarrow> unq (LHead u) s;
        q \<leftarrow> txq_freeJob i (s_txq s);
        Some (None, s\<lparr>s_txq := q\<rparr>) }
      else if has_flag TXFLAG_TXCHECKED j then Some (Some txend, s)
      else if j_txtime j - now > - TXCHECK_FUDGE conf then Some (Some (j_txtime j + TXCHECK_FUDGE conf), s)
      else if io_ral_txstatus io (length (s_out s)) \<noteq> TXSTATUS_EMITTING then
        next_check_alt conf clock now u i (set_job i (clr_flag TXFLAG_TXING) (s\<lparr>s_out := s_out s @ [RadioAbort u]\<rparr>))
      else map_option (\<lambda>s. (Some txend, s)) (tx_checked io i s))"

text \<open>The exact time from the latest time sync.\<close>

definition exact_time :: "s2conf \<Rightarrow> nat \<Rightarrow> s2ctx \<Rightarrow> txjob \<Rightarrow> txjob option" where
  "exact_time conf u s j =
     (if j_gpstime j \<noteq> 0 then do {
        x \<leftarrow> ts_gpstime2xtime conf (s_ts s) u (j_gpstime j);
        t \<leftarrow> ts_xtime2ustime (s_ts s) x;
        Some (j\<lparr>j_xtime := x, j_txtime := t\<rparr>) }
      else if ral_xtime2txunit (j_xtime j) \<noteq> u then
        map_option (\<lambda>x. j\<lparr>j_xtime := x\<rparr>) (ts_xtime2xtime (s_ts s) (j_xtime j) u)
      else Some j)"

definition next_head :: "s2conf \<Rightarrow> s2io \<Rightarrow> ustime \<Rightarrow> ustime \<Rightarrow> nat \<Rightarrow> nat \<Rightarrow> s2ctx \<Rightarrow> (ustime option \<times> s2ctx) option" where
  "next_head conf io clock now u i s = do {
     j \<leftarrow> exact_time conf u s (get_job s i);
     let s = set_job i (\<lambda>_. j) s;
     if j_xtime j = 0 \<or> (dcDisabled s = 0 \<and> call_canTx s j = 0) then next_check_alt conf clock now u i s
     else do {
       let txend = j_txtime j + int (j_airtime j);
       h \<leftarrow> hindered conf (s_txq s) txend (calcPriority conf j) i;
       if h then next_check_alt conf clock now u i s
       else
         let txerr = io_ral_tx io (length (s_out s)); s = s\<lparr>s_out := s_out s @ [RadioTx u j (ccaDisabled s)]\<rparr> in
         if txerr \<noteq> RAL_TX_OK then next_check_alt conf clock now u i s
         else map_option (\<lambda>s. (Some (j_txtime j + TXCHECK_FUDGE conf), s))
                (displace conf clock now txend i (set_job i (set_flag TXFLAG_TXING) s)) } }"

definition next_step :: "s2conf \<Rightarrow> s2io \<Rightarrow> ustime \<Rightarrow> ustime \<Rightarrow> nat \<Rightarrow> s2ctx \<Rightarrow> (ustime option \<times> s2ctx) option" where
  "next_step conf io clock now u s =
     (let i = rd_idx (s_txq s) (LHead u); j = get_job s i; txdelta = j_txtime j - now in
      if \<not> u < MAX_TXUNITS then None
      else if i = TXIDX_END then Some (Some USTIME_MAX, s)
      else if \<not> i < MAX_TXJOBS then None
      else if has_flag TXFLAG_TXING j then next_txing conf io clock now u i s
      else if txdelta < TX_MIN_GAP conf then next_check_alt conf clock now u i s
      else if txdelta > TX_AIM_GAP conf then Some (Some (j_txtime j - TX_AIM_GAP conf), s)
      else next_head conf io clock now u i s)"

partial_function (option) s2e_nextTxAction :: "s2conf \<Rightarrow> s2io \<Rightarrow> ustime \<Rightarrow> ustime \<Rightarrow> nat \<Rightarrow> s2ctx \<Rightarrow> (ustime \<times> s2ctx) option" where
  "s2e_nextTxAction conf io clock now u s = do {
     (r, s) \<leftarrow> next_step conf io clock now u s;
     (case r of Some t \<Rightarrow> Some (t, s) | None \<Rightarrow> s2e_nextTxAction conf io clock now u s) }"

definition s2e_txtimeout :: "s2conf \<Rightarrow> s2io \<Rightarrow> ustime \<Rightarrow> ustime \<Rightarrow> nat \<Rightarrow> s2ctx \<Rightarrow> s2ctx option" where
  "s2e_txtimeout conf io clock now u s = do {
     (t, s) \<leftarrow> s2e_nextTxAction conf io clock now u s;
     Some (if t = USTIME_MAX then s else upd_unit u (txtimer_update (\<lambda>_. Some t)) s) }"

end
