(* ===== verification/AirTime.thy ===== *)
theory AirTime
  imports S2eBase
begin

text \<open>
  The air time of src/src/s2e.c against the formula of the LoRa modem, and the duty cycle that it is booked into. \<open>lora_time\<close> is the formula in exact
  arithmetic, in microseconds.
\<close>

definition bw_hz :: "nat \<Rightarrow> rat" where
  "bw_hz b = 125000 * 2 ^ b"

definition lora_symbols :: "nat \<Rightarrow> bool \<Rightarrow> nat \<Rightarrow> bool \<Rightarrow> int" where
  "lora_symbols sf lowdr plen crc =
     8 + max 0 (\<lceil>(8 * of_nat plen - 4 * of_nat sf + 28 + (if crc then 16 else 0)) /
       (4 * (of_nat sf - (if lowdr then 2 else 0))) :: rat\<rceil> * 5)"

definition lora_time :: "nat \<Rightarrow> nat \<Rightarrow> nat \<Rightarrow> bool \<Rightarrow> nat \<Rightarrow> rat" where
  "lora_time sf b plen crc preamble =
     (of_nat preamble + 17 / 4 + of_int (lora_symbols sf (sf \<ge> 11 \<and> b = 0) plen crc)) * 2 ^ sf / bw_hz b * 1000000"

lemma ceil_c_div:
  assumes "0 < x" and "0 < q"
  shows "c_div (x + q - 1) q = \<lceil>of_int x / of_int q :: rat\<rceil>"
proof -
  define z where "z = (x + q - 1) div q"
  have "z * q + (x + q - 1) mod q = x + q - 1" "0 \<le> (x + q - 1) mod q" "(x + q - 1) mod q < q"
    using assms(2) by (simp_all add: z_def)
  then have "(z - 1) * q < x" "x \<le> z * q" by (simp_all add: algebra_simps)
  then have "of_int ((z - 1) * q) < (of_int x :: rat)" "(of_int x :: rat) \<le> of_int (z * q)"
    by (simp_all only: of_int_less_iff of_int_le_iff)
  then have "\<lceil>of_int x / of_int q :: rat\<rceil> = z"
    using assms(2) by (intro ceiling_unique) (simp_all add: field_simps)
  then show ?thesis using assms by (simp add: c_div_nonneg z_def)
qed

lemma lora_symbols_int:
  assumes "q = 4 * int sf - (if lowdr then 8 else 0)" and "0 < q"
    and "x = 8 * int plen - 4 * int sf + 28 + (if crc then 16 else 0)"
  shows "lora_symbols sf lowdr plen crc = (if x > 0 then c_div (x + q - 1) q * 5 + 8 else 8)"
proof -
  have x: "of_int x = (8 * of_nat plen - 4 * of_nat sf + 28 + (if crc then 16 else 0) :: rat)"
    by (simp add: assms(3))
  have q: "of_int q = (4 * (of_nat sf - (if lowdr then 2 else 0)) :: rat)" by (simp add: assms(1))
  have sym: "lora_symbols sf lowdr plen crc = 8 + max 0 (\<lceil>of_int x / of_int q :: rat\<rceil> * 5)"
    unfolding lora_symbols_def x q ..
  show ?thesis
  proof (cases "x > 0")
    case True
    moreover have "0 \<le> c_div (x + q - 1) q" using True assms(2) by (simp add: c_div_nonneg pos_imp_zdiv_nonneg_iff)
    ultimately show ?thesis using assms(2) by (simp add: sym ceil_c_div [symmetric])
  next
    case False
    then have "(of_int x / of_int q :: rat) \<le> 0" using assms(2) by (simp add: divide_nonpos_pos)
    then have "\<lceil>of_int x / of_int q :: rat\<rceil> \<le> 0" by (simp add: ceiling_le_iff)
    then show ?thesis using False by (simp add: sym)
  qed
qed

lemma rounded_quotient:
  assumes "0 \<le> n" and "0 < d"
  shows "\<bar>of_int (c_div (n + c_div d 2) d) - of_int n / of_int d :: rat\<bar> \<le> 1 / 2"
proof -
  define h where "h = d div 2"
  define z where "z = (n + h) div d"
  have c: "c_div (n + c_div d 2) d = z"
    using assms by (simp add: c_div_nonneg z_def h_def)
  have "z * d + (n + h) mod d = n + h" "0 \<le> (n + h) mod d" "(n + h) mod d < d"
    using assms(2) by (simp_all add: z_def)
  moreover have "2 * h \<le> d" "d \<le> 2 * h + 1" by (simp_all add: h_def)
  ultimately have "2 * (z * d) \<le> 2 * n + d" "2 * n - d \<le> 2 * (z * d)" by linarith+
  then have "of_int (2 * (z * d)) \<le> (of_int (2 * n + d) :: rat)" "(of_int (2 * n - d) :: rat) \<le> of_int (2 * (z * d))"
    by (simp_all only: of_int_le_iff)
  then show ?thesis using assms(2) unfolding c abs_le_iff by (simp add: field_simps)
qed



text \<open>
  The data rate that stands for FSK has the low bits of SF12 and a bandwidth of 250 kHz, and gets the air time of such a frame; for SF5
  at more than 125 kHz the shift has 251 bits.
\<close>

lemma calcAirTime_fsk: "calcAirTime RPS_FSK plen nocrc preamble = calcAirTime (rps_make (int SF12) (int BW250)) plen nocrc preamble"
  by (simp add: RPS_FSK_def FSK_def rps_make_def SF12_def BW250_def)

lemma calcAirTime_sf5: "calcAirTime (rps_make (int SF5) (int BW250)) plen nocrc preamble = None"
proof -
  have "to_u 8 (int (to_u 8 (7 + (int SF5 - int SF7) * (int SF8 - int SF7))) - (3 + 2) - int BW250) = 255"
    by (simp add: SF5_def SF7_def SF8_def BW250_def to_u_def)
  moreover have "rps_sf (rps_make (int SF5) (int BW250)) = SF5" "rps_bw (rps_make (int SF5) (int BW250)) = BW250"
    "rps_make (int SF5) (int BW250) \<noteq> RPS_ILLEGAL" "SF5 \<noteq> FSK"
    by (simp_all add: rps_sf_def rps_bw_def rps_make_def SF5_def BW250_def RPS_ILLEGAL_def FSK_def)
  ultimately show ?thesis by (simp add: calcAirTime_def Let_def)
qed

section \<open>Duty cycle\<close>

lemma upd_unit_at:
  "u < length (txunits s) \<Longrightarrow> v < length (txunits s) \<Longrightarrow> txunits (upd_unit u f s) ! v = (if v = u then f (txunits s ! u) else txunits s ! v)"
  by (simp add: upd_unit_def)

lemma upd_unit_length [simp]: "length (txunits (upd_unit u f s)) = length (txunits s)"
  by (simp add: upd_unit_def)

text \<open>C17: The duty cycle of a channel is kept: once a frame has been booked, the check of the channel lets exactly those jobs pass whose
  time is at least the start of the frame plus its air time times the channel's rate, as long as this
  product fits 32 bits; the other channels of the unit see nothing of it.\<close>

theorem dc_channel_kept:
  assumes "j_txunit j < length (txunits s)" and "j_dnchnl j < length (dc_perChnl (txunits s ! j_txunit j))"
    and "dc_perChnl (txunits s ! j_txunit j) ! j_dnchnl j \<notin> {USTIME_MIN, USTIME_MAX}"
    and "j_airtime j * dc_chnlRate s < 2 ^ 32" and "j_txunit j' = j_txunit j"
  shows "s2e_canTxPerChnlDC (update_DC j s) j' =
    (if j_dnchnl j' = j_dnchnl j then (if j_txtime j + int (j_airtime j * dc_chnlRate s) \<le> j_txtime j' then 2 else 0)
     else s2e_canTxPerChnlDC s j')"
proof -
  let ?s1 = "if region s = J_AU915
    then upd_unit (j_txunit j) (\<lambda>u. u\<lparr>dc_eu868bands := (dc_eu868bands u)[freq2band (j_freq j) :=
           dc_booked j (DC_EU868BAND_RATE ! freq2band (j_freq j)) (dc_eu868bands u ! freq2band (j_freq j))]\<rparr>) s
    else s"
  have s1: "dc_perChnl (txunits ?s1 ! j_txunit j) = dc_perChnl (txunits s ! j_txunit j)"
    "dc_chnlRate ?s1 = dc_chnlRate s" "length (txunits ?s1) = length (txunits s)"
    using assms(1) by (simp_all add: upd_unit_at) (simp add: upd_unit_def)
  have "dc_perChnl (txunits (update_DC j s) ! j_txunit j) = (dc_perChnl (txunits s ! j_txunit j))[j_dnchnl j :=
      j_txtime j + int (j_airtime j * dc_chnlRate s)]"
    unfolding update_DC_def Let_def using assms(1-4) s1 by (simp add: upd_unit_at dc_booked_def)
  then show ?thesis using assms(2,5) by (simp add: s2e_canTxPerChnlDC_def nth_list_update)
qed

definition J_EU868 :: u4 where "J_EU868 = 0xE0529B63"


text \<open>A context without any state, for examples.\<close>

definition s2ctx_example :: s2ctx where
  "s2ctx_example = s2e_ini 10 \<lparr>canTx = CanTxOK, ccaEnabled = 0, dr_defs = [], dc_chnlRate = 0, dn_chnls = [], min_freq = 0,
     max_freq = 0, txpow = 0, txpow2 = 0, txpow2_freq = [], region = 0, region_s = [], s_txq = txq_ini 4,
     s_rxq = \<lparr>rxjobs = [], rxdata = [], rx_first = 0, rx_next = 0\<rparr>, muxtime = 0, reftime = 0, txunits = [],
     bcn = \<lparr>bcn_state = 0, bcn_ctrl = 0, bcn_layout = [], bcn_freqs = []\<rparr>, bcntimer = None, dcDisabled = 0, ccaDisabled = 0,
     dwellDisabled = 0, joineuiFilter = [], netidFilter = [], rt_deveui = bytes_of ''DevEui'', rt_joineui = bytes_of ''JoinEui'',
     s_ts = sync_example, s_out = []\<rparr>"


lemma dc_channel_kept_witness:
  "s2e_canTxPerChnlDC (update_DC (zero_txjob\<lparr>j_airtime := 50000, j_txtime := 1000\<rparr>) (resetDC 7 50 s2ctx_example))
     (zero_txjob\<lparr>j_txtime := 2500999\<rparr>) = 0"
  using dc_channel_kept [of "zero_txjob\<lparr>j_airtime := 50000, j_txtime := 1000\<rparr>" "resetDC 7 50 s2ctx_example" "zero_txjob\<lparr>j_txtime := 2500999\<rparr>"]
  by (simp add: resetDC_def setDC_def s2ctx_example_def s2e_ini_def Let_def MAX_TXUNITS_def zero_txjob_def s2e_consts nth_append)

text \<open>The products have 32 bits: a frame of 4.3 s in a band with 0.1 % is booked for 5 ms instead of 72 minutes.\<close>

lemma dc_booked_overflow: "dc_booked (zero_txjob\<lparr>j_airtime := 4294973\<rparr>) 1000 7 = 5704"
  by (simp add: dc_booked_def zero_txjob_def s2e_consts)

end
