(* ===== verification/S2ePlace.thy ===== *)
theory S2ePlace
  imports S2eTx AirTime
begin

text \<open>
  Placing a job always ends, and puts it where its time belongs: the lists of the queues are those of the
  theory Txq, and the place of the job is that of the sorted insertion \<open>ins_by\<close> of the prelude.
\<close>

section \<open>The place in the queue\<close>

definition q_key :: "txq \<Rightarrow> nat \<Rightarrow> int" where
  "q_key q i = j_txtime (txjobs q ! i)"

lemma ins_by_takeWhile:
  "ins_by k x ys = takeWhile (\<lambda>y. k y \<le> k x) ys @ x # dropWhile (\<lambda>y. k y \<le> k x) ys"
  by (induction ys) (auto simp: not_le)

lemma ins_find_at:
  assumes "links_ok q ls" and "k < length ls" and "ls ! k = us @ ys"
  shows "ins_find q t (link_at k us) = Some (link_at k (us @ takeWhile (\<lambda>y. q_key q y \<le> t) ys))"
  using assms(3)
proof (induction ys arbitrary: us)
  case Nil
  have "rd_idx q (link_at k us) = TXIDX_END" using rd_link_at [OF assms(1,2) Nil] by simp
  then show ?case by (subst ins_find.simps) simp
next
  case (Cons y ys)
  have rd: "rd_idx q (link_at k us) = y" using rd_link_at [OF assms(1,2) Cons.prems] by simp
  have y: "y < MAX_TXJOBS" "y \<noteq> TXIDX_END" using links_index [OF assms(1,2), of y] Cons.prems by (auto simp: tx_consts)
  show ?case
  proof (cases "q_key q y \<le> t")
    case True
    have "link_at k (us @ [y]) = LNext y" by (simp add: link_at_def)
    then show ?thesis using Cons.IH [of "us @ [y]"] Cons.prems True rd y by (subst ins_find.simps) (simp add: q_key_def)
  next
    case False
    then show ?thesis using rd y by (subst ins_find.simps) (simp add: q_key_def)
  qed
qed

lemma link_at_head: "link_at (Suc u) [] = LHead u"
  by (simp add: link_at_def head_link_def)

text \<open>Insertion by time, under the invariant of the queues.\<close>

lemma ins_sorted:
  assumes ok: "txq_ok q ls bs" and u: "u < length (heads q)" and i: "i < MAX_TXJOBS" "nxt q i = TXIDX_NIL"
  shows "\<exists>p q'. ins_find q (q_key q i) (LHead u) = Some p \<and> txq_insJob p i q = Some q' \<and> next_only q q' \<and>
    txq_ok q' (ls[Suc u := ins_by (q_key q) i (ls ! Suc u)]) bs \<and> (p = LHead u \<longleftrightarrow> takeWhile (\<lambda>y. q_key q y \<le> q_key q i) (ls ! Suc u) = [])"
proof -
  let ?t = "q_key q i" and ?P = "\<lambda>y. q_key q y \<le> q_key q i"
  have k: "Suc u < length ls" and l: "links_ok q ls" using txq_ok_ls [OF ok] u ok by (auto simp: txq_ok_def)
  have f: "ins_find q ?t (LHead u) = Some (link_at (Suc u) (takeWhile ?P (ls ! Suc u)))"
    using ins_find_at [OF l k, of "[]" "ls ! Suc u" ?t] by (simp add: link_at_head)
  obtain q' where q': "txq_insJob (link_at (Suc u) (takeWhile ?P (ls ! Suc u))) i q = Some q'"
    "txq_ok q' (ls[Suc u := takeWhile ?P (ls ! Suc u) @ i # dropWhile ?P (ls ! Suc u)]) bs" "next_only q q'"
    using txq_insJob_ok [OF ok k _ i, of "takeWhile ?P (ls ! Suc u)" "dropWhile ?P (ls ! Suc u)"] by auto
  have "link_at (Suc u) us = LHead u \<longleftrightarrow> us = []" for us by (auto simp: link_at_def head_link_def)
  then show ?thesis using f q' by (auto simp: ins_by_takeWhile)
qed

text \<open>A change of a job that keeps its link and its frame keeps the queues.\<close>

definition same_frame :: "txjob \<Rightarrow> txjob \<Rightarrow> bool" where
  "same_frame j j' \<longleftrightarrow> j_next j' = j_next j \<and> j_off j' = j_off j \<and> j_len j' = j_len j"

lemma upd_job_ok:
  assumes ok: "txq_ok q ls bs" and i: "i < MAX_TXJOBS" and f: "same_frame (txjobs q ! i) (f (txjobs q ! i))"
  shows "txq_ok (upd_job i f q) ls bs"
proof -
  let ?q = "upd_job i f q"
  have l: "links_ok q ls" "data_ok q bs" "length (txjobs q) = MAX_TXJOBS" using ok by (auto simp: txq_ok_def data_ok_def)
  have at: "same_frame (txjobs q ! k) (txjobs ?q ! k)" for k
    using f i l(3) by (cases "k = i") (auto simp: upd_job_def same_frame_def)
  have "links_ok ?q ls" by (rule links_ok_cong [OF l(1)]) (use at in \<open>simp_all add: nxt_def same_frame_def\<close>)
  moreover have "has_frame ?q = has_frame q" using at by (intro ext) (simp add: has_frame_def same_frame_def)
  then have "data_ok ?q bs"
    using l(2) at tiled_cong [of "txjobs q" "txdataInUse q" 0 bs "txjobs ?q"] by (simp add: data_ok_def same_frame_def)
  ultimately show ?thesis using ok at by (simp add: txq_ok_def same_frame_def)
qed

text \<open>The queue of a TX unit is an ordered queue: \<open>put\<close> gives a free job its time and inserts it, \<open>pop\<close> is \<open>txq_unqJob\<close> at the head.\<close>

definition uq_rep :: "nat \<Rightarrow> txq \<Rightarrow> nat list \<Rightarrow> bool" where
  "uq_rep u q xs \<longleftrightarrow> u < length (heads q) \<and> (\<exists>ls bs. txq_ok q ls bs \<and> ls ! Suc u = xs)"

definition uq_fresh :: "txq \<Rightarrow> nat \<Rightarrow> bool" where
  "uq_fresh q i \<longleftrightarrow> i < MAX_TXJOBS \<and> nxt q i = TXIDX_NIL"

definition uq_put :: "nat \<Rightarrow> txq \<Rightarrow> nat \<Rightarrow> int \<Rightarrow> txq option" where
  "uq_put u q i d = (let q = upd_job i (j_txtime_update (\<lambda>_. d)) q in ins_find q d (LHead u) \<bind> (\<lambda>p. txq_insJob p i q))"

definition uq_pop :: "nat \<Rightarrow> txq \<Rightarrow> (nat \<times> txq) option" where
  "uq_pop u q = (case txq_unqJob (LHead u) q of Some (Some i, q') \<Rightarrow> Some (i, q') | _ \<Rightarrow> None)"

lemma next_only_job: "next_only q q' \<Longrightarrow> txjobs q' ! i = (txjobs q ! i)\<lparr>j_next := nxt q' i\<rparr>"
  by (simp add: next_only_def)

lemma next_only_key:
  assumes "next_only q q'"
  shows "q_key q' = q_key q"
proof
  fix i
  show "q_key q' i = q_key q i" unfolding q_key_def by (subst next_only_job [OF assms]) simp
qed

lemma next_only_heads: "txq_ok q' ls' bs' \<Longrightarrow> txq_ok q ls bs \<Longrightarrow> length ls' = length ls \<Longrightarrow> length (heads q') = length (heads q)"
  using txq_ok_ls by fastforce

interpretation uq: ordered_queue "uq_rep u" q_key uq_fresh "uq_put u" "uq_pop u" for u
proof (unfold_locales, goal_cases)
  case (1 s xs x d)
  obtain ls bs where u: "u < length (heads s)" and ok: "txq_ok s ls bs" "ls ! Suc u = xs" using 1(1) by (auto simp: uq_rep_def)
  have x: "x < MAX_TXJOBS" "nxt s x = TXIDX_NIL" using 1(2) by (simp_all add: uq_fresh_def)
  have k: "Suc u < length ls" using txq_ok_ls [OF ok(1)] u by simp
  have out: "x \<notin> set xs" using queued_next(1) [of s ls "Suc u" x] ok k x(2) by (auto simp: txq_ok_def)
  let ?q = "upd_job x (j_txtime_update (\<lambda>_. d)) s"
  have len: "length (txjobs s) = MAX_TXJOBS" using ok(1) by (simp add: txq_ok_def data_ok_def)
  have q: "txq_ok ?q ls bs" by (rule upd_job_ok [OF ok(1) x(1)]) (simp add: same_frame_def)
  have key: "q_key ?q = (q_key s)(x := d)" using x(1) len by (intro ext) (simp add: q_key_def upd_job_def)
  have nx: "nxt ?q x = TXIDX_NIL" using x len by (simp add: nxt_def upd_job_def)
  obtain p q' where p: "ins_find ?q d (LHead u) = Some p" "txq_insJob p x ?q = Some q'" "next_only ?q q'"
    "txq_ok q' (ls[Suc u := ins_by (q_key ?q) x xs]) bs"
    using ins_sorted [OF q _ x(1) nx, of u] u key ok(2) by auto
  have "uq_put u s x d = Some q'" using p(1,2) by (simp add: uq_put_def Let_def)
  moreover have "q_key q' = (q_key s)(x := d)" using next_only_key [OF p(3)] key by simp
  moreover have "uq_rep u q' (ins_by (q_key q') x xs)"
    using p(4) next_only_key [OF p(3)] k u next_only_heads [OF p(4) q] by (auto simp: uq_rep_def intro!: exI)
  ultimately show ?case using out by blast
next
  case (2 s x xs)
  obtain ls bs where u: "u < length (heads s)" and ok: "txq_ok s ls bs" "ls ! Suc u = x # xs" using 2 by (auto simp: uq_rep_def)
  have k: "Suc u < length ls" using txq_ok_ls [OF ok(1)] u by simp
  obtain q' where q': "txq_unqJob (LHead u) s = Some (Some x, q')" "txq_ok q' (ls[Suc u := xs]) bs" "nxt q' x = TXIDX_NIL" "next_only s q'"
    using txq_unqJob_ok [OF ok(1) k, of "[]" x xs] ok(2) by (auto simp: link_at_head)
  have "x < MAX_TXJOBS" using links_index [of s ls "Suc u" x] ok k by (auto simp: txq_ok_def)
  then show ?case
    using q' next_only_key [OF q'(4)] next_only_heads [OF q'(2) ok(1)] u k
    by (auto simp: uq_pop_def uq_rep_def uq_fresh_def intro!: exI)
qed

section \<open>Alternatives run out\<close>

text \<open>Data rates for which an air time is defined: those of LoRa from SF7 to SF12, and the illegal one.\<close>

definition rates_ok :: "s2ctx \<Rightarrow> bool" where
  "rates_ok s \<longleftrightarrow> length (dr_defs s) = DR_CNT \<and> (\<forall>r \<in> set (dr_defs s). r = RPS_ILLEGAL \<or> (rps_sf r \<le> 5 \<and> rps_bw r \<le> 2))"

lemma calcAirTime_defined:
  assumes "r = RPS_ILLEGAL \<or> (rps_sf r \<le> 5 \<and> rps_bw r \<le> 2)"
  shows "calcAirTime r plen nocrc pre \<noteq> None"
proof (cases "r = RPS_ILLEGAL")
  case False
  then have sf: "rps_sf r \<le> 5" and bw: "rps_bw r \<le> 2" using assms by auto
  have a: "to_u 8 (7 + (int (rps_sf r) - int SF7) * (int SF8 - int SF7)) = 12 - rps_sf r"
    using sf by (simp add: SF7_def SF8_def to_u_def)
  have b: "to_u 8 (int (12 - rps_sf r) - (3 + 2) - int (rps_bw r)) = 7 - rps_sf r - rps_bw r"
    using sf bw by (simp add: to_u_def)
  have c: "(4 < 7 - rps_sf r - rps_bw r \<and> 32 \<le> 7 - rps_sf r - rps_bw r - 4) = False" by auto
  show ?thesis unfolding calcAirTime_def Let_def a b c by simp
qed (simp add: calcAirTime_def Let_def)

text \<open>What an alternative leaves of a job, and how many are left: a bound for the rounds.\<close>

definition same_job :: "txjob \<Rightarrow> txjob \<Rightarrow> bool" where
  "same_job j j' \<longleftrightarrow> same_frame j j' \<and> j_rctx j' = j_rctx j \<and> j_altAnts j' = j_altAnts j \<and> j_txunit j' = j_txunit j \<and>
     j_txflags j' = j_txflags j \<and> j_deveui j' = j_deveui j \<and> j_diid j' = j_diid j \<and> j_prio j' = j_prio j \<and>
     j_gpstime j' = j_gpstime j"

definition alts_left :: "s2conf \<Rightarrow> txjob \<Rightarrow> nat" where
  "alts_left conf j = (if j_rx2freq j \<noteq> 0 then CLASS_C_BACKOFF_MAX conf + 3 else 0) + (CLASS_C_BACKOFF_MAX conf + 2 - j_retries j)"

lemma updateAirtime_some:
  assumes "rates_ok s"
  obtains j' where "updateAirtimeTxpow s j = Some j'" and "same_job j j'" and "alts_left conf j' = alts_left conf j"
    and "j_rx2freq j' = j_rx2freq j" and "j_retries j' = j_retries j" and "j_txtime j' = j_txtime j" and "j_xtime j' = j_xtime j"
proof -
  have "s2e_dr2rps s (j_dr j) = RPS_ILLEGAL \<or> s2e_dr2rps s (j_dr j) \<in> set (dr_defs s)"
    using assms by (auto simp: s2e_dr2rps_def rates_ok_def DR_CNT_def)
  then have "calcAirTime (s2e_dr2rps s (j_dr j)) (j_len j) (j_addcrc j = 0) (j_preamble j) \<noteq> None"
    using assms by (intro calcAirTime_defined) (auto simp: rates_ok_def)
  then obtain air where "s2e_calcDnAirTime (s2e_dr2rps s (j_dr j)) (j_len j) (j_addcrc j) (j_preamble j) = Some air"
    by (auto simp: s2e_calcDnAirTime_def)
  then show ?thesis
    by (intro that [of "(j\<lparr>j_airtime := to_u 32 air\<rparr>)\<lparr>j_txpow := calcTxpow s (j\<lparr>j_airtime := to_u 32 air\<rparr>)\<rparr>"])
      (simp_all add: updateAirtimeTxpow_def Let_def same_job_def same_frame_def alts_left_def)
qed

lemma same_job_trans: "same_job j k \<Longrightarrow> same_job k l \<Longrightarrow> same_job j l"
  by (simp add: same_job_def same_frame_def)

lemma same_job_upd:
  "same_job j (use_rx2 j)" "same_job j (shift_job d j)" "same_job j (j\<lparr>j_retries := r\<rparr>)"
  "same_job j (j\<lparr>j_txtime := t, j_xtime := x, j_retries := r\<rparr>)"
  by (simp_all add: same_job_def same_frame_def use_rx2_def shift_job_def)

lemma clsC_rx2_some:
  assumes "rates_ok s"
  obtains ok j' where "clsC_rx2 conf s earliest j = Some (ok, j')" and "same_job j j'" and "j_rx2freq j' = 0"
    and "alts_left conf j' \<le> alts_left conf j" and "j_rx2freq j \<noteq> 0 \<Longrightarrow> alts_left conf j' < alts_left conf j"
proof (cases "j_rx2freq j = 0")
  case True
  then show ?thesis by (intro that [of True j]) (simp_all add: clsC_rx2_def same_job_def same_frame_def)
next
  case False
  let ?t = "earliest - CLASS_C_BACKOFF_BY conf"
  let ?j1 = "j\<lparr>j_txtime := ?t, j_xtime := ts_ustime2xtime (s_ts s) (j_txunit j) ?t, j_retries := 0\<rparr>"
  obtain j' where j': "updateAirtimeTxpow s (use_rx2 ?j1) = Some j'" "same_job (use_rx2 ?j1) j'"
    "alts_left conf j' = alts_left conf (use_rx2 ?j1)" "j_rx2freq j' = j_rx2freq (use_rx2 ?j1)"
    using updateAirtime_some [OF assms, of "use_rx2 ?j1"] by metis
  have "same_job j j'" using same_job_trans [OF same_job_trans] same_job_upd(1,4) j'(2) by blast
  moreover have "alts_left conf j' < alts_left conf j" using False j'(3) by (simp add: alts_left_def use_rx2_def)
  ultimately show ?thesis
    using j' False by (intro that [of "j_xtime j' \<noteq> 0" j']) (simp_all add: clsC_rx2_def Let_def use_rx2_def)
qed

lemma altTx_clsC_some:
  assumes "rates_ok s" and "CLASS_C_BACKOFF_MAX conf < 255"
  shows "\<exists>ok j'. altTx_clsC conf s earliest j = Some (ok, j') \<and> same_job j j' \<and> alts_left conf j' \<le> alts_left conf j \<and>
    (ok \<longrightarrow> alts_left conf j' < alts_left conf j \<and> earliest \<le> j_txtime j')"
proof (induction "alts_left conf j" arbitrary: j rule: less_induct)
  case less
  obtain ok1 j1 where j1: "clsC_rx2 conf s earliest j = Some (ok1, j1)" "same_job j j1" "j_rx2freq j1 = 0"
    "alts_left conf j1 \<le> alts_left conf j"
    using clsC_rx2_some [OF assms(1)] by metis
  let ?j2 = "shift_job (CLASS_C_BACKOFF_BY conf) (j1\<lparr>j_retries := (j_retries j1 + 1) mod 256\<rparr>)"
  have j2: "same_job j ?j2" using same_job_trans [OF same_job_trans] same_job_upd(2,3) j1(2) by blast
  show ?case
  proof (cases "\<not> ok1 \<or> j_retries j1 > CLASS_C_BACKOFF_MAX conf")
    case True
    then show ?thesis using j1 by (subst altTx_clsC.simps) auto
  next
    case False
    then have "alts_left conf ?j2 < alts_left conf j1"
      using assms(2) j1(3) by (simp add: alts_left_def shift_job_def) (metis Suc_diff_le diff_less_Suc le_SucI linorder_not_less less_Suc_eq_le)
    then have dec: "alts_left conf ?j2 < alts_left conf j" using j1(4) by simp
    show ?thesis
    proof (cases "j_txtime ?j2 < earliest")
      case True
      then have "altTx_clsC conf s earliest j = altTx_clsC conf s earliest ?j2"
        using False j1(1) by (subst altTx_clsC.simps) (simp add: Let_def)
      then show ?thesis using less [OF dec] dec same_job_trans [OF j2] by force
    next
      case False2: False
      then have "altTx_clsC conf s earliest j = Some (True, ?j2)"
        using False j1(1) by (subst altTx_clsC.simps) (simp add: Let_def)
      then show ?thesis using dec j2 False2 by auto
    qed
  qed
qed

lemma altTxTime_some:
  assumes "rates_ok s" and "CLASS_C_BACKOFF_MAX conf < 255"
  shows "\<exists>ok j'. altTxTime conf s earliest j = Some (ok, j') \<and> same_job j j' \<and> alts_left conf j' \<le> alts_left conf j \<and>
    (ok \<longrightarrow> alts_left conf j' < alts_left conf j \<and> earliest \<le> j_txtime j')"
proof (cases "has_flag TXFLAG_CLSC j \<or> has_flag TXFLAG_PING j \<or> j_rx2freq j = 0")
  case True
  then show ?thesis using altTx_clsC_some [OF assms, of earliest j]
    by (auto simp: altTxTime_def same_job_def same_frame_def)
next
  case False
  let ?j1 = "shift_job (rt_seconds 1) (use_rx2 j)"
  obtain j' where j': "updateAirtimeTxpow s ?j1 = Some j'" "same_job ?j1 j'" "alts_left conf j' = alts_left conf ?j1"
    using updateAirtime_some [OF assms(1), of ?j1] by metis
  have "same_job j j'" using same_job_trans [OF same_job_trans] same_job_upd(1,2) j'(2) by blast
  moreover have "alts_left conf j' < alts_left conf j"
    using False j'(3) by (simp add: alts_left_def use_rx2_def shift_job_def)
  ultimately show ?thesis using False j'(1) by (simp add: altTxTime_def)
qed

section \<open>Placing ends\<close>

text \<open>What placing leaves alone: the context but for queues and timers, the other jobs but for their links.\<close>

definition same_ctx :: "s2ctx \<Rightarrow> s2ctx \<Rightarrow> bool" where
  "same_ctx s s' \<longleftrightarrow> (\<exists>q us. s' = s\<lparr>s_txq := q, txunits := us\<rparr> \<and>
     map dc_eu868bands us = map dc_eu868bands (txunits s) \<and> map dc_perChnl us = map dc_perChnl (txunits s))"

definition others_same :: "nat \<Rightarrow> txq \<Rightarrow> txq \<Rightarrow> bool" where
  "others_same i q q' \<longleftrightarrow> length (heads q') = length (heads q) \<and> (\<forall>k. k \<noteq> i \<longrightarrow> txjobs q' ! k = (txjobs q ! k)\<lparr>j_next := nxt q' k\<rparr>)"

lemma same_ctx_txq [simp]: "same_ctx s (s\<lparr>s_txq := q\<rparr>)"
  unfolding same_ctx_def by (intro exI [of _ q] exI [of _ "txunits s"]) simp

lemma same_ctx_refl [simp]: "same_ctx s s"
  using same_ctx_txq [of s "s_txq s"] by simp

lemma same_ctx_trans: "same_ctx s t \<Longrightarrow> same_ctx t u \<Longrightarrow> same_ctx s u"
  unfolding same_ctx_def by (elim exE conjE, rule exI [of _ "s_txq u"], rule exI [of _ "txunits u"]) simp

lemma same_ctx_set_job [simp]: "same_ctx s (set_job i f s)"
  by (simp add: set_job_def)

lemma map_update_same: "f (g x) = f x \<Longrightarrow> x = xs ! u \<Longrightarrow> map f (xs[u := g x]) = map f xs"
  by (cases "u < length xs") (simp_all add: map_update list_update_beyond list_update_same_conv)

lemma same_ctx_timer [simp]: "same_ctx s (upd_unit u (txtimer_update f) s)"
  unfolding same_ctx_def upd_unit_def
  by (intro exI [of _ "s_txq s"] exI [of _ "(txunits s)[u := txtimer_update f (txunits s ! u)]"]) (simp add: map_update_same)

lemma same_ctx_units:
  assumes "same_ctx s s'"
  shows "length (txunits s') = length (txunits s)"
    and "u < length (txunits s) \<Longrightarrow> dc_eu868bands (txunits s' ! u) = dc_eu868bands (txunits s ! u)"
    and "u < length (txunits s) \<Longrightarrow> dc_perChnl (txunits s' ! u) = dc_perChnl (txunits s ! u)"
proof -
  obtain q us where s': "s' = s\<lparr>s_txq := q, txunits := us\<rparr>" and m: "map dc_eu868bands us = map dc_eu868bands (txunits s)"
    "map dc_perChnl us = map dc_perChnl (txunits s)"
    using assms by (auto simp: same_ctx_def)
  show l: "length (txunits s') = length (txunits s)" using arg_cong [OF m(1), of length] s' by simp
  show "u < length (txunits s) \<Longrightarrow> dc_eu868bands (txunits s' ! u) = dc_eu868bands (txunits s ! u)"
    using arg_cong [OF m(1), of "\<lambda>l. l ! u"] l s' by simp
  show "u < length (txunits s) \<Longrightarrow> dc_perChnl (txunits s' ! u) = dc_perChnl (txunits s ! u)"
    using arg_cong [OF m(2), of "\<lambda>l. l ! u"] l s' by simp
qed

lemma same_ctx_fields:
  assumes "same_ctx s s'"
  shows "canTx s' = canTx s" "dr_defs s' = dr_defs s" "dcDisabled s' = dcDisabled s" "s_ts s' = s_ts s" "s_out s' = s_out s"
    "txpow s' = txpow s" "txpow2 s' = txpow2 s" "txpow2_freq s' = txpow2_freq s" "ccaDisabled s' = ccaDisabled s"
  using assms by (auto simp: same_ctx_def)

lemma others_same_refl [simp]: "others_same i q q"
  by (simp add: others_same_def nxt_def)

lemma others_same_trans: "others_same i q q' \<Longrightarrow> others_same i q' q'' \<Longrightarrow> others_same i q q''"
  by (simp add: others_same_def)

lemma others_same_upd [simp]: "others_same i q (upd_job i f q)"
  by (simp add: others_same_def upd_job_def nxt_def)

lemma others_same_next_only: "next_only q q' \<Longrightarrow> length (heads q') = length (heads q) \<Longrightarrow> others_same i q q'"
  by (simp add: others_same_def next_only_def)

lemma call_canTx_same:
  assumes "same_ctx s s'" and "j_txunit j < length (txunits s)"
  shows "call_canTx s' j = call_canTx s j"
  using same_ctx_units(2,3) [OF assms] same_ctx_fields(1) [OF assms(1)]
  by (simp add: call_canTx_def s2e_canTxEU868_def s2e_canTxPerChnlDC_def split: can_tx.split)

lemma rates_ok_same: "same_ctx s s' \<Longrightarrow> rates_ok s' = rates_ok s"
  by (simp add: rates_ok_def same_ctx_fields)

lemma s_txq_set_job [simp]: "s_txq (set_job i f s) = upd_job i f (s_txq s)"
  by (simp add: set_job_def)

lemma get_set_job: "i < length (txjobs (s_txq s)) \<Longrightarrow> get_job (set_job i f s) k = (if k = i then f (get_job s i) else get_job s k)"
  by (simp add: get_job_def set_job_def upd_job_def)

lemma head_idx:
  assumes "txq_ok q ls bs" and "u < length (heads q)"
  shows "rd_idx q (LHead u) = (case ls ! Suc u of [] \<Rightarrow> TXIDX_END | z # _ \<Rightarrow> z)"
  using rd_link_at [of q ls "Suc u" "[]" "ls ! Suc u"] txq_ok_ls [OF assms(1)] assms by (simp add: link_at_head txq_ok_def)

lemma queued_index: "txq_ok q ls bs \<Longrightarrow> k < length ls \<Longrightarrow> i \<in> set (ls ! k) \<Longrightarrow> i < MAX_TXJOBS \<and> i \<noteq> TXIDX_END \<and> i \<noteq> TXIDX_NIL"
  using links_index [of q ls k i] by (auto simp: txq_ok_def tx_consts)

lemma add_start_some:
  assumes ok: "txq_ok (s_txq s) ls bs" and h: "length (heads (s_txq s)) = MAX_TXUNITS"
    and i: "i < MAX_TXJOBS" "nxt (s_txq s) i = TXIDX_NIL" and u: "j_txunit (get_job s i) < MAX_TXUNITS"
  shows "\<exists>r. add_start conf clock i s = Some r \<and> (\<forall>s'. r = Some s' \<longrightarrow> same_ctx s s' \<and> next_only (s_txq s) (s_txq s') \<and>
    txq_ok (s_txq s') (ls[Suc (j_txunit (get_job s i)) := ins_by (q_key (s_txq s)) i (ls ! Suc (j_txunit (get_job s i)))]) bs \<and>
    (dcDisabled s = 0 \<longrightarrow> call_canTx s (get_job s i) \<noteq> 0))"
proof -
  let ?u = "j_txunit (get_job s i)" and ?q = "s_txq s"
  have len: "Suc ?u < length ls" using txq_ok_ls [OF ok] h u by simp
  have hd: "rd_idx ?q (LHead ?u) = TXIDX_END \<or> rd_idx ?q (LHead ?u) < MAX_TXJOBS"
    using head_idx [OF ok, of ?u] h u queued_index [OF ok len] by (auto split: list.splits)
  obtain p q' where p: "ins_find ?q (q_key ?q i) (LHead ?u) = Some p" "txq_insJob p i ?q = Some q'" "next_only ?q q'"
    "txq_ok q' (ls[Suc ?u := ins_by (q_key ?q) i (ls ! Suc ?u)]) bs"
    using ins_sorted [OF ok _ i, of ?u] h u by auto
  have key: "q_key ?q i = j_txtime (get_job s i)" by (simp add: q_key_def get_job_def)
  let ?s' = "if p = LHead ?u then upd_unit ?u (txtimer_update (\<lambda>_. Some clock)) (s\<lparr>s_txq := q'\<rparr>) else s\<lparr>s_txq := q'\<rparr>"
  have s': "same_ctx s ?s'" "s_txq ?s' = q'"
    using same_ctx_trans [OF same_ctx_txq same_ctx_timer] by (simp_all add: upd_unit_def)
  have "add_start conf clock i s = Some None \<or>
    (add_start conf clock i s = Some (Some ?s') \<and> (dcDisabled s = 0 \<longrightarrow> call_canTx s (get_job s i) \<noteq> 0))"
    using hd u p(1,2) key by (auto simp: add_start_def Let_def)
  then show ?thesis using s' p(3,4) by force
qed

lemma check_alt_some:
  assumes r: "rates_ok s" and m: "CLASS_C_BACKOFF_MAX conf < 255" and i: "i < length (txjobs (s_txq s))" and a: "j_altAnts (get_job s i) = 0"
  obtains ok j' where "add_check_alt conf earliest i s = Some (ok, set_job i (\<lambda>_. j') s)" and "same_frame (get_job s i) j'"
    and "j_rctx j' = j_rctx (get_job s i)" and "j_altAnts j' = 0" and "j_txflags j' = j_txflags (get_job s i)" and "j_gpstime j' = j_gpstime (get_job s i)"
    and "j_txunit j' = j_txunit (get_job s i) \<or> j_txunit j' = ral_rctx2txunit (j_rctx (get_job s i))"
    and "alts_left conf j' \<le> alts_left conf (get_job s i)"
    and "ok \<Longrightarrow> alts_left conf j' < alts_left conf (get_job s i) \<and> earliest \<le> j_txtime j'"
proof -
  obtain ok j' where j': "altTxTime conf s earliest (get_job s i) = Some (ok, j')" "same_job (get_job s i) j'"
    "alts_left conf j' \<le> alts_left conf (get_job s i)"
    "ok \<longrightarrow> alts_left conf j' < alts_left conf (get_job s i) \<and> earliest \<le> j_txtime j'"
    using altTxTime_some [OF r m, of earliest "get_job s i"] by blast
  define j2 where "j2 = (if ok then j'\<lparr>j_txunit := ral_rctx2txunit (j_rctx j'), j_altAnts := 0\<rparr> else j')"
  have c: "add_check_alt conf earliest i s = Some (ok, set_job i (\<lambda>_. j2) s)"
    using j'(1) a by (simp add: add_check_alt_def Let_def j2_def ral_altAntennas_def)
  have same: "alts_left conf j2 = alts_left conf j'" "j_txtime j2 = j_txtime j'" by (simp_all add: j2_def alts_left_def)
  show ?thesis
    by (rule that [OF c]) (use same j'(2,3,4) a in \<open>simp_all add: j2_def same_job_def same_frame_def\<close>)
qed

text \<open>A job outside the queues that can be placed, and what placing it gives.\<close>

definition placeable :: "s2conf \<Rightarrow> s2ctx \<Rightarrow> nat list list \<Rightarrow> nat list \<Rightarrow> nat \<Rightarrow> bool" where
  "placeable conf s ls bs i \<longleftrightarrow> txq_ok (s_txq s) ls bs \<and> length (heads (s_txq s)) = MAX_TXUNITS \<and> length (txunits s) = MAX_TXUNITS \<and>
     rates_ok s \<and> CLASS_C_BACKOFF_MAX conf < 255 \<and> i < MAX_TXJOBS \<and> nxt (s_txq s) i = TXIDX_NIL \<and> j_altAnts (get_job s i) = 0 \<and>
     j_txunit (get_job s i) < MAX_TXUNITS \<and> ral_rctx2txunit (j_rctx (get_job s i)) < MAX_TXUNITS"

definition kept_job :: "s2conf \<Rightarrow> txjob \<Rightarrow> txjob \<Rightarrow> bool" where
  "kept_job conf j j' \<longleftrightarrow> j_off j' = j_off j \<and> j_len j' = j_len j \<and> j_rctx j' = j_rctx j \<and> j_altAnts j' = 0 \<and> j_txflags j' = j_txflags j \<and>
     j_gpstime j' = j_gpstime j \<and> j_txunit j' < MAX_TXUNITS \<and> alts_left conf j' \<le> alts_left conf j"

definition placed :: "s2conf \<Rightarrow> ustime \<Rightarrow> nat list list \<Rightarrow> nat list \<Rightarrow> nat \<Rightarrow> s2ctx \<Rightarrow> bool \<Rightarrow> s2ctx \<Rightarrow> bool" where
  "placed conf earliest ls bs i s ok s' \<longleftrightarrow> same_ctx s s' \<and> others_same i (s_txq s) (s_txq s') \<and> kept_job conf (get_job s i) (get_job s' i) \<and>
     (let j = get_job s' i in
      if ok then earliest \<le> j_txtime j \<and> (dcDisabled s = 0 \<longrightarrow> call_canTx s j \<noteq> 0) \<and>
        txq_ok (s_txq s') (ls[Suc (j_txunit j) := ins_by (q_key (s_txq s')) i (ls ! Suc (j_txunit j))]) bs
      else txq_ok (s_txq s') ls bs \<and> nxt (s_txq s') i = TXIDX_NIL)"

lemma kept_job_trans: "kept_job conf j k \<Longrightarrow> kept_job conf k l \<Longrightarrow> kept_job conf j l"
  by (simp add: kept_job_def)

lemma call_canTx_next [simp]: "call_canTx s (j\<lparr>j_next := n\<rparr>) = call_canTx s j"
  by (simp add: call_canTx_def s2e_canTxEU868_def s2e_canTxPerChnlDC_def split: can_tx.split)

lemma placed_trans:
  assumes "placed conf earliest ls bs i t ok s'" and "same_ctx s t" and "others_same i (s_txq s) (s_txq t)"
    and "kept_job conf (get_job s i) (get_job t i)" and "length (txunits s) = MAX_TXUNITS"
  shows "placed conf earliest ls bs i s ok s'"
proof -
  have "call_canTx t (get_job s' i) = call_canTx s (get_job s' i)"
    using assms(1,5) by (intro call_canTx_same [OF assms(2)]) (simp add: placed_def kept_job_def Let_def)
  moreover have "dcDisabled t = dcDisabled s" using same_ctx_fields [OF assms(2)] by simp
  ultimately show ?thesis
    using assms(1) same_ctx_trans [OF assms(2)] others_same_trans [OF assms(3)] kept_job_trans [OF assms(4)]
    by (cases ok) (simp_all add: placed_def Let_def)
qed

lemma placeable_set_job:
  assumes "placeable conf s ls bs i" and "same_frame (get_job s i) j" and "j_rctx j = j_rctx (get_job s i)" and "j_altAnts j = 0"
    and "j_txunit j < MAX_TXUNITS"
  shows "placeable conf (set_job i (\<lambda>_. j) s) ls bs i"
proof -
  have len: "length (txjobs (s_txq s)) = MAX_TXJOBS" using assms(1) by (simp add: placeable_def txq_ok_def data_ok_def)
  have "txq_ok (upd_job i (\<lambda>_. j) (s_txq s)) ls bs"
    using assms(1,2) by (intro upd_job_ok) (simp_all add: placeable_def get_job_def)
  then show ?thesis
    using assms len by (simp add: placeable_def set_job_def get_job_def upd_job_def nxt_def rates_ok_def same_frame_def)
qed

lemma add_loop_some:
  assumes "placeable conf s ls bs i" and "\<not> alt \<Longrightarrow> earliest \<le> j_txtime (get_job s i)"
  shows "\<exists>ok s'. add_loop conf clock earliest alt i s = Some (ok, s') \<and> placed conf earliest ls bs i s ok s' \<and>
    (alt \<and> ok \<longrightarrow> alts_left conf (get_job s' i) < alts_left conf (get_job s i))"
  using assms
proof (induction "2 * alts_left conf (get_job s i) + (if alt then 0 else 1)" arbitrary: s alt rule: less_induct)
  case less
  note p = less.prems(1)
  have len: "i < length (txjobs (s_txq s))" and dim: "length (txunits s) = MAX_TXUNITS"
    using p by (simp_all add: placeable_def txq_ok_def data_ok_def)
  obtain ok1 j1 s1 where alt: "(if alt then add_check_alt conf earliest i s else Some (True, s)) = Some (ok1, s1)"
    and s1: "get_job s1 i = j1" "same_ctx s s1" "others_same i (s_txq s) (s_txq s1)" "kept_job conf (get_job s i) j1" "placeable conf s1 ls bs i"
    and late: "ok1 \<Longrightarrow> earliest \<le> j_txtime j1" and dec: "alt \<Longrightarrow> ok1 \<Longrightarrow> alts_left conf j1 < alts_left conf (get_job s i)" and "\<not> alt \<Longrightarrow> ok1"
  proof (cases alt)
    case False
    have "kept_job conf (get_job s i) (get_job s i)" using p by (simp add: kept_job_def placeable_def)
    then show ?thesis using False p less.prems(2) by (intro that [of True s "get_job s i"]) simp_all
  next
    case True
    obtain ok j' where c: "add_check_alt conf earliest i s = Some (ok, set_job i (\<lambda>_. j') s)" "same_frame (get_job s i) j'"
      "j_rctx j' = j_rctx (get_job s i)" "j_altAnts j' = 0" "j_txflags j' = j_txflags (get_job s i) \<and> j_gpstime j' = j_gpstime (get_job s i)"
      "j_txunit j' = j_txunit (get_job s i) \<or> j_txunit j' = ral_rctx2txunit (j_rctx (get_job s i))"
      "alts_left conf j' \<le> alts_left conf (get_job s i)"
      "ok \<Longrightarrow> alts_left conf j' < alts_left conf (get_job s i) \<and> earliest \<le> j_txtime j'"
      using check_alt_some [of s conf i earliest] p len unfolding placeable_def by metis
    have u: "j_txunit j' < MAX_TXUNITS" using c(6) p by (auto simp: placeable_def)
    show ?thesis
      using True c u len by (intro that [of ok "set_job i (\<lambda>_. j') s" j'] placeable_set_job [OF p])
        (simp_all add: get_set_job kept_job_def same_frame_def)
  qed
  have q1: "txq_ok (s_txq s1) ls bs" "nxt (s_txq s1) i = TXIDX_NIL" using s1(5) by (simp_all add: placeable_def)
  show ?case
  proof (cases ok1)
    case False
    then have "placed conf earliest ls bs i s False s1" using s1 q1 by (simp add: placed_def)
    then show ?thesis using alt False by (subst add_loop.simps) auto
  next
    case True
    obtain r where r: "add_start conf clock i s1 = Some r" and
      new: "\<And>s'. r = Some s' \<Longrightarrow> same_ctx s1 s' \<and> next_only (s_txq s1) (s_txq s') \<and>
        txq_ok (s_txq s') (ls[Suc (j_txunit j1) := ins_by (q_key (s_txq s1)) i (ls ! Suc (j_txunit j1))]) bs \<and>
        (dcDisabled s1 = 0 \<longrightarrow> call_canTx s1 j1 \<noteq> 0)"
      using add_start_some [of s1 ls bs i conf clock] s1(1,5) unfolding placeable_def by auto
    show ?thesis
    proof (cases r)
      case None
      have m: "2 * alts_left conf (get_job s1 i) + (if True then 0 else 1) < 2 * alts_left conf (get_job s i) + (if alt then 0 else 1)"
        using dec s1(1,4) True by (cases alt) (auto simp: kept_job_def)
      obtain ok2 s2 where s2: "add_loop conf clock earliest True i s1 = Some (ok2, s2)" "placed conf earliest ls bs i s1 ok2 s2"
        "ok2 \<Longrightarrow> alts_left conf (get_job s2 i) < alts_left conf (get_job s1 i)"
        using less.hyps [OF m s1(5)] by auto
      have "add_loop conf clock earliest alt i s = Some (ok2, s2)"
        using alt True r None s2(1) by (subst add_loop.simps) simp
      moreover have "placed conf earliest ls bs i s ok2 s2"
        using placed_trans [OF s2(2) s1(2,3) _ dim] s1(1,4) by simp
      ultimately show ?thesis using s2(3) s1(1,4) by (auto simp: kept_job_def)
    next
      case (Some s2)
      note n = new [OF Some]
      have j2: "get_job s2 i = j1\<lparr>j_next := nxt (s_txq s2) i\<rparr>"
        using next_only_job [of "s_txq s1" "s_txq s2" i] n s1(1) by (simp add: get_job_def)
      have key: "q_key (s_txq s2) = q_key (s_txq s1)" using next_only_key n by blast
      have heads: "length (heads (s_txq s2)) = length (heads (s_txq s1))"
        using n q1(1) by (intro next_only_heads [of _ "ls[Suc (j_txunit j1) := ins_by (q_key (s_txq s1)) i (ls ! Suc (j_txunit j1))]" bs _ ls bs]) simp_all
      have "kept_job conf j1 (get_job s2 i)" using s1(4) by (simp add: j2 kept_job_def alts_left_def)
      then have "placed conf earliest ls bs i s1 True s2"
        using n late [OF True] others_same_next_only [OF _ heads] unfolding placed_def Let_def by (simp add: j2 key s1(1))
      then have "placed conf earliest ls bs i s True s2" using placed_trans [OF _ s1(2,3) _ dim] s1(1,4) by simp
      moreover have "add_loop conf clock earliest alt i s = Some (True, s2)"
        using alt True r Some by (subst add_loop.simps) simp
      moreover have "alt \<longrightarrow> alts_left conf (get_job s2 i) < alts_left conf (get_job s i)"
        using dec True by (simp add: j2 alts_left_def)
      ultimately show ?thesis by blast
    qed
  qed
qed

lemma placed_failed:
  assumes "placeable conf s ls bs i" and "same_frame (get_job s i) j" and "kept_job conf (get_job s i) j"
  shows "placed conf earliest ls bs i s False (set_job i (\<lambda>_. j) s)"
proof -
  have len: "i < length (txjobs (s_txq s))" using assms(1) by (simp add: placeable_def txq_ok_def data_ok_def)
  have "placeable conf (set_job i (\<lambda>_. j) s) ls bs i"
    using assms(2,3) by (intro placeable_set_job [OF assms(1)]) (simp_all add: kept_job_def)
  then show ?thesis using assms(3) len by (simp add: placed_def get_set_job placeable_def)
qed

lemma addTxjob_some:
  assumes "placeable conf s ls bs i \<or> (\<not> relocate \<and> placeable conf (set_job i (\<lambda>j. j\<lparr>j_txunit := ral_rctx2txunit (j_rctx j), j_altAnts := 0\<rparr>) s) ls bs i)"
  shows "\<exists>ok s' s0. s2e_addTxjob conf clock i relocate now s = Some (ok, s') \<and> placed conf (now + TX_AIM_GAP conf) ls bs i s0 ok s' \<and>
    s0 = (if relocate then s else set_job i (\<lambda>j. j\<lparr>j_txunit := ral_rctx2txunit (j_rctx j), j_altAnts := 0\<rparr>) s) \<and>
    (relocate \<and> ok \<longrightarrow> alts_left conf (get_job s' i) < alts_left conf (get_job s i))"
proof (cases relocate)
  case True
  then have p: "placeable conf s ls bs i" using assms by simp
  show ?thesis
    using add_loop_some [OF p, of True "now + TX_AIM_GAP conf" clock] True by (auto simp: s2e_addTxjob_def)
next
  case False
  let ?f = "\<lambda>j. j\<lparr>j_txunit := ral_rctx2txunit (j_rctx j), j_altAnts := 0\<rparr>" and ?e = "now + TX_AIM_GAP conf"
  let ?s0 = "set_job i ?f s"
  have eq: "set_job i (\<lambda>_. ?f (get_job s i)) s = ?s0" by (simp add: set_job_def upd_job_def get_job_def)
  have p0: "placeable conf ?s0 ls bs i"
    using assms
  proof
    assume p: "placeable conf s ls bs i"
    have "placeable conf (set_job i (\<lambda>_. ?f (get_job s i)) s) ls bs i"
      by (rule placeable_set_job [OF p]) (use p in \<open>simp_all add: placeable_def same_frame_def\<close>)
    then show ?thesis by (simp only: eq)
  qed simp
  have len: "i < length (txjobs (s_txq s))" using p0 by (simp add: placeable_def txq_ok_def data_ok_def)
  have g0: "get_job ?s0 i = ?f (get_job s i)" using len by (simp add: get_set_job)
  have set2: "set_job i (\<lambda>_. j) ?s0 = set_job i (\<lambda>_. j) s" for j
    by (simp add: set_job_def upd_job_def)
  have c: "same_ctx s ?s0" by simp
  have dim: "length (txunits ?s0) = MAX_TXUNITS" using p0 by (simp add: placeable_def)
  obtain j1 where j1: "updateAirtimeTxpow s (?f (get_job s i)) = Some j1" "same_job (?f (get_job s i)) j1"
    "alts_left conf j1 = alts_left conf (?f (get_job s i))" "j_txtime j1 = j_txtime (get_job s i)"
  proof -
    have r: "rates_ok s" using p0 rates_ok_same [OF c] by (simp add: placeable_def)
    show ?thesis by (rule updateAirtime_some [OF r, of "?f (get_job s i)" conf]) (rule that, assumption+, simp)
  qed
  have u0: "ral_rctx2txunit (j_rctx (get_job s i)) < MAX_TXUNITS" using p0 g0 by (simp add: placeable_def)
  have k1: "same_frame (get_job ?s0 i) j1" "kept_job conf (get_job ?s0 i) j1" using j1 u0 by (simp_all add: g0 same_job_def kept_job_def same_frame_def)
  let ?s1 = "set_job i (\<lambda>_. j1) s"
  have p1: "placeable conf ?s1 ls bs i"
    using placeable_set_job [OF p0 k1(1)] k1(2) by (simp add: set2 kept_job_def)
  have g1: "get_job ?s1 i = j1" using len by (simp add: get_set_job)
  have tr: "placed conf ?e ls bs i ?s0 ok s'" if "placed conf ?e ls bs i (set_job i (\<lambda>_. j) s) ok s'" "kept_job conf (get_job ?s0 i) j" for ok s' j
    using placed_trans [OF that(1), of ?s0] that(2) dim len set2 [of j, symmetric] by (simp add: get_set_job)
  show ?thesis
  proof (cases "j_txtime (get_job s i) > now + TX_MAX_AHEAD conf")
    case True
    then have "s2e_addTxjob conf clock i relocate now s = Some (False, ?s1)"
      using False j1(1) by (simp add: s2e_addTxjob_def Let_def ral_altAntennas_def)
    moreover have "placed conf ?e ls bs i ?s0 False ?s1" using placed_failed [OF p0 k1] by (simp add: set2)
    ultimately show ?thesis using False by auto
  next
    case near: False
    show ?thesis
    proof (cases "j_txtime (get_job s i) < ?e")
      case False2: False
      have "s2e_addTxjob conf clock i relocate now s = add_loop conf clock ?e False i ?s1"
        using False near False2 j1(1) by (simp add: s2e_addTxjob_def Let_def ral_altAntennas_def)
      then show ?thesis
        using add_loop_some [OF p1, of False ?e clock] False False2 j1(4) g1 tr [OF _ k1(2)] by auto
    next
      case True
      obtain ok j2 where j2: "altTxTime conf ?s1 ?e j1 = Some (ok, j2)" "same_job j1 j2" "alts_left conf j2 \<le> alts_left conf j1"
        "ok \<longrightarrow> ?e \<le> j_txtime j2"
        using altTxTime_some [of ?s1 conf ?e j1] p1 unfolding placeable_def by blast
      have k2: "same_frame (get_job ?s0 i) j2" "kept_job conf (get_job ?s0 i) j2"
        using j2 k1 by (simp_all add: same_job_def same_frame_def kept_job_def)
      let ?s2 = "set_job i (\<lambda>_. j2) s"
      have p2: "placeable conf ?s2 ls bs i" using placeable_set_job [OF p0 k2(1)] k2(2) by (simp add: set2 kept_job_def)
      have ss: "set_job i (\<lambda>_. j2) ?s1 = ?s2" by (simp add: set_job_def upd_job_def)
      have call: "s2e_addTxjob conf clock i relocate now s = (if \<not> ok then Some (False, ?s2) else add_loop conf clock ?e False i ?s2)"
        using False near True j1(1) j2(1) ss by (simp add: s2e_addTxjob_def Let_def ral_altAntennas_def)
      show ?thesis
      proof (cases ok)
        case True
        then show ?thesis
          using call False add_loop_some [OF p2, of False ?e clock] j2(4) len tr [OF _ k2(2)] by (auto simp: get_set_job)
      next
        case nok: False
        have "placed conf ?e ls bs i ?s0 False ?s2" using placed_failed [OF p0 k2] by (simp add: set2)
        then show ?thesis using call nok False by auto
      qed
    qed
  qed
qed


text \<open>A queue with one job taken out of the free list.\<close>

definition one_job :: txq where
  "one_job = snd (the (txq_unqJob LFree (txq_ini MAX_TXUNITS)))"

lemma one_job_ok:
  "txq_ok one_job ([1..<MAX_TXJOBS] # replicate MAX_TXUNITS []) []" "nxt one_job 0 = TXIDX_NIL" "length (heads one_job) = MAX_TXUNITS"
  "\<exists>n. txjobs one_job ! 0 = zero_txjob\<lparr>j_next := n, j_off := TXOFF_NIL\<rparr>"
proof -
  have free: "([0..<MAX_TXJOBS] # replicate MAX_TXUNITS []) ! 0 = [] @ 0 # [1..<MAX_TXJOBS]"
    by (simp add: upt_conv_Cons MAX_TXJOBS_def)
  obtain q' where q': "txq_unqJob (link_at 0 []) (txq_ini MAX_TXUNITS) = Some (Some 0, q')"
    "txq_ok q' (([0..<MAX_TXJOBS] # replicate MAX_TXUNITS [])[0 := [] @ [1..<MAX_TXJOBS]]) []" "nxt q' 0 = TXIDX_NIL"
    "next_only (txq_ini MAX_TXUNITS) q'"
    using txq_unqJob_ok [OF txq_ini_ok [of MAX_TXUNITS], of 0 "[]" 0 "[1..<MAX_TXJOBS]"] free by auto
  have eq: "one_job = q'" using q'(1) by (simp add: one_job_def link_at_def head_link_def)
  show "txq_ok one_job ([1..<MAX_TXJOBS] # replicate MAX_TXUNITS []) []" "nxt one_job 0 = TXIDX_NIL" using q'(2,3) by (simp_all add: eq)
  then show "length (heads one_job) = MAX_TXUNITS" using txq_ok_ls by fastforce
  show "\<exists>n. txjobs one_job ! 0 = zero_txjob\<lparr>j_next := n, j_off := TXOFF_NIL\<rparr>"
    using next_only_job [OF q'(4), of 0] txq_ini_at [of 0 MAX_TXUNITS] by (intro exI [of _ "nxt q' 0"]) (simp add: eq MAX_TXJOBS_def)
qed


end
