(* ===== verification/S2eEngine.thy ===== *)
theory S2eEngine
  imports S2ePlace
begin

text \<open>
  The engine of a TX unit: every call ends, keeps the queues in order, and hands a job to the radio only at its time.
  A bound for the rounds is the number of queued jobs and the alternatives they have left.
\<close>

section \<open>The invariant of the engine\<close>

definition job_ok :: "s2conf \<Rightarrow> tsync \<Rightarrow> txjob \<Rightarrow> bool" where
  "job_ok conf ts j \<longleftrightarrow> j_altAnts j = 0 \<and> j_txunit j < MAX_TXUNITS \<and> ral_rctx2txunit (j_rctx j) < MAX_TXUNITS \<and>
     (j_gpstime j \<noteq> 0 \<longrightarrow> (\<forall>u < MAX_TXUNITS. \<forall>x. ts_gpstime2xtime conf ts u (j_gpstime j) = Some x \<longrightarrow> ts_xtime2ustime ts x \<noteq> None))"

definition queued :: "nat list list \<Rightarrow> nat set" where
  "queued ls = (\<Union>k \<in> {0 <..< length ls}. set (ls ! k))"

definition eng_ok :: "s2conf \<Rightarrow> s2ctx \<Rightarrow> nat list list \<Rightarrow> nat list \<Rightarrow> bool" where
  "eng_ok conf s ls bs \<longleftrightarrow> txq_ok (s_txq s) ls bs \<and> length (heads (s_txq s)) = MAX_TXUNITS \<and> length (txunits s) = MAX_TXUNITS \<and>
     rates_ok s \<and> CLASS_C_BACKOFF_MAX conf < 255 \<and> (\<forall>i \<in> queued ls. job_ok conf (s_ts s) (get_job s i))"

definition work_left :: "s2conf \<Rightarrow> s2ctx \<Rightarrow> nat list list \<Rightarrow> nat" where
  "work_left conf s ls = (\<Sum>i \<in> queued ls. alts_left conf (get_job s i) + 1)"

lemma eng_ok_len: "eng_ok conf s ls bs \<Longrightarrow> length ls = Suc MAX_TXUNITS"
  using txq_ok_ls by (fastforce simp: eng_ok_def)

lemma finite_queued [simp]: "finite (queued ls)"
  by (simp add: queued_def)

lemma eng_ok_other:
  "eng_ok conf s ls bs \<Longrightarrow> s_txq s' = s_txq s \<Longrightarrow> length (txunits s') = length (txunits s) \<Longrightarrow> dr_defs s' = dr_defs s \<Longrightarrow>
    s_ts s' = s_ts s \<Longrightarrow> eng_ok conf s' ls bs"
  by (simp add: eng_ok_def rates_ok_def get_job_def)

lemma work_left_other: "s_txq s' = s_txq s \<Longrightarrow> work_left conf s' ls = work_left conf s ls"
  by (simp add: work_left_def get_job_def)

text \<open>Changes of a job that the invariant and the bound do not see.\<close>

definition alike :: "s2conf \<Rightarrow> txjob \<Rightarrow> txjob \<Rightarrow> bool" where
  "alike conf j j' \<longleftrightarrow> j_altAnts j' = j_altAnts j \<and> j_txunit j' = j_txunit j \<and> j_rctx j' = j_rctx j \<and> j_gpstime j' = j_gpstime j \<and>
     alts_left conf j' = alts_left conf j"

lemma job_ok_alike: "alike conf j j' \<Longrightarrow> job_ok conf ts j' = job_ok conf ts j"
  by (simp add: alike_def job_ok_def)

lemma work_left_alike:
  "\<forall>i \<in> queued ls. alike conf (get_job s i) (get_job s' i) \<Longrightarrow> work_left conf s' ls = work_left conf s ls"
  by (auto simp: work_left_def alike_def intro: sum.cong)

lemma queued_le: "eng_ok conf s ls bs \<Longrightarrow> i \<in> queued ls \<Longrightarrow> i < MAX_TXJOBS"
  using queued_index [of "s_txq s" ls bs] by (auto simp: queued_def eng_ok_def)

lemma eng_ok_set_job:
  assumes ok: "eng_ok conf s ls bs" and i: "i < MAX_TXJOBS" and f: "same_frame (get_job s i) (f (get_job s i))" "alike conf (get_job s i) (f (get_job s i))"
  shows "eng_ok conf (set_job i f s) ls bs" and "work_left conf (set_job i f s) ls = work_left conf s ls"
proof -
  have len: "i < length (txjobs (s_txq s))" using ok i by (simp add: eng_ok_def txq_ok_def data_ok_def)
  have al: "alike conf (get_job s k) (get_job (set_job i f s) k)" for k
    using f(2) len by (simp add: get_set_job alike_def)
  have "txq_ok (upd_job i f (s_txq s)) ls bs"
    using ok f(1) by (intro upd_job_ok [OF _ i]) (simp_all add: eng_ok_def get_job_def)
  then show "eng_ok conf (set_job i f s) ls bs"
    using ok job_ok_alike [OF al] by (simp add: eng_ok_def rates_ok_def) (simp add: set_job_def)
  show "work_left conf (set_job i f s) ls = work_left conf s ls" using al by (intro work_left_alike) simp
qed

section \<open>Taking a job out, and placing it or freeing it\<close>

lemma queued_free [simp]: "queued (ls[0 := xs]) = queued ls"
  by (auto simp: queued_def nth_list_update split: if_splits)

lemma queued_update: "0 < k \<Longrightarrow> k < length ls \<Longrightarrow> queued (ls[k := xs]) = (\<Union>j \<in> {0 <..< length ls} - {k}. set (ls ! j)) \<union> set xs"
  by (auto simp: queued_def nth_list_update split: if_splits)

lemma queued_split: "0 < k \<Longrightarrow> k < length ls \<Longrightarrow> queued ls = (\<Union>j \<in> {0 <..< length ls} - {k}. set (ls ! j)) \<union> set (ls ! k)"
  using queued_update [of k ls "ls ! k"] by simp

lemma unq_some:
  assumes ok: "eng_ok conf s ls bs" and u: "u < MAX_TXUNITS" and l: "ls ! Suc u = us @ i # ys"
  obtains s' where "unq (link_at (Suc u) us) s = Some s'" and "eng_ok conf s' (ls[Suc u := us @ ys]) bs" and "same_ctx s s'"
    and "placeable conf s' (ls[Suc u := us @ ys]) bs i" and "next_only (s_txq s) (s_txq s')" and "i \<notin> queued (ls[Suc u := us @ ys])"
    and "job_ok conf (s_ts s') (get_job s' i)"
    and "work_left conf s' (ls[Suc u := us @ ys]) + alts_left conf (get_job s' i) + 1 = work_left conf s ls"
proof -
  let ?ls = "ls[Suc u := us @ ys]"
  have k: "Suc u < length ls" using eng_ok_len [OF ok] u by simp
  have t: "txq_ok (s_txq s) ls bs" using ok by (simp add: eng_ok_def)
  obtain q' where q': "txq_unqJob (link_at (Suc u) us) (s_txq s) = Some (Some i, q')" "txq_ok q' ?ls bs" "nxt q' i = TXIDX_NIL"
    "next_only (s_txq s) q'"
    using txq_unqJob_ok [OF t k l] by blast
  let ?s = "s\<lparr>s_txq := q'\<rparr>"
  have links: "links_ok (s_txq s) ls" using t by (simp add: txq_ok_def)
  have d: "distinct (us @ i # ys)" using path_distinct [OF links_path [OF links k]] l by simp
  have "i \<notin> set (ls ! j)" if "j < length ls" "j \<noteq> Suc u" for j
    using links_disjoint [OF links that(1) k that(2)] l by auto
  then have out: "i \<notin> queued ?ls" using d k by (auto simp: queued_update)
  have whole: "queued ls = insert i (queued ?ls)" using k l by (auto simp: queued_update queued_split [of "Suc u" ls])
  have al: "alike conf (get_job s j) (get_job ?s j)" for j
    using next_only_job [OF q'(4), of j] by (simp add: get_job_def alike_def alts_left_def)
  have i: "i < MAX_TXJOBS" using queued_le [OF ok, of i] whole by simp
  have jok: "job_ok conf (s_ts ?s) (get_job ?s i)" using ok whole job_ok_alike [OF al] by (simp add: eng_ok_def)
  have heads: "length (heads q') = MAX_TXUNITS" using next_only_heads [OF q'(2) t] ok by (simp add: eng_ok_def)
  have ok': "eng_ok conf ?s ?ls bs"
    using ok q'(2) heads job_ok_alike [OF al] whole by (simp add: eng_ok_def rates_ok_def)
  have "work_left conf s ls = work_left conf s ?ls + (alts_left conf (get_job s i) + 1)"
    using out whole by (simp add: work_left_def)
  moreover have "work_left conf s ?ls = work_left conf ?s ?ls" using al by (intro work_left_alike [symmetric]) simp
  moreover have "alts_left conf (get_job s i) = alts_left conf (get_job ?s i)" using al by (simp add: alike_def)
  ultimately have w: "work_left conf ?s ?ls + alts_left conf (get_job ?s i) + 1 = work_left conf s ls" by simp
  show ?thesis
    by (rule that [of ?s]) (use q' ok' out i jok w in \<open>simp_all add: unq_def placeable_def eng_ok_def job_ok_def\<close>)
qed

lemma txq_freeJob_alike:
  assumes "txq_freeJob i q = Some q'" and "k \<noteq> i" and "k < length (txjobs q)"
  shows "\<exists>n x. txjobs q' ! k = (txjobs q ! k)\<lparr>j_next := n, j_off := x\<rparr>" and "heads q' = heads q"
proof -
  obtain q1 where q1: "txq_freeData i q = Some q1" "txq_insJob LFree i q1 = Some q'"
    using assms(1) by (auto simp: txq_freeJob_def bind_eq_Some_conv)
  have fx: "\<exists>x. fix_off a n j = j\<lparr>j_off := x\<rparr>" for a n j
    by (cases "j_off j \<noteq> TXOFF_NIL \<and> a \<le> j_off j") (auto simp: fix_off_def intro: exI [of _ "j_off j"])
  have "(\<exists>x. txjobs q1 ! k = (txjobs q ! k)\<lparr>j_off := x\<rparr>) \<and> heads q1 = heads q"
    using q1(1) assms(2,3) fx by (auto simp: txq_freeData_def Let_def upd_job_def split: if_splits intro: exI [of _ "j_off (txjobs q ! k)"])
  moreover have "txjobs q' ! k = txjobs q1 ! k \<and> heads q' = heads q1"
    using q1(2) assms(2) by (auto simp: txq_insJob_def Let_def upd_job_def split: if_splits)
  ultimately obtain x where x: "txjobs q' ! k = (txjobs q ! k)\<lparr>j_off := x\<rparr>" "heads q' = heads q" by auto
  then have "txjobs q' ! k = (txjobs q ! k)\<lparr>j_next := j_next (txjobs q ! k), j_off := x\<rparr>" by simp
  then show "\<exists>n x. txjobs q' ! k = (txjobs q ! k)\<lparr>j_next := n, j_off := x\<rparr>" by blast
  show "heads q' = heads q" by (rule x(2))
qed

lemma others_alike: "others_same i (s_txq s) (s_txq s') \<Longrightarrow> k \<noteq> i \<Longrightarrow> alike conf (get_job s k) (get_job s' k)"
  by (simp add: others_same_def get_job_def alike_def alts_left_def)

text \<open>
  The job \<open>i\<close>, in no queue, is placed with fewer alternatives or freed; every queued job stays in its
  queue.
\<close>

lemma relocate_some:
  assumes ok: "eng_ok conf s ls bs" and p: "placeable conf s ls bs i" and out: "i \<notin> queued ls" and j: "job_ok conf (s_ts s) (get_job s i)"
  obtains s' ls' bs' where "relocate_or_free conf clock now i s = Some s'" and "eng_ok conf s' ls' bs'" and "same_ctx s s'"
    and "work_left conf s' ls' < work_left conf s ls + alts_left conf (get_job s i) + 1"
    and "\<And>k. 0 < k \<Longrightarrow> k < length ls \<Longrightarrow> set (ls ! k) \<subseteq> set (ls' ! k)"
    and "\<And>k. k \<in> queued ls \<Longrightarrow> \<exists>n x. get_job s' k = (get_job s k)\<lparr>j_next := n, j_off := x\<rparr>"
proof -
  obtain r s1 where s1: "s2e_addTxjob conf clock i True now s = Some (r, s1)" "placed conf (now + TX_AIM_GAP conf) ls bs i s r s1"
    and dec: "r \<Longrightarrow> alts_left conf (get_job s1 i) < alts_left conf (get_job s i)"
    using addTxjob_some [of conf s ls bs i True clock now] p by auto
  have c1: "same_ctx s s1" and o1: "others_same i (s_txq s) (s_txq s1)" and k1: "kept_job conf (get_job s i) (get_job s1 i)"
    using s1(2) by (simp_all add: placed_def)
  have len: "length ls = Suc MAX_TXUNITS" by (rule eng_ok_len [OF ok])
  have dims: "length (heads (s_txq s1)) = MAX_TXUNITS" "length (txunits s1) = MAX_TXUNITS" "rates_ok s1" "s_ts s1 = s_ts s"
    using ok o1 same_ctx_units(1) [OF c1] rates_ok_same [OF c1] same_ctx_fields(4) [OF c1] by (simp_all add: eng_ok_def others_same_def)
  have al: "alike conf (get_job s k) (get_job s1 k)" if "k \<in> queued ls" for k
    using that out by (intro others_alike [OF o1]) auto
  have jobs: "\<forall>k \<in> queued ls. job_ok conf (s_ts s1) (get_job s1 k)"
    using ok job_ok_alike [OF al] dims(4) by (simp add: eng_ok_def)
  have same: "work_left conf s1 ls = work_left conf s ls" using al by (intro work_left_alike) simp
  have frame: "\<exists>n x. get_job s1 k = (get_job s k)\<lparr>j_next := n, j_off := x\<rparr>" if "k \<in> queued ls" for k
  proof -
    have "get_job s1 k = (get_job s k)\<lparr>j_next := nxt (s_txq s1) k\<rparr>"
      using o1 that out unfolding others_same_def get_job_def by metis
    then show ?thesis by (intro exI [of _ "nxt (s_txq s1) k"] exI [of _ "j_off (get_job s k)"]) simp
  qed
  show ?thesis
  proof (cases r)
    case True
    let ?k = "Suc (j_txunit (get_job s1 i))"
    let ?ls = "ls[?k := ins_by (q_key (s_txq s1)) i (ls ! ?k)]"
    have t1: "txq_ok (s_txq s1) ?ls bs" using s1(2) True by (simp add: placed_def Let_def)
    have k: "?k < length ls" using k1 len by (simp add: kept_job_def)
    have Q: "queued ?ls = insert i (queued ls)" using k by (auto simp: queued_update queued_split [of ?k ls])
    have "job_ok conf (s_ts s1) (get_job s1 i)" using k1 j dims(4) by (simp add: job_ok_def kept_job_def)
    then have "eng_ok conf s1 ?ls bs" using ok t1 dims jobs by (simp add: eng_ok_def Q)
    moreover have "work_left conf s1 ?ls = work_left conf s1 ls + (alts_left conf (get_job s1 i) + 1)"
      using out by (simp add: work_left_def Q)
    then have "work_left conf s1 ?ls < work_left conf s ls + alts_left conf (get_job s i) + 1" using dec [OF True] same by simp
    moreover have "relocate_or_free conf clock now i s = Some s1" using s1(1) True by (simp add: relocate_or_free_def)
    moreover have "set (ls ! k) \<subseteq> set (?ls ! k)" if "k < length ls" for k using that k by (cases "k = ?k") auto
    ultimately show ?thesis using c1 frame by (intro that [of s1 ?ls bs]) simp_all
  next
    case False
    have t1: "txq_ok (s_txq s1) ls bs" "nxt (s_txq s1) i = TXIDX_NIL" using s1(2) False by (simp_all add: placed_def Let_def)
    have i: "i < MAX_TXJOBS" using p by (simp add: placeable_def)
    obtain q' where q': "txq_freeJob i (s_txq s1) = Some q'" "txq_ok q' (ls[0 := i # ls ! 0]) (remove1 i bs)"
      using txq_freeJob_ok [OF t1(1) i t1(2)] by blast
    let ?s = "s1\<lparr>s_txq := q'\<rparr>" and ?ls = "ls[0 := i # ls ! 0]"
    have lenj: "length (txjobs (s_txq s1)) = MAX_TXJOBS" using t1 by (simp add: txq_ok_def data_ok_def)
    have free: "\<exists>n x. get_job ?s k = (get_job s1 k)\<lparr>j_next := n, j_off := x\<rparr>" "heads q' = heads (s_txq s1)" if "k \<in> queued ls" for k
      using txq_freeJob_alike [OF q'(1), of k] that out queued_le [OF ok that] lenj by (auto simp: get_job_def)
    have hq: "length (heads q') = MAX_TXUNITS"
      using next_only_heads [OF q'(2) t1(1)] dims(1) by simp
    have al2: "alike conf (get_job s1 k) (get_job ?s k)" if "k \<in> queued ls" for k
      using free(1) [OF that] by (auto simp: alike_def alts_left_def)
    have "eng_ok conf ?s ?ls (remove1 i bs)"
      using ok q'(2) dims jobs hq job_ok_alike [OF al2] by (simp add: eng_ok_def rates_ok_def)
    moreover have "work_left conf ?s ?ls = work_left conf s1 ls" using work_left_alike [of ls conf s1 ?s] al2 by (simp add: work_left_def)
    then have "work_left conf ?s ?ls < work_left conf s ls + alts_left conf (get_job s i) + 1" using same by simp
    moreover have "relocate_or_free conf clock now i s = Some ?s" using s1(1) False q'(1) by (simp add: relocate_or_free_def)
    moreover have "\<exists>n x. get_job ?s k = (get_job s k)\<lparr>j_next := n, j_off := x\<rparr>" if "k \<in> queued ls" for k
    proof -
      note k = free(1) [OF that]
      obtain n x where "get_job ?s k = (get_job s1 k)\<lparr>j_next := n, j_off := x\<rparr>" using k by blast
      then have "get_job ?s k = (get_job s k)\<lparr>j_next := n, j_off := x\<rparr>" using frame [OF that] by (elim exE) simp
      then show ?thesis by blast
    qed
    ultimately show ?thesis
      using same_ctx_trans [OF c1 same_ctx_txq] by (intro that [of ?s ?ls "remove1 i bs"]) (simp_all add: nth_list_update)
  qed
qed

section \<open>Displacing overlapping jobs\<close>

lemma in_queue_next:
  assumes ok: "eng_ok conf s ls bs" and u: "u < MAX_TXUNITS" and l: "ls ! Suc u = us @ i # ys"
  shows "j_next (get_job s i) = (case ys of [] \<Rightarrow> TXIDX_END | z # _ \<Rightarrow> z)"
    and "txq_idx2job (j_next (get_job s i)) = (case ys of [] \<Rightarrow> None | z # _ \<Rightarrow> Some z)"
    and "y \<in> set ys \<Longrightarrow> y < MAX_TXJOBS"
proof -
  have k: "Suc u < length ls" using eng_ok_len [OF ok] u by simp
  have t: "txq_ok (s_txq s) ls bs" using ok by (simp add: eng_ok_def)
  have "path (nxt (s_txq s)) TXIDX_END (rd_idx (s_txq s) (head_link (Suc u))) (us @ i # ys)"
    using links_path [of "s_txq s" ls "Suc u"] t k l by (simp add: txq_ok_def)
  from path_last_next [OF this] show n: "j_next (get_job s i) = (case ys of [] \<Rightarrow> TXIDX_END | z # _ \<Rightarrow> z)"
    by (simp add: nxt_def get_job_def)
  have y: "y < MAX_TXJOBS \<and> y \<noteq> TXIDX_END \<and> y \<noteq> TXIDX_NIL" if "y \<in> set ys" for y
    using queued_index [OF t k, of y] l that by simp
  then show "txq_idx2job (j_next (get_job s i)) = (case ys of [] \<Rightarrow> None | z # _ \<Rightarrow> Some z)"
    unfolding n by (auto simp: txq_idx2job_def split: list.splits)
  show "y \<in> set ys \<Longrightarrow> y < MAX_TXJOBS" using y by simp
qed

text \<open>The next job in the queue, if there is one, starts with a gap after the given time.\<close>

definition gap_after :: "s2conf \<Rightarrow> s2ctx \<Rightarrow> nat \<Rightarrow> ustime \<Rightarrow> bool" where
  "gap_after conf s i t \<longleftrightarrow>
     (case txq_idx2job (j_next (get_job s i)) of None \<Rightarrow> True | Some n \<Rightarrow> t < j_txtime (get_job s n) - TX_MIN_GAP conf)"

lemma displace_some:
  assumes "eng_ok conf s ls bs" and "u < MAX_TXUNITS" and "i \<in> set (ls ! Suc u)"
  shows "\<exists>s' ls' bs'. displace conf clock now txend i s = Some s' \<and> eng_ok conf s' ls' bs' \<and> same_ctx s s' \<and>
    i \<in> set (ls' ! Suc u) \<and> gap_after conf s' i txend \<and> (\<exists>n x. get_job s' i = (get_job s i)\<lparr>j_next := n, j_off := x\<rparr>)"
  using assms
proof (induction "work_left conf s ls" arbitrary: s ls bs rule: less_induct)
  case less
  obtain us ys where l: "ls ! Suc u = us @ i # ys" using less.prems(3) by (auto simp: in_set_conv_decomp)
  note nx = in_queue_next [OF less.prems(1,2) l]
  have self: "\<exists>n x. get_job s i = (get_job s i)\<lparr>j_next := n, j_off := x\<rparr>"
    by (intro exI [of _ "j_next (get_job s i)"] exI [of _ "j_off (get_job s i)"]) simp
  show ?case
  proof (cases "gap_after conf s i txend")
    case True
    have "displace conf clock now txend i s = Some s"
      using True nx by (subst displace.simps) (auto simp: gap_after_def split: list.splits)
    then show ?thesis using True less.prems(1,3) self by (intro exI [of _ s] exI) auto
  next
    case False
    then obtain n zs where ys: "ys = n # zs" using nx(2) by (auto simp: gap_after_def split: list.splits)
    have n: "txq_idx2job (j_next (get_job s i)) = Some n" "n < MAX_TXJOBS" "\<not> txend < j_txtime (get_job s n) - TX_MIN_GAP conf"
      using False nx ys by (simp_all add: gap_after_def)
    let ?ls = "ls[Suc u := (us @ [i]) @ zs]"
    have k: "Suc u < length ls" using eng_ok_len [OF less.prems(1)] less.prems(2) by simp
    have link: "link_at (Suc u) (us @ [i]) = LNext i" by (simp add: link_at_def)
    have l2: "ls ! Suc u = (us @ [i]) @ n # zs" using l ys by simp
    obtain s1 where s1: "unq (LNext i) s = Some s1" "eng_ok conf s1 ?ls bs" "same_ctx s s1" "placeable conf s1 ?ls bs n"
      "next_only (s_txq s) (s_txq s1)" "n \<notin> queued ?ls" "job_ok conf (s_ts s1) (get_job s1 n)"
      "work_left conf s1 ?ls + alts_left conf (get_job s1 n) + 1 = work_left conf s ls"
      by (rule unq_some [OF less.prems(1,2) l2, unfolded link]) (rule that)
    obtain s2 ls2 bs2 where s2: "relocate_or_free conf clock now n s1 = Some s2" "eng_ok conf s2 ls2 bs2" "same_ctx s1 s2"
      "work_left conf s2 ls2 < work_left conf s1 ?ls + alts_left conf (get_job s1 n) + 1"
      "\<And>k. 0 < k \<Longrightarrow> k < length ?ls \<Longrightarrow> set (?ls ! k) \<subseteq> set (ls2 ! k)"
      "\<And>k. k \<in> queued ?ls \<Longrightarrow> \<exists>n x. get_job s2 k = (get_job s1 k)\<lparr>j_next := n, j_off := x\<rparr>"
      by (rule relocate_some [OF s1(2,4,6,7), of clock now]) (rule that; assumption)
    have i1: "i \<in> set (?ls ! Suc u)" using k by simp
    then have i2: "i \<in> set (ls2 ! Suc u)" using s2(5) [of "Suc u"] k by auto
    have "i \<in> queued ?ls" using i1 k unfolding queued_def by (intro UN_I [of "Suc u"]) simp_all
    then obtain a x where "get_job s2 i = (get_job s1 i)\<lparr>j_next := a, j_off := x\<rparr>" using s2(6) by blast
    then have j2: "get_job s2 i = (get_job s i)\<lparr>j_next := a, j_off := x\<rparr>"
      using next_only_job [OF s1(5), of i] by (simp add: get_job_def)
    have dec: "work_left conf s2 ls2 < work_left conf s ls" using s2(4) s1(8) by simp
    obtain s' ls' bs' where s': "displace conf clock now txend i s2 = Some s'" "eng_ok conf s' ls' bs'" "same_ctx s2 s'"
      "i \<in> set (ls' ! Suc u)" "gap_after conf s' i txend" "\<exists>n x. get_job s' i = (get_job s2 i)\<lparr>j_next := n, j_off := x\<rparr>"
      using less.hyps [OF dec s2(2) less.prems(2) i2] by blast
    have "displace conf clock now txend i s = Some s'"
      using n s1(1) s2(1) s'(1) by (subst displace.simps) simp
    moreover have "same_ctx s s'" using same_ctx_trans [OF same_ctx_trans [OF s1(3) s2(3)] s'(3)] .
    moreover have "\<exists>n x. get_job s' i = (get_job s i)\<lparr>j_next := n, j_off := x\<rparr>"
      using s'(6) by (elim exE) (simp add: j2, blast)
    ultimately show ?thesis using s' by blast
  qed
qed

section \<open>Every round ends\<close>

lemma hindered_some:
  assumes "eng_ok conf s ls bs" and "u < MAX_TXUNITS" and "ls ! Suc u = us @ i # ys"
  shows "\<exists>h. hindered conf (s_txq s) txend prio i = Some h"
  using assms(3)
proof (induction ys arbitrary: us i)
  case Nil
  then show ?case using in_queue_next(2) [OF assms(1,2) Nil] by (subst hindered.simps) (auto simp: get_job_def)
next
  case (Cons y ys)
  have y: "y < MAX_TXJOBS" using in_queue_next(3) [OF assms(1,2) Cons.prems, of y] by simp
  obtain h where "hindered conf (s_txq s) txend prio y = Some h"
    using Cons.IH [of "us @ [i]" y] Cons.prems by auto
  then show ?case
    using in_queue_next(2) [OF assms(1,2) Cons.prems] y by (subst hindered.simps) (auto simp: get_job_def)
qed

text \<open>A message that reports a transmission goes out, and changes nothing but the output.\<close>

definition sends_ok :: "s2io \<Rightarrow> bool" where
  "sends_ok io \<longleftrightarrow> (\<forall>j s. send_dntxed io j s \<noteq> None)"

lemma send_dntxed_out: "send_dntxed io j s = Some s' \<Longrightarrow> \<exists>o'. s' = s\<lparr>s_out := o'\<rparr>"
  by (auto simp: send_dntxed_def send_text_def bind_eq_Some_conv split: if_splits option.splits intro: exI [of _ "s_out s"])

text \<open>What \<open>update_DC\<close> changes.\<close>

lemma update_DC_fields [simp]:
  "s_txq (update_DC j s) = s_txq s" "length (txunits (update_DC j s)) = length (txunits s)" "dr_defs (update_DC j s) = dr_defs s"
  "s_ts (update_DC j s) = s_ts s" "s_out (update_DC j s) = s_out s"
  by (simp_all add: update_DC_def upd_unit_def Let_def)

lemma tx_checked_some:
  assumes ok: "eng_ok conf s ls bs" and i: "i < MAX_TXJOBS" and io: "sends_ok io"
  obtains s' where "tx_checked io i s = Some s'" and "eng_ok conf s' ls bs" and "work_left conf s' ls = work_left conf s ls"
proof -
  let ?s1 = "update_DC (get_job s i) s"
  let ?s2 = "set_job i (set_flag TXFLAG_TXCHECKED) ?s1"
  have ok1: "eng_ok conf ?s1 ls bs" by (rule eng_ok_other [OF ok]) simp_all
  have g: "get_job ?s1 i = get_job s i" by (simp add: get_job_def)
  have f: "same_frame (get_job ?s1 i) (set_flag TXFLAG_TXCHECKED (get_job ?s1 i))"
    "alike conf (get_job ?s1 i) (set_flag TXFLAG_TXCHECKED (get_job ?s1 i))"
    by (simp_all add: same_frame_def alike_def set_flag_def alts_left_def)
  note ok2 = eng_ok_set_job [OF ok1 i, where f = "set_flag TXFLAG_TXCHECKED", OF f]
  obtain s' where s': "send_dntxed io (get_job ?s2 i) ?s2 = Some s'" using io by (auto simp: sends_ok_def)
  obtain o' where o': "s' = ?s2\<lparr>s_out := o'\<rparr>" using send_dntxed_out [OF s'] by blast
  have "work_left conf ?s1 ls = work_left conf s ls" by (rule work_left_other) simp
  then have w: "work_left conf s' ls = work_left conf s ls" using ok2(2) work_left_other [of s' ?s2] by (simp add: o')
  have e: "eng_ok conf s' ls bs" by (rule eng_ok_other [OF ok2(1)]) (simp_all add: o')
  show ?thesis by (rule that [OF _ e w]) (simp add: tx_checked_def Let_def s')
qed

lemma check_alt_step:
  assumes ok: "eng_ok conf s ls bs" and u: "u < MAX_TXUNITS" and l: "ls ! Suc u = i # ys"
  obtains s' ls' bs' where "next_check_alt conf clock now u i s = Some (None, s')" and "eng_ok conf s' ls' bs'"
    and "work_left conf s' ls' < work_left conf s ls" and "s_out s' = s_out s"
proof -
  let ?ls = "ls[Suc u := [] @ ys]"
  have l2: "ls ! Suc u = [] @ i # ys" using l by simp
  obtain s1 where s1: "unq (LHead u) s = Some s1" "eng_ok conf s1 ?ls bs" "same_ctx s s1" "placeable conf s1 ?ls bs i"
    "next_only (s_txq s) (s_txq s1)" "i \<notin> queued ?ls" "job_ok conf (s_ts s1) (get_job s1 i)"
    "work_left conf s1 ?ls + alts_left conf (get_job s1 i) + 1 = work_left conf s ls"
    by (rule unq_some [OF ok u l2, unfolded link_at_head]) (rule that)
  obtain s2 ls2 bs2 where s2: "relocate_or_free conf clock now i s1 = Some s2" "eng_ok conf s2 ls2 bs2" "same_ctx s1 s2"
    "work_left conf s2 ls2 < work_left conf s1 ?ls + alts_left conf (get_job s1 i) + 1"
    using relocate_some [OF s1(2,4,6,7), of clock now] by metis
  show ?thesis
    by (rule that [of s2 ls2 bs2])
      (use s1 s2 same_ctx_fields(5) [OF s1(3)] same_ctx_fields(5) [OF s2(3)] in \<open>simp_all add: next_check_alt_def\<close>)
qed

lemma xtime2xtime_some: "u < MAX_TXUNITS \<Longrightarrow> ts_xtime2xtime t x u \<noteq> None"
  by (simp add: ts_xtime2xtime_def Let_def)

lemma exact_time_some:
  assumes "job_ok conf (s_ts s) j" and "u < MAX_TXUNITS"
  obtains j' where "exact_time conf u s j = Some j'" and "same_frame j j'" and "alike conf j j'" and "j_airtime j' = j_airtime j"
    and "j_gpstime j = 0 \<Longrightarrow> j_txtime j' = j_txtime j"
proof (cases "j_gpstime j = 0")
  case True
  obtain x where "ts_xtime2xtime (s_ts s) (j_xtime j) u = Some x" using xtime2xtime_some [OF assms(2)] by blast
  then show ?thesis
    using True by (intro that [of "if ral_xtime2txunit (j_xtime j) \<noteq> u then j\<lparr>j_xtime := x\<rparr> else j"])
      (simp_all add: exact_time_def same_frame_def alike_def alts_left_def)
next
  case False
  have "ts_gpstime2xtime conf (s_ts s) u (j_gpstime j) \<noteq> None" using assms(2) by (simp add: ts_gpstime2xtime_def Let_def)
  then obtain x where x: "ts_gpstime2xtime conf (s_ts s) u (j_gpstime j) = Some x" by blast
  then obtain t where "ts_xtime2ustime (s_ts s) x = Some t" using assms False unfolding job_ok_def by blast
  then show ?thesis
    using False x by (intro that [of "j\<lparr>j_xtime := x, j_txtime := t\<rparr>"]) (simp_all add: exact_time_def same_frame_def alike_def alts_left_def)
qed

text \<open>A result of a round: the queues are in order, and another round has less to do.\<close>

definition round_ok :: "s2conf \<Rightarrow> nat \<Rightarrow> (ustime option \<times> s2ctx) option \<Rightarrow> bool" where
  "round_ok conf w r \<longleftrightarrow> (\<exists>t s' ls' bs'. r = Some (t, s') \<and> eng_ok conf s' ls' bs' \<and> (t = None \<longrightarrow> work_left conf s' ls' < w))"

lemma round_okI: "r = Some (t, s') \<Longrightarrow> eng_ok conf s' ls' bs' \<Longrightarrow> (t = None \<Longrightarrow> work_left conf s' ls' < w) \<Longrightarrow> round_ok conf w r"
  by (auto simp: round_ok_def)

lemma check_alt_round:
  assumes "eng_ok conf s ls bs" and "u < MAX_TXUNITS" and "ls ! Suc u = i # ys" and "work_left conf s ls = w"
  shows "round_ok conf w (next_check_alt conf clock now u i s)"
  using check_alt_step [OF assms(1-3), of clock now] assms(4) by (metis round_okI)

lemma txing_round:
  assumes ok: "eng_ok conf s ls bs" and u: "u < MAX_TXUNITS" and l: "ls ! Suc u = i # ys" and io: "sends_ok io"
  shows "round_ok conf (work_left conf s ls) (next_txing conf io clock now u i s)"
proof -
  let ?j = "get_job s i"
  have k: "Suc u < length ls" using eng_ok_len [OF ok] u by simp
  have "i \<in> queued ls" using k l unfolding queued_def by (intro UN_I [of "Suc u"]) simp_all
  then have i: "i < MAX_TXJOBS" by (rule queued_le [OF ok])
  let ?done = "now \<ge> j_txtime ?j + int (j_airtime ?j)"
  consider (over) "?done" | (checked) "\<not> ?done" "has_flag TXFLAG_TXCHECKED ?j"
    | (early) "\<not> ?done" "\<not> has_flag TXFLAG_TXCHECKED ?j" "j_txtime ?j - now > - TXCHECK_FUDGE conf"
    | (failed) "\<not> ?done" "\<not> has_flag TXFLAG_TXCHECKED ?j" "\<not> j_txtime ?j - now > - TXCHECK_FUDGE conf"
        "io_ral_txstatus io (length (s_out s)) \<noteq> TXSTATUS_EMITTING"
    | (on_air) "\<not> ?done" "\<not> has_flag TXFLAG_TXCHECKED ?j" "\<not> j_txtime ?j - now > - TXCHECK_FUDGE conf"
        "io_ral_txstatus io (length (s_out s)) = TXSTATUS_EMITTING"
    by blast
  then show ?thesis
  proof cases
    case over
    obtain s0 where s0: "tx_checked io i s = Some s0" "eng_ok conf s0 ls bs" "work_left conf s0 ls = work_left conf s ls"
      by (rule tx_checked_some [OF ok i io])
    obtain s1 where s1: "(if has_flag TXFLAG_TXCHECKED ?j then Some s else tx_checked io i s) = Some s1" "eng_ok conf s1 ls bs"
      "work_left conf s1 ls = work_left conf s ls"
      using s0 ok by (cases "has_flag TXFLAG_TXCHECKED ?j") auto
    have l2: "ls ! Suc u = [] @ i # ys" using l by simp
    obtain s2 where s2: "unq (LHead u) s1 = Some s2" "eng_ok conf s2 (ls[Suc u := [] @ ys]) bs" "placeable conf s2 (ls[Suc u := [] @ ys]) bs i"
      "i \<notin> queued (ls[Suc u := [] @ ys])"
      "work_left conf s2 (ls[Suc u := [] @ ys]) + alts_left conf (get_job s2 i) + 1 = work_left conf s1 ls"
      using unq_some [OF s1(2) u l2, unfolded link_at_head] by metis
    let ?ls = "ls[Suc u := [] @ ys]"
    have t2: "txq_ok (s_txq s2) ?ls bs" "nxt (s_txq s2) i = TXIDX_NIL" using s2(3) by (simp_all add: placeable_def)
    obtain q' where q': "txq_freeJob i (s_txq s2) = Some q'" "txq_ok q' (?ls[0 := i # ?ls ! 0]) (remove1 i bs)"
      using txq_freeJob_ok [OF t2(1) i t2(2)] by blast
    let ?s = "s2\<lparr>s_txq := q'\<rparr>" and ?ls2 = "?ls[0 := i # ?ls ! 0]"
    have "length (txjobs (s_txq s2)) = MAX_TXJOBS" using t2 by (simp add: txq_ok_def data_ok_def)
    then have "\<exists>n x. get_job ?s m = (get_job s2 m)\<lparr>j_next := n, j_off := x\<rparr>" if "m \<in> queued ?ls" for m
      using txq_freeJob_alike(1) [OF q'(1), of m] that s2(4) queued_le [OF s2(2) that] by (cases "m = i") (simp_all add: get_job_def)
    then have al: "alike conf (get_job s2 m) (get_job ?s m)" if "m \<in> queued ?ls" for m
      using that by (fastforce simp: alike_def alts_left_def)
    have "length (heads q') = MAX_TXUNITS" using next_only_heads [OF q'(2) t2(1)] s2(2) by (simp add: eng_ok_def)
    then have "eng_ok conf ?s ?ls2 (remove1 i bs)"
      using s2(2) q'(2) job_ok_alike [OF al] by (simp add: eng_ok_def rates_ok_def)
    moreover have "work_left conf ?s ?ls2 = work_left conf s2 ?ls"
      using work_left_alike [of ?ls conf s2 ?s] al by (simp add: work_left_def)
    moreover have "next_txing conf io clock now u i s = Some (None, ?s)"
      using over s1(1) s2(1) q'(1) by (auto simp: next_txing_def Let_def)
    moreover have "work_left conf s2 ?ls < work_left conf s ls" using s1(3) s2(5) by simp
    ultimately show ?thesis by (intro round_okI [of _ None ?s conf ?ls2 "remove1 i bs"]) simp_all
  next
    case checked
    then show ?thesis using ok by (intro round_okI [of _ "Some (j_txtime ?j + int (j_airtime ?j))" s]) (simp_all add: next_txing_def Let_def)
  next
    case early
    then show ?thesis using ok by (intro round_okI [of _ "Some (j_txtime ?j + TXCHECK_FUDGE conf)" s]) (simp_all add: next_txing_def Let_def)
  next
    case failed
    let ?s1 = "s\<lparr>s_out := s_out s @ [RadioAbort u]\<rparr>"
    have ok1: "eng_ok conf ?s1 ls bs" by (rule eng_ok_other [OF ok]) simp_all
    have g: "get_job ?s1 i = ?j" by (simp add: get_job_def)
    have f: "same_frame (get_job ?s1 i) (clr_flag TXFLAG_TXING (get_job ?s1 i))" "alike conf (get_job ?s1 i) (clr_flag TXFLAG_TXING (get_job ?s1 i))"
      by (simp_all add: same_frame_def alike_def clr_flag_def alts_left_def)
    note ok2 = eng_ok_set_job [OF ok1 i, where f = "clr_flag TXFLAG_TXING", OF f]
    have w: "work_left conf (set_job i (clr_flag TXFLAG_TXING) ?s1) ls = work_left conf s ls" using ok2(2) work_left_other [of ?s1 s] by simp
    have "next_txing conf io clock now u i s = next_check_alt conf clock now u i (set_job i (clr_flag TXFLAG_TXING) ?s1)"
      using failed by (simp add: next_txing_def Let_def)
    then show ?thesis using check_alt_round [OF ok2(1) u l w] by simp
  next
    case on_air
    obtain s1 where s1: "tx_checked io i s = Some s1" "eng_ok conf s1 ls bs" using tx_checked_some [OF ok i io] by metis
    then show ?thesis
      using on_air by (intro round_okI [of _ "Some (j_txtime ?j + int (j_airtime ?j))" s1]) (simp_all add: next_txing_def Let_def)
  qed
qed

lemma head_round:
  assumes ok: "eng_ok conf s ls bs" and u: "u < MAX_TXUNITS" and l: "ls ! Suc u = i # ys"
  shows "round_ok conf (work_left conf s ls) (next_head conf io clock now u i s)"
proof -
  have k: "Suc u < length ls" using eng_ok_len [OF ok] u by simp
  have iq: "i \<in> queued ls" using k l unfolding queued_def by (intro UN_I [of "Suc u"]) simp_all
  then have i: "i < MAX_TXJOBS" by (rule queued_le [OF ok])
  have "job_ok conf (s_ts s) (get_job s i)" using ok iq by (simp add: eng_ok_def)
  then obtain j where j: "exact_time conf u s (get_job s i) = Some j" "same_frame (get_job s i) j" "alike conf (get_job s i) j"
    by (rule exact_time_some [OF _ u])
  let ?s1 = "set_job i (\<lambda>_. j) s"
  note ok1 = eng_ok_set_job [OF ok i, where f = "\<lambda>_. j", OF j(2,3)]
  obtain h where h: "hindered conf (s_txq ?s1) (j_txtime j + int (j_airtime j)) (calcPriority conf j) i = Some h"
    using hindered_some [OF ok1(1) u, of "[]" i ys] l by auto
  let ?s2 = "?s1\<lparr>s_out := s_out ?s1 @ [RadioTx u j (ccaDisabled ?s1)]\<rparr>"
  have ok2: "eng_ok conf ?s2 ls bs" by (rule eng_ok_other [OF ok1(1)]) simp_all
  have w2: "work_left conf ?s2 ls = work_left conf s ls" using ok1(2) work_left_other [of ?s2 ?s1] by simp
  let ?f = "set_flag TXFLAG_TXING"
  have f: "same_frame (get_job ?s2 i) (?f (get_job ?s2 i))" "alike conf (get_job ?s2 i) (?f (get_job ?s2 i))"
    by (simp_all add: same_frame_def alike_def set_flag_def alts_left_def)
  note ok3 = eng_ok_set_job [OF ok2 i, where f = ?f, OF f]
  obtain s4 ls4 bs4 where s4: "displace conf clock now (j_txtime j + int (j_airtime j)) i (set_job i ?f ?s2) = Some s4" "eng_ok conf s4 ls4 bs4"
    using displace_some [OF ok3(1) u, of i clock now "j_txtime j + int (j_airtime j)"] l by auto
  let ?refuse = "j_xtime j = 0 \<or> (dcDisabled ?s1 = 0 \<and> call_canTx ?s1 j = 0)"
  consider "?refuse" | "\<not> ?refuse" h | "\<not> ?refuse" "\<not> h" "io_ral_tx io (length (s_out ?s1)) \<noteq> RAL_TX_OK"
    | "\<not> ?refuse" "\<not> h" "io_ral_tx io (length (s_out ?s1)) = RAL_TX_OK" by blast
  then show ?thesis
  proof cases
    case 1
    then have "next_head conf io clock now u i s = next_check_alt conf clock now u i ?s1" by (simp add: next_head_def j(1))
    then show ?thesis using check_alt_round [OF ok1(1) u l ok1(2)] by simp
  next
    case 2
    then have "next_head conf io clock now u i s = next_check_alt conf clock now u i ?s1" using h by (auto simp: next_head_def j(1) Let_def)
    then show ?thesis using check_alt_round [OF ok1(1) u l ok1(2)] by simp
  next
    case 3
    then have "next_head conf io clock now u i s = next_check_alt conf clock now u i ?s2"
      using h by (auto simp: next_head_def j(1) Let_def)
    then show ?thesis using check_alt_round [OF ok2 u l w2] by simp
  next
    case 4
    then have "next_head conf io clock now u i s = Some (Some (j_txtime j + TXCHECK_FUDGE conf), s4)"
      using h s4(1) by (auto simp: next_head_def j(1) Let_def)
    then show ?thesis by (rule round_okI [OF _ s4(2)]) simp
  qed
qed

lemma step_round:
  assumes ok: "eng_ok conf s ls bs" and u: "u < MAX_TXUNITS" and io: "sends_ok io"
  shows "round_ok conf (work_left conf s ls) (next_step conf io clock now u s)"
proof -
  have t: "txq_ok (s_txq s) ls bs" "u < length (heads (s_txq s))" using ok u by (simp_all add: eng_ok_def)
  note hd = head_idx [OF t]
  show ?thesis
  proof (cases "ls ! Suc u")
    case Nil
    then have "next_step conf io clock now u s = Some (Some USTIME_MAX, s)" using hd u by (simp add: next_step_def Let_def)
    then show ?thesis by (rule round_okI [OF _ ok]) simp
  next
    case (Cons i ys)
    let ?j = "get_job s i"
    have k: "Suc u < length ls" using eng_ok_len [OF ok] u by simp
    have i: "i < MAX_TXJOBS" "i \<noteq> TXIDX_END" using queued_index [OF t(1) k, of i] Cons by simp_all
    have step: "next_step conf io clock now u s =
      (if has_flag TXFLAG_TXING ?j then next_txing conf io clock now u i s
       else if j_txtime ?j - now < TX_MIN_GAP conf then next_check_alt conf clock now u i s
       else if j_txtime ?j - now > TX_AIM_GAP conf then Some (Some (j_txtime ?j - TX_AIM_GAP conf), s)
       else next_head conf io clock now u i s)"
      using hd Cons u i by (simp add: next_step_def Let_def)
    show ?thesis
      unfolding step
      using txing_round [OF ok u Cons io] check_alt_round [OF ok u Cons refl] head_round [OF ok u Cons] ok
      by (auto intro: round_okI)
  qed
qed


definition quiet_io :: s2io where
  "quiet_io = \<lparr>io_sendbuf = (\<lambda>_ _. None), io_ral_tx = (\<lambda>_. 0), io_ral_txstatus = (\<lambda>_. 0)\<rparr>"


section \<open>What the radio gets\<close>

text \<open>The jobs among some output that went to the radio.\<close>

definition radio_jobs :: "s2out list \<Rightarrow> (nat \<times> txjob) list" where
  "radio_jobs evs = concat (map (\<lambda>e. case e of RadioTx u j c \<Rightarrow> [(u, j)] | _ \<Rightarrow> []) evs)"

lemma radio_jobs_simps [simp]: "radio_jobs [] = []" "radio_jobs (evs @ evs') = radio_jobs evs @ radio_jobs evs'"
  "radio_jobs [RadioTx u j c] = [(u, j)]" "radio_jobs [SendText t] = []" "radio_jobs [RadioAbort u] = []"
  by (simp_all add: radio_jobs_def)

lemma send_dntxed_radio: "send_dntxed io j s = Some s' \<Longrightarrow> radio_jobs (s_out s') = radio_jobs (s_out s)"
  by (auto simp: send_dntxed_def send_text_def bind_eq_Some_conv split: if_splits option.splits)

lemma tx_checked_radio: "tx_checked io i s = Some s' \<Longrightarrow> radio_jobs (s_out s') = radio_jobs (s_out s)"
  using send_dntxed_radio [of io _ "set_job i (set_flag TXFLAG_TXCHECKED) (update_DC (get_job s i) s)" s']
  by (simp add: tx_checked_def Let_def set_job_def)

lemma txing_radio:
  assumes ok: "eng_ok conf s ls bs" and u: "u < MAX_TXUNITS" and l: "ls ! Suc u = i # ys"
    and r: "next_txing conf io clock now u i s = Some (t, s')"
  shows "radio_jobs (s_out s') = radio_jobs (s_out s)"
proof -
  have k: "Suc u < length ls" using eng_ok_len [OF ok] u by simp
  have "i \<in> queued ls" using k l unfolding queued_def by (intro UN_I [of "Suc u"]) simp_all
  then have i: "i < MAX_TXJOBS" by (rule queued_le [OF ok])
  let ?s1 = "s\<lparr>s_out := s_out s @ [RadioAbort u]\<rparr>"
  have ok1: "eng_ok conf ?s1 ls bs" by (rule eng_ok_other [OF ok]) simp_all
  have f: "same_frame (get_job ?s1 i) (clr_flag TXFLAG_TXING (get_job ?s1 i))" "alike conf (get_job ?s1 i) (clr_flag TXFLAG_TXING (get_job ?s1 i))"
    by (simp_all add: same_frame_def alike_def clr_flag_def alts_left_def)
  note ok2 = eng_ok_set_job(1) [OF ok1 i, where f = "clr_flag TXFLAG_TXING", OF f]
  obtain s2 where "next_check_alt conf clock now u i (set_job i (clr_flag TXFLAG_TXING) ?s1) = Some (None, s2)"
    "s_out s2 = s_out (set_job i (clr_flag TXFLAG_TXING) ?s1)"
    by (rule check_alt_step [OF ok2 u l, of clock now]) (rule that)
  then show ?thesis
    using r by (auto simp: next_txing_def Let_def bind_eq_Some_conv unq_def set_job_def dest: tx_checked_radio split: if_splits)
qed


text \<open>A station with one job for unit 0 that starts at 15 ms.\<close>

definition ready_job :: s2ctx where
  "ready_job = set_job 0 (\<lambda>j. j\<lparr>j_txtime := 15000, j_xtime := 15000\<rparr>)
     (s2ctx_example\<lparr>s_txq := the (txq_insJob (LHead 0) 0 one_job)\<rparr>)"

lemma ready_job_ok:
  "eng_ok dflt_conf ready_job ([1..<MAX_TXJOBS] # [0] # replicate 3 []) []"
  "\<exists>x. get_job ready_job 0 = zero_txjob\<lparr>j_next := TXIDX_END, j_off := x, j_txtime := 15000, j_xtime := 15000\<rparr>"
  "canTx ready_job = CanTxOK"
proof -
  let ?ls = "[1..<MAX_TXJOBS] # replicate MAX_TXUNITS []"
  have k: "1 < length ?ls" "?ls ! 1 = [] @ []" by (simp_all add: MAX_TXUNITS_def)
  obtain q where q: "txq_insJob (link_at 1 []) 0 one_job = Some q" "txq_ok q (?ls[1 := [] @ 0 # []]) []" "next_only one_job q"
    using txq_insJob_ok [OF one_job_ok(1) k _ one_job_ok(2)] by (auto simp: MAX_TXJOBS_def)
  have q1: "the (txq_insJob (LHead 0) 0 one_job) = q" using q(1) by (simp add: link_at_def head_link_def)
  have ls: "?ls[1 := [] @ 0 # []] = [1..<MAX_TXJOBS] # [0] # replicate 3 []" by (simp add: MAX_TXUNITS_def numeral_eq_Suc)
  note ok = q(2) [unfolded ls]
  have en: "nxt q 0 = TXIDX_END" using rd_link_at [of q "[1..<MAX_TXJOBS] # [0] # replicate 3 []" 1 "[0]" "[]"] ok
    by (simp add: txq_ok_def link_at_def nxt_def)
  obtain x where x: "txjobs q ! 0 = zero_txjob\<lparr>j_next := TXIDX_END, j_off := x\<rparr>"
    using next_only_job [OF q(3), of 0] one_job_ok(4) en by (fastforce simp: zero_txjob_def)
  let ?s = "s2ctx_example\<lparr>s_txq := q\<rparr>"
  have heads: "length (heads q) = MAX_TXUNITS" using txq_ok_ls [OF ok] by (simp add: MAX_TXUNITS_def)
  have qu: "queued ([1..<MAX_TXJOBS] # [0] # replicate 3 []) = {0}" by (auto simp: queued_def nth_Cons numeral_eq_Suc split: nat.splits)
  have e: "eng_ok dflt_conf ?s ([1..<MAX_TXJOBS] # [0] # replicate 3 []) []"
    using ok heads x by (simp add: eng_ok_def qu [simplified] job_ok_def get_job_def zero_txjob_def s2ctx_example_def s2e_ini_def setDC_def Let_def
      rates_ok_def dflt_conf_def MAX_TXUNITS_def ral_rctx2txunit_def)
  let ?f = "\<lambda>j. j\<lparr>j_txtime := 15000, j_xtime := 15000\<rparr>"
  have r: "ready_job = set_job 0 ?f ?s" by (simp add: ready_job_def q1)
  have f: "same_frame (get_job ?s 0) (?f (get_job ?s 0))" "alike dflt_conf (get_job ?s 0) (?f (get_job ?s 0))"
    by (simp_all add: same_frame_def alike_def alts_left_def)
  show "eng_ok dflt_conf ready_job ([1..<MAX_TXJOBS] # [0] # replicate 3 []) []"
    unfolding r by (rule eng_ok_set_job(1) [where f = ?f, OF e _ f]) (simp add: MAX_TXJOBS_def)
  have "0 < length (txjobs q)" using ok by (simp add: txq_ok_def data_ok_def MAX_TXJOBS_def)
  then show "\<exists>x. get_job ready_job 0 = zero_txjob\<lparr>j_next := TXIDX_END, j_off := x, j_txtime := 15000, j_xtime := 15000\<rparr>"
    by (intro exI [of _ x]) (simp add: r get_set_job, simp add: get_job_def x)
  show "canTx ready_job = CanTxOK" by (simp add: r set_job_def s2ctx_example_def s2e_ini_def setDC_def Let_def)
qed


end
