(* ===== verification/Lora.thy ===== *)
theory Lora
  imports AirTime
begin

text \<open>
  src/src/lora.c: the parser of received frames. A frame is the memory from its first byte to the end of the
  array that holds it, and its length; reads behind the frame stay defined as long as they are inside that
  memory. \<open>None\<close> is an access outside of an object, a missing result, or a loop that never ends. The text for the
  log and the flag \<open>is_lorawan\<close>, which no caller reads, are left out.
\<close>

section \<open>Constants\<close>

definition MHDR_FTYPE :: u1 where "MHDR_FTYPE = 0xE0"
definition FRMTYPE_JREQ :: u1 where "FRMTYPE_JREQ = 0x00"
definition FRMTYPE_REJOIN :: u1 where "FRMTYPE_REJOIN = 0xC0"
definition FRMTYPE_PROP :: u1 where "FRMTYPE_PROP = 0xE0"
definition MAJOR_V1 :: u1 where "MAJOR_V1 = 0"
definition OFF_joineui :: nat where "OFF_joineui = 1"
definition OFF_deveui :: nat where "OFF_deveui = 9"
definition OFF_devnonce :: nat where "OFF_devnonce = 17"
definition OFF_jreq_len :: nat where "OFF_jreq_len = 23"
definition OFF_devaddr :: nat where "OFF_devaddr = 1"
definition OFF_fctrl :: nat where "OFF_fctrl = 5"
definition OFF_fopts :: nat where "OFF_fopts = 8"
definition OFF_df_minlen :: nat where "OFF_df_minlen = 12"

text \<open>\<open>MHDR_RFU\<close> and \<open>MHDR_MAJOR\<close> are the lowest five bits of the first byte, the type is in the others.\<close>

definition mhdr_rfu_major :: "u1 \<Rightarrow> u1" where "mhdr_rfu_major h = h mod 32"
definition frame_type :: "u1 \<Rightarrow> u1" where "frame_type h = h div 32 * 32"

lemmas lora_consts = MHDR_FTYPE_def FRMTYPE_JREQ_def FRMTYPE_REJOIN_def FRMTYPE_PROP_def MAJOR_V1_def OFF_joineui_def OFF_deveui_def
  OFF_devnonce_def OFF_jreq_len_def OFF_devaddr_def OFF_fctrl_def OFF_fopts_def OFF_df_minlen_def

section \<open>Fields\<close>

text \<open>Numbers with the highest byte first; the fields with type letters \<open>i\<close>, \<open>E\<close>, \<open>H\<close> and \<open>s\<close>.\<close>

definition be2 :: "bytes \<Rightarrow> nat \<Rightarrow> nat" where "be2 f i = f ! i * 2 ^ 8 + f ! (i + 1)"
definition be3 :: "bytes \<Rightarrow> nat \<Rightarrow> nat" where "be3 f i = be2 f i * 2 ^ 8 + f ! (i + 2)"
definition be4 :: "bytes \<Rightarrow> nat \<Rightarrow> nat" where "be4 f i = be3 f i * 2 ^ 8 + f ! (i + 3)"
definition be8 :: "bytes \<Rightarrow> nat \<Rightarrow> nat" where "be8 f i = be4 f i * 2 ^ 32 + be4 f (i + 4)"

definition kv_int :: "bytes \<Rightarrow> int \<Rightarrow> farg list" where
  "kv_int key v = [FStr (Some key), FInt 105, FInt (to_s 32 v)]"

definition kv_eui :: "bytes \<Rightarrow> uL \<Rightarrow> farg list" where
  "kv_eui key v = [FStr (Some key), FInt 69, FLong v]"

definition kv_hex :: "bytes \<Rightarrow> bytes \<Rightarrow> farg list" where
  "kv_hex key d = [FStr (Some key), FInt 72, FInt (int (length d)), FMem (Some d)]"

definition kv_str :: "bytes \<Rightarrow> bytes \<Rightarrow> farg list" where
  "kv_str key t = [FStr (Some key), FInt 115, FStr (Some t)]"

text \<open>\<open>uj_encKV\<close> of one such field.\<close>

definition encKV1 :: "farg list \<Rightarrow> dbuf \<Rightarrow> dbuf option" where
  "encKV1 field b = (case field of FStr key # FInt letter # args \<Rightarrow> uj_encKV key (nat letter) args b | _ \<Rightarrow> None)"

section \<open>Records of tagged frames\<close>

text \<open>What one round of the loop over the records does: return, or go on behind the record.\<close>

datatype lora_next = Ret nat dbuf | Again u1 dbuf

text \<open>A record with a GNSS scan: \<open>size\<close> is not checked to hold the 8 bytes in front of the scan.\<close>

definition gnss_record :: "bytes \<Rightarrow> nat \<Rightarrow> u1 \<Rightarrow> dbuf \<Rightarrow> lora_next option" where
  "gnss_record f len off b =
     (let size = f ! (off + 1) in
      if off + 2 + size > len then Some (Ret 0 b)
      else
        let gnss_len = to_u 8 (int size - 8) in
        if length f < off + 10 + gnss_len then None
        else do {
          b \<leftarrow> uj_encKVn (kv_int (bytes_of ''GNSS_TS'') (int (rt_rlsbf4 f (off + 2))) @
                 kv_int (bytes_of ''GNSS_Status'') (int (be4 f (off + 6))) @
                 kv_hex (bytes_of ''GNSS'') (blk (off + 10) gnss_len f) @ [FStr None]) b;
          Some (Again ((off + 2 + size) mod 256) b) })"

text \<open>
  A record with WiFi beacons: of the 8 bytes of a beacon all but the second are printed. The texts are written
  to a buffer of 512 bytes without a check.
\<close>

definition hex_pair :: "nat \<Rightarrow> bytes" where
  "hex_pair v = [hex_digit True (v div 16 mod 16), hex_digit True (v mod 16)]"

definition mac_quoted :: "bytes \<Rightarrow> bytes" where
  "mac_quoted m = 34 # hex_pair (m ! 0) @ concat (map (\<lambda>j. 58 # hex_pair (m ! j)) [2..<8]) @ [34]"

fun macs_list :: "bytes list \<Rightarrow> bytes" where
  "macs_list [] = []"
| "macs_list [m] = mac_quoted m"
| "macs_list (m # ms) = mac_quoted m @ 44 # macs_list ms"

definition macs_text :: "bytes list \<Rightarrow> bytes" where
  "macs_text ms = 91 # macs_list ms @ [93]"

definition wifi_record :: "bytes \<Rightarrow> nat \<Rightarrow> u1 \<Rightarrow> dbuf \<Rightarrow> lora_next option" where
  "wifi_record f len off b =
     (let size = f ! (off + 1) in
      if off + 2 + size > len then Some (Ret 0 b)
      else
        let mac_count = to_u 8 (c_div (int size - 4) 8);
            macs = macs_text (map (\<lambda>i. blk (off + 6 + i * 8) 8 f) [0..<mac_count]) in
        if length f < off + 6 + mac_count * 8 then None
        else if length macs + 1 > 512 then None
        else do {
          b \<leftarrow> uj_encKVn (kv_int (bytes_of ''WiFi_TS'') (int (rt_rlsbf4 f (off + 2))) @
                 kv_str (bytes_of ''WiFi_MACs'') macs @ [FStr None]) b;
          Some (Again ((off + 2 + size) mod 256) b) })"

text \<open>A block with the state of the device.\<close>

record dev_state =
  d_batt :: "nat option"
  d_energy :: "nat option"
  d_carga :: "nat option"
  d_flags :: "nat option"
  d_resets :: "nat option"
  d_temp :: "nat option"

definition no_state :: dev_state where
  "no_state = \<lparr>d_batt = None, d_energy = None, d_carga = None, d_flags = None, d_resets = None, d_temp = None\<rparr>"

text \<open>The size of an item by its code, and the value it sets.\<close>

definition item_size :: "u1 \<Rightarrow> nat option" where
  "item_size c =
     (if c = 0x10 then Some 3 else if c = 0x11 then Some 5 else if c = 0x12 then Some 5 else if c = 0x30 then Some 2
      else if c = 0x40 then Some 4 else if c = 0x50 then Some 2 else None)"

definition item_set :: "bytes \<Rightarrow> nat \<Rightarrow> dev_state \<Rightarrow> dev_state" where
  "item_set f off v =
     (let c = f ! off in
      if c = 0x10 then v\<lparr>d_batt := Some (be2 f (off + 1))\<rparr>
      else if c = 0x11 then v\<lparr>d_energy := Some (be4 f (off + 1))\<rparr>
      else if c = 0x12 then v\<lparr>d_carga := Some (be4 f (off + 1))\<rparr>
      else if c = 0x30 then v\<lparr>d_flags := Some (f ! (off + 1))\<rparr>
      else if c = 0x40 then v\<lparr>d_resets := Some (be3 f (off + 1))\<rparr>
      else if c = 0x50 then v\<lparr>d_temp := Some (f ! (off + 1))\<rparr>
      else v)"

text \<open>The offset has 8 bits; items are not checked to end inside the frame.\<close>

partial_function (option) state_items :: "bytes \<Rightarrow> nat \<Rightarrow> u1 \<Rightarrow> dev_state \<Rightarrow> (u1 \<times> dev_state) option" where
  "state_items f len off v =
     (if \<not> off < len then Some (off, v)
      else if length f \<le> off then None
      else (case item_size (f ! off) of
          None \<Rightarrow> Some (off, v)
        | Some n \<Rightarrow> if length f < off + n then None else state_items f len ((off + n) mod 256) (item_set f off v)))"

definition enc_item :: "string \<Rightarrow> nat option \<Rightarrow> dbuf \<Rightarrow> dbuf option" where
  "enc_item key v b = (case v of None \<Rightarrow> Some b | Some x \<Rightarrow> encKV1 (kv_int (bytes_of key) (int x)) b)"

definition state_record :: "bytes \<Rightarrow> nat \<Rightarrow> u1 \<Rightarrow> dbuf \<Rightarrow> lora_next option" where
  "state_record f len off b = do {
     (off, v) \<leftarrow> state_items f len off no_state;
     b \<leftarrow> enc_item ''Batt'' (d_batt v) b;
     b \<leftarrow> enc_item ''Ener'' (d_energy v) b;
     b \<leftarrow> enc_item ''Charge '' (d_carga v) b;
     b \<leftarrow> enc_item ''Flags'' (d_flags v) b;
     b \<leftarrow> enc_item ''Resets'' (d_resets v) b;
     b \<leftarrow> enc_item ''Temp'' (d_temp v) b;
     b \<leftarrow> uj_encKVn [FStr None] b;
     Some (Again off b) }"

definition lora_step :: "bytes \<Rightarrow> nat \<Rightarrow> u1 \<Rightarrow> dbuf \<Rightarrow> lora_next option" where
  "lora_step f len off b =
     (if \<not> off < len then Some (Ret 1 b)
      else if length f \<le> off then None
      else
        let code = f ! off in
        if code = 0x61 \<and> off + 2 < len then gnss_record f len off b
        else if code = 0x62 \<and> off + 2 < len then wifi_record f len off b
        else state_record f len off b)"

partial_function (option) lora_loop :: "bytes \<Rightarrow> nat \<Rightarrow> u1 \<Rightarrow> dbuf \<Rightarrow> (nat \<times> dbuf) option" where
  "lora_loop f len off b = do {
     r \<leftarrow> lora_step f len off b;
     (case r of Ret k b \<Rightarrow> Some (k, b) | Again off b \<Rightarrow> lora_loop f len off b) }"

definition tagged_frame :: "bytes \<Rightarrow> nat \<Rightarrow> dbuf \<Rightarrow> (nat \<times> dbuf) option" where
  "tagged_frame f len b = do {
     b \<leftarrow> encKV1 (kv_eui (bytes_of ''DevEUI'') (be8 f 1)) b;
     b \<leftarrow> encKV1 (kv_int (bytes_of ''FCnt'') (int (be4 f 10))) b;
     b \<leftarrow> encKV1 (kv_hex (bytes_of ''payload'') (take len f)) b;
     b \<leftarrow> encKV1 (kv_str (bytes_of ''msgtype'') (bytes_of ''lora'')) b;
     lora_loop f len 14 b }"

section \<open>LoRaWAN frames\<close>

text \<open>The ranges of the filter of join EUIs; a range that starts with 0 ends the list.\<close>

fun joineui_passes :: "uL list \<Rightarrow> uL \<Rightarrow> bool option" where
  "joineui_passes (lo # hi # rs) e =
     (if lo = 0 then Some False else if e \<ge> lo \<and> e \<le> hi then Some True else joineui_passes rs e)"
| "joineui_passes [lo] e = (if lo = 0 then Some False else None)"
| "joineui_passes [] e = None"

definition join_frame :: "s2ctx \<Rightarrow> bytes \<Rightarrow> nat \<Rightarrow> dbuf \<Rightarrow> (nat \<times> dbuf) option" where
  "join_frame s f len b =
     (if len \<noteq> OFF_jreq_len then Some (0, b)
      else if length f < len then None
      else do {
        let joineui = rt_rlsbf8 f OFF_joineui;
        first \<leftarrow> (case joineuiFilter s of [] \<Rightarrow> None | x # _ \<Rightarrow> Some x);
        pass \<leftarrow> (if first \<noteq> 0 then joineui_passes (joineuiFilter s) joineui else Some True);
        if \<not> pass then Some (0, b)
        else do {
          b \<leftarrow> uj_encKVn (kv_str (bytes_of ''msgtype'') (if frame_type (f ! 0) = FRMTYPE_JREQ then bytes_of ''jreq'' else bytes_of ''rejoin'') @
                 kv_int (bytes_of ''MHdr'') (int (f ! 0)) @ kv_eui (rt_joineui s) joineui @
                 kv_eui (rt_deveui s) (rt_rlsbf8 f OFF_deveui) @ kv_int (bytes_of ''DevNonce'') (int (rt_rlsbf2 f OFF_devnonce)) @
                 kv_int (bytes_of ''MIC'') (int (rt_rlsbf4 f (len - 4))) @ [FStr None]) b;
          Some (1, b) } })"

text \<open>Frames with data: behind the filters of lengths and network IDs the function ends without a result.\<close>

definition data_frame :: "s2ctx \<Rightarrow> bytes \<Rightarrow> nat \<Rightarrow> dbuf \<Rightarrow> (nat \<times> dbuf) option" where
  "data_frame s f len b =
     (if length f \<le> OFF_fctrl then None
      else
        let portoff = f ! OFF_fctrl mod 16 + OFF_fopts in
        if int portoff > int len - 4 then Some (0, b)
        else if length f < OFF_devaddr + 4 then None
        else
          let netid = rt_rlsbf4 f OFF_devaddr div 2 ^ 25 in
          if length (netidFilter s) \<le> netid div 32 then None
          else if \<not> bit (netidFilter s ! (netid div 32)) (netid mod 32) then Some (0, b)
          else None)"

definition s2e_parse_lora_frame :: "s2ctx \<Rightarrow> bytes \<Rightarrow> nat \<Rightarrow> dbuf \<Rightarrow> (nat \<times> dbuf) option" where
  "s2e_parse_lora_frame s f len b =
     (if len = 0 then Some (0, b)
      else if length f < len then None
      else
        let ftype = frame_type (f ! 0) in
        if len \<ge> 14 \<and> f ! 0 = 0x01 \<and> f ! 9 = 0x41 then tagged_frame f len b
        else if (len < OFF_df_minlen \<and> ftype \<noteq> FRMTYPE_PROP) \<or> mhdr_rfu_major (f ! 0) \<noteq> MAJOR_V1 then do {
          b \<leftarrow> uj_encKVn (kv_str (bytes_of ''msgtype'') (bytes_of ''lora'') @ kv_hex (bytes_of ''payload'') (take len f) @ [FStr None]) b;
          Some (1, b) }
        else if ftype = FRMTYPE_JREQ \<or> ftype = FRMTYPE_REJOIN then join_frame s f len b
        else data_frame s f len b)"

end
