(* ===== verification/S2eRx.thy ===== *)
theory S2eRx
  imports Lora
begin

text \<open>
  The reception part of src/src/s2e.c: a received frame is kept unless it mirrors a queued one, and the queue is flushed to
  the server as JSON. \<open>clock\<close> is the local time, \<open>verbose\<close> says that messages of the module with that level are logged, and
  the send buffers are those of \<open>s2io\<close>.
\<close>

section \<open>Mirror frames\<close>

definition s2e_nextRxjob :: "s2ctx \<Rightarrow> (nat option \<times> s2ctx) option" where
  "s2e_nextRxjob s = map_option (\<lambda>(p, q). (p, s\<lparr>s_rxq := q\<rparr>)) (rxq_nextJob (s_rxq s))"

definition mirrors :: "rxq \<Rightarrow> nat \<Rightarrow> nat \<Rightarrow> bool" where
  "mirrors q i p \<longleftrightarrow>
     (let a = rxjobs q ! p; b = rxjobs q ! i in
      r_dr a = r_dr b \<and> r_len a = r_len b \<and> blk (r_off a) (r_len b) (rxdata q) = blk (r_off b) (r_len b) (rxdata q))"

text \<open>
  In both branches for a mirror frame the code calls \<open>xprintf\<close> with the format as the buffer and the frequency
  as the format; there is nothing after that call.
\<close>

definition s2e_addRxjob :: "nat \<Rightarrow> s2ctx \<Rightarrow> s2ctx option" where
  "s2e_addRxjob i s =
     (if list_ex (mirrors (s_rxq s) i) [rx_first (s_rxq s)..<i] then None
      else map_option (\<lambda>q. s\<lparr>s_rxq := q\<rparr>) (rxq_commitJob i (s_rxq s)))"

section \<open>Reports to the server\<close>

definition frame_reftime :: "ustime \<Rightarrow> s2ctx \<Rightarrow> rat" where
  "frame_reftime clock s =
     (if muxtime s = 0 then 0 else fl (muxtime s + usec_double (ts_normalizeTimespanMCU (s_ts s) (clock - reftime s))))"

definition uplink_args :: "ustime \<Rightarrow> s2ctx \<Rightarrow> rxjob \<Rightarrow> sL \<Rightarrow> farg list" where
  "uplink_args clock s j gpstime =
     kv ''RefTime'' (CHR ''T'') (FDbl (frame_reftime clock s)) @
     kv ''DR'' (CHR ''i'') (FInt (int (r_dr j))) @
     kv ''Freq'' (CHR ''i'') (FInt (to_s 32 (int (r_freq j)))) @
     [FStr (Some (bytes_of ''upinfo'')), FInt 123] @
     kv_long ''rctx'' (r_rctx j) @ kv_long ''xtime'' (r_xtime j) @ kv_long ''gpstime'' gpstime @
     kv ''fts'' (CHR ''i'') (FInt (r_fts j)) @
     kv ''rssi'' (CHR ''i'') (FInt (- int (r_rssi j))) @
     kv ''snr'' (CHR ''g'') (FDbl (of_int (r_snr j) / 4)) @
     kv ''rxtime'' (CHR ''T'') (FDbl (usec_double (clock + rt_utcOffset (s_ts s)))) @
     [FStr (Some [125])]"

text \<open>One frame into a buffer of \<open>n\<close> bytes; the opening brace is written only when the frame is also logged.\<close>

definition flush_frame :: "s2conf \<Rightarrow> ustime \<Rightarrow> bool \<Rightarrow> nat \<Rightarrow> rxjob \<Rightarrow> s2ctx \<Rightarrow> s2ctx option" where
  "flush_frame conf clock verbose n j s = do {
     b \<leftarrow> (if verbose then uj_encOpen 123 (dbuf_of n) else Some (dbuf_of n));
     (k, b) \<leftarrow> s2e_parse_lora_frame s (drop (r_off j) (rxdata (s_rxq s))) (r_len j) b;
     if k = 0 then Some s
     else do {
       gpstime \<leftarrow> ts_xtime2gpstime conf (s_ts s) (r_xtime j);
       b \<leftarrow> uj_encKVn (uplink_args clock s j gpstime @ [FStr None]) b;
       (fits, b) \<leftarrow> xeos (uj_encClose 125 b);
       if fits = 0 then Some s else send_text b s } }"

partial_function (option) s2e_flushRxjobs :: "s2conf \<Rightarrow> s2io \<Rightarrow> ustime \<Rightarrow> bool \<Rightarrow> s2ctx \<Rightarrow> s2ctx option" where
  "s2e_flushRxjobs conf io clock verbose s =
     (let q = s_rxq s in
      if \<not> rx_first q < rx_next q then Some s
      else (case io_sendbuf io (length (s_out s)) MIN_UPJSON_SIZE of
          None \<Rightarrow> Some s
        | Some n \<Rightarrow> do {
            s \<leftarrow> flush_frame conf clock verbose n (rxjobs q ! rx_first q) (s\<lparr>s_rxq := q\<lparr>rx_first := (rx_first q + 1) mod 256\<rparr>\<rparr>);
            s2e_flushRxjobs conf io clock verbose s }))"

end
