(* ===== verification/LoraProps.thy ===== *)
theory LoraProps
  imports Lora UjObj
begin

text \<open>
  What the parser of src/src/lora.c reports: the abstract view of tagged frames as a list of records, and the fields
  of the message to the server for each.
\<close>

section \<open>Writers of fields\<close>

definition puts :: "(bytes \<times> kval) list \<Rightarrow> (dbuf \<Rightarrow> dbuf option) \<Rightarrow> bool" where
  "puts fs f \<longleftrightarrow> fields_ok fs \<and> writes (\<lambda>w. elems w (map kv_text fs)) f"

lemma elems_append [simp]: "elems w (ts @ us) = elems (elems w ts) us"
  by (simp add: elems_def)

lemma fields_plain: "fields_ok fs \<Longrightarrow> \<forall>t \<in> set (map kv_text fs). plain t"
  using kv_text_ends by (force simp: fields_ok_def)

lemma puts_nil: "puts [] Some"
  by (simp add: puts_def fields_ok_def writes_def)

lemma puts_bind:
  assumes "puts fs f" and "puts gs k"
  shows "puts (fs @ gs) (\<lambda>b. f b \<bind> k)"
proof -
  have "writes (\<lambda>w. elems (elems w (map kv_text fs)) (map kv_text gs)) (\<lambda>b. f b \<bind> k)"
    using assms fields_plain [of fs] unfolding puts_def
    by (intro writes_then [where g = "\<lambda>w. elems w (map kv_text gs)"] keeps_elems) (simp_all add: grows_def length_elems)
  then show ?thesis using assms by (auto simp: puts_def fields_ok_def)
qed

lemma puts_kvn:
  assumes "fields_ok fs"
  shows "puts fs (uj_encKVn (kv_args fs @ [FStr None]))"
proof -
  have "encKVn False [FStr None] = Some" by (rule ext) (subst encKVn.simps, simp)
  then have "writes (\<lambda>w. w) (encKVn False [FStr None])" by (simp add: writes_def)
  then have "writes (\<lambda>w. elems w (map kv_text fs)) (encKVn False (kv_args fs @ [FStr None]))"
    using assms kvn_fields [of fs "\<lambda>w. w" "[FStr None]"] encodes_all by (auto simp: fields_ok_def grows_def)
  then show ?thesis using assms by (simp add: puts_def uj_encKVn_def [abs_def])
qed

lemma puts_kv1:
  assumes "key_ok k" and "jarg_ok a"
  shows "puts [(k, KArg a)] (encKV1 (kv_args [(k, KArg a)]))"
proof -
  have x: "arg_letter a \<notin> {123, 91}" by (cases a) auto
  have e: "encKVn False [FStr None] b = Some b" for b by (subst encKVn.simps) simp
  have "encKV1 (kv_args [(k, KArg a)]) b = uj_encKVn (kv_args [(k, KArg a)] @ [FStr None]) b" for b
    using x encArg_jarg [OF assms(2), of "[FStr None]"] encArg_jarg [OF assms(2), of "[]"]
    by (auto simp: encKV1_def uj_encKV_def uj_encKVn_def kv_args_def kvn_key [OF assms(1)] e split: option.splits bind_splits)
  then have "encKV1 (kv_args [(k, KArg a)]) = uj_encKVn (kv_args [(k, KArg a)] @ [FStr None])" by (rule ext)
  then show ?thesis using puts_kvn [of "[(k, KArg a)]"] assms by (simp add: fields_ok_def)
qed

text \<open>The fields of the parser as keys with values.\<close>

definition f_int :: "string \<Rightarrow> nat \<Rightarrow> bytes \<times> kval" where
  "f_int key v = (bytes_of key, KArg (Ai (to_s 32 (int v))))"

definition f_hex :: "string \<Rightarrow> bytes \<Rightarrow> bytes \<times> kval" where
  "f_hex key d = (bytes_of key, KArg (AH d))"

definition f_str :: "string \<Rightarrow> bytes \<Rightarrow> bytes \<times> kval" where
  "f_str key t = (bytes_of key, KArg (As (Some t)))"

definition f_eui :: "bytes \<Rightarrow> uL \<Rightarrow> bytes \<times> kval" where
  "f_eui key v = (key, KArg (AE v))"

lemma field_args:
  "kv_int (bytes_of k) (int v) = kv_args [f_int k v]" "kv_hex (bytes_of k) d = kv_args [f_hex k d]"
  "kv_str (bytes_of k) t = kv_args [f_str k t]" "kv_eui key e = kv_args [f_eui key e]"
  by (simp_all add: kv_int_def kv_hex_def kv_str_def kv_eui_def f_int_def f_hex_def f_str_def f_eui_def kv_args_def)

lemma kv_args_append: "kv_args fs @ kv_args gs = kv_args (fs @ gs)"
  by (simp add: kv_args_def)

lemma to_s_32_ok: "- (2 ^ 31) \<le> to_s 32 v \<and> to_s 32 v < 2 ^ 31"
  using to_s_bounds [of 32 v] by simp

lemma field_ok [simp]:
  "key_ok (fst (f_int k v)) = key_ok (bytes_of k)" "kval_ok (snd (f_int k v))"
  "key_ok (fst (f_hex k d)) = key_ok (bytes_of k)" "kval_ok (snd (f_hex k d))"
  "key_ok (fst (f_str k t)) = key_ok (bytes_of k)" "kval_ok (snd (f_str k t)) = cstring t"
  "key_ok (fst (f_eui key e)) = key_ok key" "kval_ok (snd (f_eui key e))"
  using to_s_32_ok [of "int v"] by (simp_all add: f_int_def f_hex_def f_str_def f_eui_def)

lemma puts_field:
  "key_ok (bytes_of k) \<Longrightarrow> puts [f_int k v] (encKV1 (kv_int (bytes_of k) (int v)))"
  "key_ok (bytes_of k) \<Longrightarrow> puts [f_hex k d] (encKV1 (kv_hex (bytes_of k) d))"
  "key_ok (bytes_of k) \<Longrightarrow> cstring t \<Longrightarrow> puts [f_str k t] (encKV1 (kv_str (bytes_of k) t))"
  "key_ok key \<Longrightarrow> puts [f_eui key e] (encKV1 (kv_eui key e))"
  using to_s_32_ok [of "int v"] unfolding field_args
  by (simp_all add: f_int_def f_hex_def f_str_def f_eui_def puts_kv1)

section \<open>Numbers in byte order\<close>

primrec be_bytes :: "nat \<Rightarrow> nat \<Rightarrow> bytes" where
  "be_bytes 0 v = []"
| "be_bytes (Suc n) v = be_bytes n (v div 256) @ [v mod 256]"

definition le_bytes :: "nat \<Rightarrow> nat \<Rightarrow> bytes" where
  "le_bytes n v = rev (be_bytes n v)"

lemma length_be_bytes [simp]: "length (be_bytes n v) = n" "length (le_bytes n v) = n"
  by (induction n arbitrary: v) (simp_all add: le_bytes_def)

lemma be_bytes_numeral [simp]: "be_bytes (numeral k) v = be_bytes (pred_numeral k) (v div 256) @ [v mod 256]"
  by (simp only: numeral_eq_Suc [of k] be_bytes.simps)

lemma be_bytes_4: "be_bytes 4 v = [v div 256 div 256 div 256 mod 256, v div 256 div 256 mod 256, v div 256 mod 256, v mod 256]"
  "be_bytes 3 v = [v div 256 div 256 mod 256, v div 256 mod 256, v mod 256]" "be_bytes 2 v = [v div 256 mod 256, v mod 256]"
  "be_bytes (Suc 0) v = [v mod 256]"
  by simp_all

lemma at_drop: "drop off f = bs @ rest \<Longrightarrow> i < length bs \<Longrightarrow> f ! (off + i) = bs ! i"
proof -
  assume d: "drop off f = bs @ rest" and i: "i < length bs"
  then have "off < length f" by (cases "off < length f") auto
  then show ?thesis using d i nth_drop [of off f i] by (simp add: nth_append)
qed

lemma drop_further: "drop off f = as @ bs \<Longrightarrow> drop (off + length as) f = bs"
  by (metis add.commute append_eq_conv_conj drop_drop)

lemma digits_256: fixes v :: nat
  shows "v div 256 mod 256 * 256 + v mod 256 = v mod 65536"
    "v mod 65536 + v div 256 div 256 mod 256 * 65536 = v mod 16777216"
    "v mod 16777216 + v div 256 div 256 div 256 mod 256 * 16777216 = v mod 4294967296"
proof -
  have m: "v div d mod 256 * d + v mod d = v mod (d * 256)" for d by (simp add: mod_mult2_eq algebra_simps)
  show "v div 256 mod 256 * 256 + v mod 256 = v mod 65536" using m [of 256] by simp
  show "v mod 65536 + v div 256 div 256 mod 256 * 65536 = v mod 16777216" using m [of 65536] by (simp add: div_mult2_eq [symmetric])
  show "v mod 16777216 + v div 256 div 256 div 256 mod 256 * 16777216 = v mod 4294967296"
    using m [of 16777216] by (simp add: div_mult2_eq [symmetric])
qed

lemma be_read:
  "drop i f = be_bytes 2 v @ r \<Longrightarrow> v < 2 ^ 16 \<Longrightarrow> be2 f i = v"
  "drop i f = be_bytes 3 v @ r \<Longrightarrow> v < 2 ^ 24 \<Longrightarrow> be3 f i = v"
  "drop i f = be_bytes 4 v @ r \<Longrightarrow> v < 2 ^ 32 \<Longrightarrow> be4 f i = v"
  "drop i f = le_bytes 4 v @ r \<Longrightarrow> v < 2 ^ 32 \<Longrightarrow> rt_rlsbf4 f i = v"
proof -
  show "be2 f i = v" if d: "drop i f = be_bytes 2 v @ r" "v < 2 ^ 16"
    using at_drop [OF d(1), of 0] at_drop [OF d(1), of 1] d(2) digits_256(1) [of v] by (simp add: be2_def be_bytes_4)
  show "be3 f i = v" if d: "drop i f = be_bytes 3 v @ r" "v < 2 ^ 24"
  proof -
    have "f ! i = v div 256 div 256 mod 256" "f ! (i + 1) = v div 256 mod 256" "f ! (i + 2) = v mod 256"
      using at_drop [OF d(1), of 0] at_drop [OF d(1), of 1] at_drop [OF d(1), of 2] by (simp_all add: be_bytes_4)
    moreover have "v mod 16777216 = v" using d(2) by simp
    ultimately show ?thesis using digits_256(1,2) [of v] unfolding be3_def be2_def by simp
  qed
  have sum: "a * 16777216 + b * 65536 + c * 256 + d = z" if "c * 256 + d = x" "x + b * 65536 = y" "y + a * 16777216 = z" for a b c d x y z :: nat
    using that by simp
  have four: "a * 16777216 + b * 65536 + c * 256 + d = v"
    if "v < 2 ^ 32" "a = v div 256 div 256 div 256 mod 256" "b = v div 256 div 256 mod 256" "c = v div 256 mod 256" "d = v mod 256" for a b c d
  proof -
    have "v mod 4294967296 = v" using that(1) by simp
    then show ?thesis using sum [OF digits_256 [of v]] unfolding that(2-5) by (rule trans [rotated])
  qed
  have b4: "be_bytes 4 v ! 0 = v div 256 div 256 div 256 mod 256" "be_bytes 4 v ! 1 = v div 256 div 256 mod 256"
    "be_bytes 4 v ! 2 = v div 256 mod 256" "be_bytes 4 v ! 3 = v mod 256" by (simp_all add: be_bytes_4)
  show "be4 f i = v" if d: "drop i f = be_bytes 4 v @ r" "v < 2 ^ 32"
  proof -
    have "f ! (i + k) = be_bytes 4 v ! k" if "k < 4" for k using at_drop [OF d(1), of k] that by simp
    from this [of 0] this [of 1] this [of 2] this [of 3]
    have "f ! i * 16777216 + f ! (i + 1) * 65536 + f ! (i + 2) * 256 + f ! (i + 3) = v"
      by (intro four d(2)) (simp_all add: b4)
    moreover have "be4 f i = f ! i * 16777216 + f ! (i + 1) * 65536 + f ! (i + 2) * 256 + f ! (i + 3)"
      by (simp add: be4_def be3_def be2_def)
    ultimately show ?thesis by (simp only:)
  qed
  show "rt_rlsbf4 f i = v" if d: "drop i f = le_bytes 4 v @ r" "v < 2 ^ 32"
  proof -
    have "f ! (i + k) = be_bytes 4 v ! (3 - k)" if "k < 4" for k
      using at_drop [OF d(1), of k] that by (simp add: le_bytes_def rev_nth del: be_bytes_numeral)
    from this [of 0] this [of 1] this [of 2] this [of 3]
    have "f ! (i + 3) * 16777216 + f ! (i + 2) * 65536 + f ! (i + 1) * 256 + f ! i = v"
      by (intro four d(2)) (simp_all add: b4)
    moreover have "rt_rlsbf4 f i = f ! (i + 3) * 16777216 + f ! (i + 2) * 65536 + f ! (i + 1) * 256 + f ! i"
      by (simp add: rt_rlsbf4_def)
    ultimately show ?thesis by (simp only:)
  qed
qed

section \<open>Tagged frames as lists of records\<close>

datatype dev_item = Batt nat | Energy nat | Carga nat | Flags nat | Resets nat | Temp nat

primrec item_bytes :: "dev_item \<Rightarrow> bytes" where
  "item_bytes (Batt v) = 0x10 # be_bytes 2 v"
| "item_bytes (Energy v) = 0x11 # be_bytes 4 v"
| "item_bytes (Carga v) = 0x12 # be_bytes 4 v"
| "item_bytes (Flags v) = 0x30 # be_bytes 1 v"
| "item_bytes (Resets v) = 0x40 # be_bytes 3 v"
| "item_bytes (Temp v) = 0x50 # be_bytes 1 v"

primrec item_ok :: "dev_item \<Rightarrow> bool" where
  "item_ok (Batt v) = (v < 2 ^ 16)" | "item_ok (Energy v) = (v < 2 ^ 32)" | "item_ok (Carga v) = (v < 2 ^ 32)"
| "item_ok (Flags v) = (v < 2 ^ 8)" | "item_ok (Resets v) = (v < 2 ^ 24)" | "item_ok (Temp v) = (v < 2 ^ 8)"

primrec item_apply :: "dev_item \<Rightarrow> dev_state \<Rightarrow> dev_state" where
  "item_apply (Batt v) s = s\<lparr>d_batt := Some v\<rparr>" | "item_apply (Energy v) s = s\<lparr>d_energy := Some v\<rparr>"
| "item_apply (Carga v) s = s\<lparr>d_carga := Some v\<rparr>" | "item_apply (Flags v) s = s\<lparr>d_flags := Some v\<rparr>"
| "item_apply (Resets v) s = s\<lparr>d_resets := Some v\<rparr>" | "item_apply (Temp v) s = s\<lparr>d_temp := Some v\<rparr>"

definition opt_field :: "string \<Rightarrow> nat option \<Rightarrow> (bytes \<times> kval) list" where
  "opt_field key v = (case v of None \<Rightarrow> [] | Some x \<Rightarrow> [f_int key x])"

definition state_fields :: "dev_state \<Rightarrow> (bytes \<times> kval) list" where
  "state_fields s = opt_field ''Batt'' (d_batt s) @ opt_field ''Ener'' (d_energy s) @ opt_field ''Charge '' (d_carga s) @
     opt_field ''Flags'' (d_flags s) @ opt_field ''Resets'' (d_resets s) @ opt_field ''Temp'' (d_temp s)"

text \<open>A GNSS scan with its time and status, WiFi beacons of 8 bytes with their time, or items of the state.\<close>

datatype tlv = Gnss nat nat bytes | Wifi nat "bytes list" | State "dev_item list"

primrec tlv_bytes :: "tlv \<Rightarrow> bytes" where
  "tlv_bytes (Gnss ts st scan) = 0x61 # (8 + length scan) # le_bytes 4 ts @ be_bytes 4 st @ scan"
| "tlv_bytes (Wifi ts ms) = 0x62 # (4 + 8 * length ms) # le_bytes 4 ts @ concat ms"
| "tlv_bytes (State is) = concat (map item_bytes is)"

primrec tlv_ok :: "tlv \<Rightarrow> bool" where
  "tlv_ok (Gnss ts st scan) = (ts < 2 ^ 32 \<and> st < 2 ^ 32)"
| "tlv_ok (Wifi ts ms) = (ts < 2 ^ 32 \<and> (\<forall>m \<in> set ms. length m = 8) \<and> length ms \<le> 22)"
| "tlv_ok (State is) = (is \<noteq> [] \<and> list_all item_ok is)"

primrec tlv_fields :: "tlv \<Rightarrow> (bytes \<times> kval) list" where
  "tlv_fields (Gnss ts st scan) = [f_int ''GNSS_TS'' ts, f_int ''GNSS_Status'' st, f_hex ''GNSS'' scan]"
| "tlv_fields (Wifi ts ms) = [f_int ''WiFi_TS'' ts, f_str ''WiFi_MACs'' (macs_text ms)]"
| "tlv_fields (State is) = state_fields (fold item_apply is no_state)"

text \<open>Items of the state go on until a byte that is not the code of one.\<close>

lemma state_items_read:
  "list_all item_ok is \<Longrightarrow> drop off f = concat (map item_bytes is) @ rest \<Longrightarrow> len < 256 \<Longrightarrow>
   off + length (concat (map item_bytes is)) \<le> len \<Longrightarrow>
   off + length (concat (map item_bytes is)) = len \<or> (rest \<noteq> [] \<and> item_size (hd rest) = None) \<Longrightarrow>
   state_items f len off v = Some (off + length (concat (map item_bytes is)), fold item_apply is v)"
proof (induction "is" arbitrary: off v)
  case Nil
  have "off < len \<Longrightarrow> off < length f \<and> item_size (f ! off) = None"
  proof -
    assume "off < len"
    then have r: "rest \<noteq> []" "item_size (hd rest) = None" using Nil.prems by auto
    then show ?thesis using at_drop [of off f rest "[]" 0] Nil.prems(2) by (cases "off < length f") (auto simp: hd_conv_nth)
  qed
  then show ?case by (subst state_items.simps) auto
next
  case (Cons it "is")
  let ?n = "length (item_bytes it)"
  have d: "drop off f = item_bytes it @ concat (map item_bytes is) @ rest" using Cons.prems(2) by simp
  then have "length f - off = ?n + length (concat (map item_bytes is) @ rest)" by (metis length_append length_drop)
  moreover have n: "0 < ?n" by (cases it) simp_all
  ultimately have off: "off + ?n \<le> length f" "off < length f" "0 < ?n" by linarith+
  have code: "item_size (f ! off) = Some ?n" using at_drop [OF d, of 0] by (cases it) (simp_all add: item_size_def)
  have "item_set f off v = item_apply it v"
  proof -
    have t: "drop (off + 1) f = tl (item_bytes it) @ concat (map item_bytes is) @ rest"
      using d off(3) by (metis (no_types) One_nat_def add.commute drop_Suc drop_drop drop_0 tl_append2 length_greater_0_conv)
    have c: "f ! off = hd (item_bytes it)" using at_drop [OF d, of 0] off(3) by (simp add: hd_conv_nth)
    have rd: "be2 f (off + 1) = x" if "it = Batt x" for x using be_read(1) [of "off + 1" f x] t that Cons.prems(1) by (simp del: be_bytes_numeral)
    have rd3: "be3 f (off + 1) = x" if "it = Resets x" for x using be_read(2) [of "off + 1" f x] t that Cons.prems(1) by (simp del: be_bytes_numeral)
    have rd4: "be4 f (off + 1) = x" if "it = Energy x \<or> it = Carga x" for x
      using be_read(3) [of "off + 1" f x] t that Cons.prems(1) by (auto simp del: be_bytes_numeral)
    have rd1: "f ! (off + 1) = x" if "it = Flags x \<or> it = Temp x" for x
      using at_drop [OF t, of 0] that Cons.prems(1) by auto
    show ?thesis using rd rd3 rd4 rd1 c by (cases it) (simp_all add: item_set_def)
  qed
  moreover have le: "off < len" "off + ?n < 256"
    using Cons.prems(3,4) off(3) unfolding list.map concat.simps length_append by linarith+
  moreover have "(off + ?n) mod 256 = off + ?n" using le(2) by simp
  ultimately have "state_items f len off v = state_items f len (off + ?n) (item_apply it v)"
    using code off(1) leD [of "length f" off] off(2) by (subst state_items.simps) auto
  also have "\<dots> = Some (off + ?n + length (concat (map item_bytes is)), fold item_apply is (item_apply it v))"
    using Cons.prems drop_further [OF d] by (intro Cons.IH) (simp_all add: add.assoc)
  finally show ?case by (simp add: add.assoc)
qed

section \<open>One record\<close>

lemma key_ok_lit: "0 \<notin> set (bytes_of k) \<Longrightarrow> bytes_of k \<noteq> [125] \<Longrightarrow> key_ok (bytes_of k)"
  by (simp add: key_ok_def cstring_def)

lemma key_lits: "key_ok (c # d # k) \<longleftrightarrow> c \<noteq> 0 \<and> d \<noteq> 0 \<and> 0 \<notin> set k"
  by (simp add: key_ok_def cstring_def)

lemma hex_pair_length [simp]: "length (hex_pair v) = 2"
  by (simp add: hex_pair_def)

lemma mac_quoted_length [simp]: "length (mac_quoted m) = 22"
  by (simp add: mac_quoted_def upt_rec)

lemma macs_list_length: "length (macs_list ms) = (if ms = [] then 0 else 23 * length ms - 1)"
  by (induction ms rule: macs_list.induct) auto

lemma macs_text_length: "length (macs_text ms) = (if ms = [] then 2 else 23 * length ms + 1)"
  by (simp add: macs_text_def macs_list_length)

lemma macs_text_cstring: "cstring (macs_text ms)"
proof -
  have "0 \<notin> set (hex_pair v)" for v by (simp add: hex_pair_def)
  then have "0 \<notin> set (mac_quoted m)" for m by (auto simp: mac_quoted_def)
  then have "0 \<notin> set (macs_list ms)" by (induction ms rule: macs_list.induct) auto
  then show ?thesis by (simp add: cstring_def macs_text_def)
qed

lemma puts_enc_item:
  assumes "key_ok (bytes_of k)"
  shows "puts (opt_field k v) (enc_item k v)"
proof (cases v)
  case None
  then have "enc_item k v = Some" by (simp add: enc_item_def fun_eq_iff)
  then show ?thesis using puts_nil None by (simp add: opt_field_def)
next
  case (Some x)
  then have "enc_item k v = encKV1 (kv_int (bytes_of k) (int x))" by (simp add: enc_item_def fun_eq_iff)
  then show ?thesis using puts_field(1) [OF assms, of x] Some by (simp add: opt_field_def)
qed

definition enc_state :: "dev_state \<Rightarrow> dbuf \<Rightarrow> dbuf option" where
  "enc_state v b = enc_item ''Batt'' (d_batt v) b \<bind> (\<lambda>b. enc_item ''Ener'' (d_energy v) b \<bind> (\<lambda>b.
     enc_item ''Charge '' (d_carga v) b \<bind> (\<lambda>b. enc_item ''Flags'' (d_flags v) b \<bind> (\<lambda>b.
     enc_item ''Resets'' (d_resets v) b \<bind> enc_item ''Temp'' (d_temp v)))))"

lemma puts_state: "puts (state_fields v) (enc_state v)"
  unfolding state_fields_def enc_state_def [abs_def]
  by (intro puts_bind puts_enc_item key_ok_lit) simp_all

lemma state_record_read:
  assumes "list_all item_ok is" and "drop off f = concat (map item_bytes is) @ rest" and "len < 256"
    and "off + length (concat (map item_bytes is)) \<le> len"
    and "off + length (concat (map item_bytes is)) = len \<or> (rest \<noteq> [] \<and> item_size (hd rest) = None)"
  shows "state_record f len off = (\<lambda>b. map_option (Again (off + length (concat (map item_bytes is)))) (enc_state (fold item_apply is no_state) b))"
proof
  fix b
  have e: "uj_encKVn [FStr None] b = Some b" for b by (simp add: uj_encKVn_def) (subst encKVn.simps, simp)
  show "state_record f len off b = map_option (Again (off + length (concat (map item_bytes is)))) (enc_state (fold item_apply is no_state) b)"
    unfolding state_record_def state_items_read [OF assms] enc_state_def
    by (simp add: e bind_eq_None_conv split: option.splits bind_splits)
qed

lemma map_bind: "map_option g x = x \<bind> (\<lambda>y. Some (g y))"
  by (cases x) simp_all

lemma gnss_read:
  assumes ok: "tlv_ok (Gnss ts st scan)" and d: "drop off f = tlv_bytes (Gnss ts st scan) @ rest"
    and le: "off + length (tlv_bytes (Gnss ts st scan)) \<le> len" "len < 256" "len \<le> length f"
  shows "lora_step f len off = (\<lambda>b. map_option (Again (off + length (tlv_bytes (Gnss ts st scan))))
    (uj_encKVn (kv_args (tlv_fields (Gnss ts st scan)) @ [FStr None]) b))"
proof
  fix b
  have d2: "drop (off + 2) f = le_bytes 4 ts @ be_bytes 4 st @ scan @ rest"
    using drop_further [of off f "[0x61, 8 + length scan]"] d by (simp del: be_bytes_numeral)
  have d6: "drop (off + 6) f = be_bytes 4 st @ scan @ rest" using drop_further [OF d2] by (simp add: add.commute del: be_bytes_numeral)
  have d10: "drop (off + 10) f = scan @ rest" using drop_further [OF d6] by (simp add: add.commute del: be_bytes_numeral)
  have nums: "rt_rlsbf4 f (off + 2) = ts" "be4 f (off + 6) = st"
    using be_read(4) [OF d2] be_read(3) [OF d6] ok by simp_all
  have scan: "blk (off + 10) (length scan) f = scan" by (simp add: blk_def d10)
  have head: "f ! off = 0x61" "f ! (off + 1) = 8 + length scan"
    using at_drop [OF d, of 0] at_drop [OF d, of 1] by simp_all
  have len: "off + 10 + length scan \<le> len" using le(1) by simp
  have n: "to_u 8 (int (8 + length scan) - 8) = length scan" using len le(2) by (simp add: to_u_def)
  have sz: "(off + 2 + (8 + length scan)) mod 256 = off + 10 + length scan" using len le(2) by simp
  have "gnss_record f len off b = uj_encKVn (kv_args (tlv_fields (Gnss ts st scan)) @ [FStr None]) b \<bind>
      (\<lambda>b. Some (Again (off + 10 + length scan) b))"
    unfolding gnss_record_def head(2) Let_def n nums field_args scan sz
    using len le(3) by (simp add: kv_args_append flip: append_assoc)
  moreover have "lora_step f len off b = gnss_record f len off b"
    using len le(3) by (simp add: lora_step_def head(1))
  ultimately show "lora_step f len off b = map_option (Again (off + length (tlv_bytes (Gnss ts st scan))))
    (uj_encKVn (kv_args (tlv_fields (Gnss ts st scan)) @ [FStr None]) b)" by (simp add: add.assoc map_bind)
qed

lemma blk_concat:
  "\<forall>m \<in> set ms. length m = 8 \<Longrightarrow> drop o' f = concat ms @ rest \<Longrightarrow> map (\<lambda>i. blk (o' + i * 8) 8 f) [0..<length ms] = ms"
proof (induction ms arbitrary: o')
  case (Cons m ms)
  have "drop o' f = m @ concat ms @ rest" using Cons.prems(2) by simp
  from drop_further [OF this] have d: "drop (o' + 8) f = concat ms @ rest" using Cons.prems(1) by simp
  have "map (\<lambda>i. blk (o' + i * 8) 8 f) [0..<length (m # ms)] = blk o' 8 f # map (\<lambda>i. blk (o' + 8 + i * 8) 8 f) [0..<length ms]"
    by (simp add: upt_conv_Cons map_Suc_upt [symmetric] comp_def algebra_simps del: upt_Suc)
  then show ?case using Cons.IH [OF _ d] Cons.prems by (simp add: blk_def)
qed simp

lemma concat_8: "\<forall>m \<in> set ms. length m = 8 \<Longrightarrow> length (concat ms) = 8 * length ms"
  by (induction ms) auto

text \<open>A record with WiFi beacons of any number: the texts need 23 bytes each and two more, of 512.\<close>

lemma wifi_read:
  assumes ok: "ts < 2 ^ 32" "\<forall>m \<in> set ms. length m = 8" and d: "drop off f = tlv_bytes (Wifi ts ms) @ rest"
    and le: "off + length (tlv_bytes (Wifi ts ms)) \<le> len" "len < 256" "len \<le> length f"
  shows "lora_step f len off = (\<lambda>b. if 22 < length ms then None else map_option (Again (off + length (tlv_bytes (Wifi ts ms))))
    (uj_encKVn (kv_args (tlv_fields (Wifi ts ms)) @ [FStr None]) b))"
proof
  fix b
  have d2: "drop (off + 2) f = le_bytes 4 ts @ concat ms @ rest"
    using drop_further [of off f "[0x62, 4 + 8 * length ms]"] d by (simp del: be_bytes_numeral)
  have d6: "drop (off + 6) f = concat ms @ rest" using drop_further [OF d2] by (simp add: add.commute del: be_bytes_numeral)
  have num: "rt_rlsbf4 f (off + 2) = ts" using be_read(4) [OF d2] ok by simp
  have macs: "map (\<lambda>i. blk (off + 6 + i * 8) 8 f) [0..<length ms] = ms" by (rule blk_concat [OF ok(2) d6])
  have head: "f ! off = 0x62" "f ! (off + 1) = 4 + 8 * length ms"
    using at_drop [OF d, of 0] at_drop [OF d, of 1] by simp_all
  have len: "off + 6 + 8 * length ms \<le> len" using le(1) concat_8 [OF ok(2)] by simp
  have n: "to_u 8 (c_div (int (4 + 8 * length ms) - 4) 8) = length ms" using len le(2) by (simp add: to_u_def c_div_nonneg)
  have sz: "(off + 2 + (4 + 8 * length ms)) mod 256 = off + 6 + 8 * length ms" using len le(2) by simp
  have big: "512 < length (macs_text ms) + 1 \<longleftrightarrow> 22 < length ms" using macs_text_length [of ms] by auto
  have "wifi_record f len off b = (if 22 < length ms then None else
      uj_encKVn (kv_args (tlv_fields (Wifi ts ms)) @ [FStr None]) b \<bind> (\<lambda>b. Some (Again (off + 6 + 8 * length ms) b)))"
    unfolding wifi_record_def head(2) Let_def n num macs field_args sz big
    using len le(3) by (simp add: kv_args_append flip: append_assoc)
  moreover have "lora_step f len off b = wifi_record f len off b"
    using len le(3) by (simp add: lora_step_def head(1))
  ultimately show "lora_step f len off b = (if 22 < length ms then None else map_option (Again (off + length (tlv_bytes (Wifi ts ms))))
    (uj_encKVn (kv_args (tlv_fields (Wifi ts ms)) @ [FStr None]) b))" by (simp add: add.assoc concat_8 [OF ok(2)] map_bind)
qed

section \<open>Whole frames\<close>

primrec is_state :: "tlv \<Rightarrow> bool" where
  "is_state (Gnss _ _ _) = False" | "is_state (Wifi _ _) = False" | "is_state (State _) = True"

text \<open>Items of the state that follow each other are one record.\<close>

fun tlvs_ok :: "tlv list \<Rightarrow> bool" where
  "tlvs_ok [] = True"
| "tlvs_ok [t] = tlv_ok t"
| "tlvs_ok (t # u # ts) = (tlv_ok t \<and> \<not> (is_state t \<and> is_state u) \<and> tlvs_ok (u # ts))"

definition tagged_bytes :: "uL \<Rightarrow> u4 \<Rightarrow> tlv list \<Rightarrow> bytes" where
  "tagged_bytes eui fcnt ts =
     0x01 # be_bytes 4 (eui div 2 ^ 32) @ be_bytes 4 (eui mod 2 ^ 32) @ 0x41 # be_bytes 4 fcnt @ concat (map tlv_bytes ts)"

definition tagged_fields :: "uL \<Rightarrow> u4 \<Rightarrow> bytes \<Rightarrow> tlv list \<Rightarrow> (bytes \<times> kval) list" where
  "tagged_fields eui fcnt d ts =
     [f_eui (bytes_of ''DevEUI'') eui] @ [f_int ''FCnt'' fcnt] @ [f_hex ''payload'' d] @ [f_str ''msgtype'' (bytes_of ''lora'')] @
     concat (map tlv_fields ts)"

lemma item_head: "item_bytes it \<noteq> [] \<and> hd (item_bytes it) \<notin> {0x61, 0x62}"
  by (cases it) simp_all

lemma tlv_head: "tlv_ok t \<Longrightarrow> tlv_bytes t \<noteq> [] \<and> (\<not> is_state t \<longrightarrow> item_size (hd (tlv_bytes t)) = None)"
  using item_head by (cases t) (auto simp: item_size_def neq_Nil_conv)

definition ends_items :: "nat \<Rightarrow> nat \<Rightarrow> bytes \<Rightarrow> bool" where
  "ends_items off len rest \<longleftrightarrow> off = len \<or> (rest \<noteq> [] \<and> item_size (hd rest) = None)"

lemma record_read:
  assumes ok: "tlv_ok t" and d: "drop off f = tlv_bytes t @ rest"
    and le: "off + length (tlv_bytes t) \<le> len" "len < 256" "len \<le> length f"
    and e: "is_state t \<Longrightarrow> ends_items (off + length (tlv_bytes t)) len rest"
  shows "\<exists>w. puts (tlv_fields t) w \<and> lora_step f len off = (\<lambda>b. map_option (Again (off + length (tlv_bytes t))) (w b))"
proof (cases t)
  case (Gnss ts st scan)
  show ?thesis using gnss_read [of ts st scan off f rest len] assms
    by (intro exI [of _ "uj_encKVn (kv_args (tlv_fields t) @ [FStr None])"] conjI puts_kvn)
      (auto simp: Gnss fields_ok_def key_lits)
next
  case (Wifi ts ms)
  show ?thesis using wifi_read [of ts ms off f rest len] assms
    by (intro exI [of _ "uj_encKVn (kv_args (tlv_fields t) @ [FStr None])"] conjI puts_kvn)
      (auto simp: Wifi fields_ok_def macs_text_cstring key_lits)
next
  case (State "is")
  have "f ! off = hd (tlv_bytes t)" using at_drop [OF d, of 0] tlv_head [OF ok] by (simp add: hd_conv_nth)
  moreover obtain it is' where "is = it # is'" using ok State by (cases "is") auto
  ultimately have "f ! off \<notin> {0x61, 0x62}" using item_head [of it] State by simp
  moreover have "0 < length (tlv_bytes t)" using tlv_head [OF ok] by simp
  then have "off < len" "off < length f" using le by linarith+
  ultimately have "lora_step f len off = state_record f len off" by (auto simp: lora_step_def fun_eq_iff)
  then show ?thesis using state_record_read [of "is" off f rest len] assms puts_state State
    by (intro exI [of _ "enc_state (fold item_apply is no_state)"]) (simp add: ends_items_def)
qed

lemma records_read:
  "tlvs_ok ts \<Longrightarrow> drop off f = concat (map tlv_bytes ts) @ rest \<Longrightarrow> off + length (concat (map tlv_bytes ts)) \<le> len \<Longrightarrow>
   len < 256 \<Longrightarrow> len \<le> length f \<Longrightarrow> ends_items (off + length (concat (map tlv_bytes ts))) len rest \<Longrightarrow>
   \<exists>w. puts (concat (map tlv_fields ts)) w \<and>
     (\<forall>b. lora_loop f len off b = w b \<bind> lora_loop f len (off + length (concat (map tlv_bytes ts))))"
proof (induction ts arbitrary: off)
  case Nil
  then show ?case using puts_nil by (intro exI [of _ Some]) simp
next
  case (Cons t ts)
  let ?n = "length (tlv_bytes t)" and ?rest = "concat (map tlv_bytes ts) @ rest"
  have d: "drop off f = tlv_bytes t @ ?rest" using Cons.prems(2) by simp
  have ok: "tlv_ok t" "tlvs_ok ts" using Cons.prems(1) by (cases ts; simp)+
  have "ends_items (off + ?n) len ?rest" if "is_state t"
  proof (cases ts)
    case Nil
    then show ?thesis using Cons.prems(6) by simp
  next
    case (Cons u us)
    then have "tlv_ok u" "\<not> is_state u" using Cons.prems(1) \<open>tlvs_ok ts\<close> that by (cases us; simp)+
    then show ?thesis using tlv_head [of u] Cons by (simp add: ends_items_def)
  qed
  then obtain v where v: "puts (tlv_fields t) v" "lora_step f len off = (\<lambda>b. map_option (Again (off + ?n)) (v b))"
    using record_read [OF ok(1) d _ Cons.prems(4,5)] Cons.prems(3) by auto
  obtain w where w: "puts (concat (map tlv_fields ts)) w"
    "\<And>b. lora_loop f len (off + ?n) b = w b \<bind> lora_loop f len (off + ?n + length (concat (map tlv_bytes ts)))"
    using Cons.IH [OF ok(2) drop_further [OF d]] Cons.prems by (auto simp: add.assoc)
  have "lora_loop f len off b = (v b \<bind> w) \<bind> lora_loop f len (off + length (concat (map tlv_bytes (t # ts))))" for b
    by (subst lora_loop.simps) (cases "v b", simp_all add: v(2) w(2) add.assoc)
  then show ?case using puts_bind [OF v(1) w(1)] by (intro exI [of _ "\<lambda>b. v b \<bind> w"]) simp
qed

lemma tagged_length: "length (tagged_bytes eui fcnt ts) = 14 + length (concat (map tlv_bytes ts))"
  by (simp add: tagged_bytes_def del: be_bytes_numeral)

lemma tagged_read:
  assumes f: "f = tagged_bytes eui fcnt ts @ rest" and ok: "eui < 2 ^ 64" "fcnt < 2 ^ 32" "tlvs_ok ts"
    and le: "length (tagged_bytes eui fcnt ts) \<le> len" "len < 256" "len \<le> length f"
    and e: "ends_items (length (tagged_bytes eui fcnt ts)) len rest"
  shows "\<exists>w. puts (tagged_fields eui fcnt (take len f) ts) w \<and>
    (\<forall>b. s2e_parse_lora_frame s f len b = w b \<bind> lora_loop f len (length (tagged_bytes eui fcnt ts)))"
proof -
  note [simp del] = be_bytes_numeral
  let ?hi = "be_bytes 4 (eui div 2 ^ 32)" and ?lo = "be_bytes 4 (eui mod 2 ^ 32)" and ?body = "concat (map tlv_bytes ts) @ rest"
  have d0: "drop 0 f = [0x01] @ ?hi @ ?lo @ 0x41 # be_bytes 4 fcnt @ ?body" by (simp add: f tagged_bytes_def)
  have d1: "drop 1 f = ?hi @ ?lo @ 0x41 # be_bytes 4 fcnt @ ?body" using drop_further [OF d0] by simp
  have d5: "drop 5 f = ?lo @ [0x41] @ be_bytes 4 fcnt @ ?body" using drop_further [OF d1] by simp
  have d9: "drop 9 f = [0x41] @ be_bytes 4 fcnt @ ?body" using drop_further [OF d5] by simp
  have d10: "drop 10 f = be_bytes 4 fcnt @ ?body" using drop_further [OF d9] by simp
  have d14: "drop 14 f = ?body" using drop_further [OF d10] by simp
  have eui: "be8 f 1 = eui"
    using be_read(3) [OF d1] be_read(3) [OF d5] ok(1) by (simp add: be8_def less_mult_imp_div_less div_mult_mod_eq)
  have fcnt: "be4 f 10 = fcnt" using be_read(3) [OF d10] ok(2) by simp
  have tag: "f ! 0 = 0x01" "f ! 9 = 0x41" using at_drop [OF d0, of 0] at_drop [OF d9, of 0] by simp_all
  obtain w where w: "puts (concat (map tlv_fields ts)) w"
    "\<And>b. lora_loop f len 14 b = w b \<bind> lora_loop f len (length (tagged_bytes eui fcnt ts))"
    using records_read [OF ok(3) d14, of len] le e unfolding tagged_length by auto
  let ?w = "\<lambda>b. encKV1 (kv_eui (bytes_of ''DevEUI'') eui) b \<bind> (\<lambda>b. encKV1 (kv_int (bytes_of ''FCnt'') (int fcnt)) b \<bind> (\<lambda>b.
    encKV1 (kv_hex (bytes_of ''payload'') (take len f)) b \<bind> (\<lambda>b. encKV1 (kv_str (bytes_of ''msgtype'') (bytes_of ''lora'')) b \<bind> w)))"
  have "puts (tagged_fields eui fcnt (take len f) ts) ?w"
    unfolding tagged_fields_def by (intro puts_bind puts_field w(1)) (simp_all add: key_lits cstring_def)
  moreover have "s2e_parse_lora_frame s f len b = ?w b \<bind> lora_loop f len (length (tagged_bytes eui fcnt ts))" for b
  proof -
    have "s2e_parse_lora_frame s f len b = tagged_frame f len b"
      using le tag unfolding tagged_length by (simp add: s2e_parse_lora_frame_def)
    also have "\<dots> = ?w b \<bind> lora_loop f len (length (tagged_bytes eui fcnt ts))"
      unfolding tagged_frame_def eui fcnt w(2) by (simp add: bind_assoc)
    finally show ?thesis .
  qed
  ultimately show ?thesis by (intro exI [of _ ?w] conjI allI)
qed

lemma puts_written:
  assumes "puts fs w" and "buf_ok b" and "clean (written b)" and "length (elems (written b) (map kv_text fs)) < bufsize b"
  obtains b' where "w b = Some b'" "buf_ok b'" "bufsize b' = bufsize b" "written b' = elems (written b) (map kv_text fs)"
  using assms writesD unfolding puts_def by blast

lemma loop_end: "lora_loop f len len b = Some (1, b)"
  by (subst lora_loop.simps) (simp add: lora_step_def)

text \<open>A round that changes nothing is repeated for ever.\<close>

lemma loop_stuck:
  assumes "lora_step f len off b = Some (Again off b)"
  shows "lora_loop f len off b = None"
proof -
  have "lora_step f len off b \<noteq> Some (Again off b)" if "lora_loop f len off b = Some r" for f len off b r
  proof (rule lora_loop.raw_induct [where P = "\<lambda>f len off b r. lora_step f len off b \<noteq> Some (Again off b)", rotated, OF that])
    fix lp :: "bytes \<Rightarrow> nat \<Rightarrow> nat \<Rightarrow> dbuf \<Rightarrow> (nat \<times> dbuf) option" and f len off b r
    assume ih: "\<And>f len off b r. lp f len off b = Some r \<Longrightarrow> lora_step f len off b \<noteq> Some (Again off b)"
      and body: "(lora_step f len off b \<bind> case_lora_next (\<lambda>k b. Some (k, b)) (lp f len)) = Some r"
    show "lora_step f len off b \<noteq> Some (Again off b)"
    proof
      assume st: "lora_step f len off b = Some (Again off b)"
      then have "lp f len off b = Some r" using body by simp
      then show False using ih st by blast
    qed
  qed
  then show ?thesis using assms by (cases "lora_loop f len off b") auto
qed

text \<open>C5: Tagged frames are reported completely. For every frame that consists of the header with device EUI and frame counter and any
  sequence of well formed records, the parser returns 1 and has written exactly the fields of the frame, in the order of the records.\<close>

theorem lora_tagged_reported:
  assumes "eui < 2 ^ 64" and "fcnt < 2 ^ 32" and "tlvs_ok ts" and "length (tagged_bytes eui fcnt ts) < 256"
    and "buf_ok b" and "clean (written b)"
    and "length (elems (written b) (map kv_text (tagged_fields eui fcnt (tagged_bytes eui fcnt ts) ts))) < bufsize b"
  shows "\<exists>b'. s2e_parse_lora_frame s (tagged_bytes eui fcnt ts @ behind) (length (tagged_bytes eui fcnt ts)) b = Some (1, b') \<and>
    buf_ok b' \<and> written b' = elems (written b) (map kv_text (tagged_fields eui fcnt (tagged_bytes eui fcnt ts) ts))"
proof -
  let ?n = "length (tagged_bytes eui fcnt ts)"
  obtain w where "puts (tagged_fields eui fcnt (tagged_bytes eui fcnt ts) ts) w"
    "\<And>b. s2e_parse_lora_frame s (tagged_bytes eui fcnt ts @ behind) ?n b = w b \<bind> lora_loop (tagged_bytes eui fcnt ts @ behind) ?n ?n"
    using tagged_read [OF refl assms(1-3), of ?n behind s] assms(4) by (auto simp: ends_items_def)
  then show ?thesis using puts_written [OF _ assms(5-7)] by (metis bind.bind_lunit loop_end)
qed

text \<open>C21: A byte that starts no record stops the station. When such a byte follows well formed records inside of the frame, the
  parser comes to a state that its next round leaves as it is, and never returns.\<close>

theorem lora_unknown_record_hangs:
  assumes "eui < 2 ^ 64" and "fcnt < 2 ^ 32" and "tlvs_ok ts" and "length (tagged_bytes eui fcnt ts @ code # tail) < 256"
    and "item_size code = None" and "code \<in> {0x61, 0x62} \<Longrightarrow> length tail < 2"
    and "buf_ok b" and "clean (written b)"
    and "length (elems (written b) (map kv_text (tagged_fields eui fcnt (tagged_bytes eui fcnt ts @ code # tail) ts))) < bufsize b"
  shows "\<exists>off b'. (let f = tagged_bytes eui fcnt ts @ code # tail; n = length f in
    s2e_parse_lora_frame s f n b = lora_loop f n off b' \<and> lora_step f n off b' = Some (Again off b') \<and>
    s2e_parse_lora_frame s f n b = None)"
proof -
  let ?f = "tagged_bytes eui fcnt ts @ code # tail" and ?off = "length (tagged_bytes eui fcnt ts)"
  obtain w where w: "puts (tagged_fields eui fcnt ?f ts) w"
    "\<And>b. s2e_parse_lora_frame s ?f (length ?f) b = w b \<bind> lora_loop ?f (length ?f) ?off"
    using tagged_read [OF refl assms(1-3), of "length ?f" "code # tail" s] assms(4,5) by (auto simp: ends_items_def)
  obtain b' where b': "w b = Some b'" using puts_written [OF w(1) assms(7-9)] .
  have "state_record ?f (length ?f) ?off b' = Some (Again ?off b')"
    by (subst state_record_def, subst state_items.simps)
      (use assms(5) in \<open>simp add: nth_append no_state_def enc_item_def uj_encKVn_def, subst encKVn.simps, simp\<close>)
  then have s: "lora_step ?f (length ?f) ?off b' = Some (Again ?off b')"
    using assms(6) by (auto simp: lora_step_def nth_append)
  have "s2e_parse_lora_frame s ?f (length ?f) b = lora_loop ?f (length ?f) ?off b'" using w(2) b' by simp
  then show ?thesis using s loop_stuck [OF s] unfolding Let_def by (intro exI [of _ ?off] exI [of _ b']) simp
qed

text \<open>C38: More than 22 WiFi beacons in one record overrun the buffer for their text: with well formed records in front
  of such a record that fits the frame, the parser has no defined result.\<close>

theorem lora_wifi_overrun:
  assumes "eui < 2 ^ 64" and "fcnt < 2 ^ 32" and "tlvs_ok ts" and "t < 2 ^ 32" and "\<forall>m \<in> set ms. length m = 8" and "22 < length ms"
    and "length (tagged_bytes eui fcnt ts @ tlv_bytes (Wifi t ms)) \<le> len" and "len < 256"
    and "len \<le> length (tagged_bytes eui fcnt ts @ tlv_bytes (Wifi t ms) @ behind)"
  shows "s2e_parse_lora_frame s (tagged_bytes eui fcnt ts @ tlv_bytes (Wifi t ms) @ behind) len b = None"
proof -
  let ?f = "tagged_bytes eui fcnt ts @ tlv_bytes (Wifi t ms) @ behind" and ?off = "length (tagged_bytes eui fcnt ts)"
  obtain w where w: "\<And>b. s2e_parse_lora_frame s ?f len b = w b \<bind> lora_loop ?f len ?off"
    using tagged_read [OF refl assms(1-3), of len "tlv_bytes (Wifi t ms) @ behind" s] assms(7-9)
    by (auto simp: ends_items_def item_size_def)
  have "lora_step ?f len ?off b = None" for b
    using wifi_read [OF assms(4,5), of ?off ?f behind len] assms(6-9) by simp
  then have "lora_loop ?f len ?off b = None" for b by (subst lora_loop.simps) simp
  then show ?thesis using w by (cases "w b") simp_all
qed

section \<open>LoRaWAN frames\<close>

definition join_fields :: "s2ctx \<Rightarrow> bytes \<Rightarrow> (bytes \<times> kval) list" where
  "join_fields s f =
     [f_str ''msgtype'' (if f ! 0 = FRMTYPE_JREQ then bytes_of ''jreq'' else bytes_of ''rejoin''), f_int ''MHdr'' (f ! 0),
      f_eui (rt_joineui s) (rt_rlsbf8 f OFF_joineui), f_eui (rt_deveui s) (rt_rlsbf8 f OFF_deveui),
      f_int ''DevNonce'' (rt_rlsbf2 f OFF_devnonce), f_int ''MIC'' (rt_rlsbf4 f (OFF_jreq_len - 4))]"

lemma joineui_ranges:
  "\<forall>r \<in> set rs. fst r \<noteq> 0 \<Longrightarrow> joineui_passes (concat (map (\<lambda>r. [fst r, snd r]) rs) @ 0 # z) e =
    (if z = [] \<or> \<not> z = [] then Some (\<exists>r \<in> set rs. fst r \<le> e \<and> e \<le> snd r) else None)"
proof (induction rs)
  case Nil
  then show ?case by (cases z) auto
qed auto

text \<open>C20: Join requests pass exactly the filter. With the ranges of join EUIs in the filter, a join or rejoin request is reported with all its
  fields when there is no range or one that holds its join EUI, and otherwise it is dropped and the buffer is left alone.\<close>

theorem lora_join_filtered:
  assumes "joineuiFilter s = concat (map (\<lambda>r. [fst r, snd r]) rs) @ 0 # z" and "\<forall>r \<in> set rs. fst r \<noteq> 0"
    and "f ! 0 \<in> {FRMTYPE_JREQ, FRMTYPE_REJOIN}" and "OFF_jreq_len \<le> length f" and "key_ok (rt_joineui s)" and "key_ok (rt_deveui s)"
    and "buf_ok b" and "clean (written b)" and "length (elems (written b) (map kv_text (join_fields s f))) < bufsize b"
  shows "if rs = [] \<or> (\<exists>r \<in> set rs. fst r \<le> rt_rlsbf8 f OFF_joineui \<and> rt_rlsbf8 f OFF_joineui \<le> snd r)
    then \<exists>b'. s2e_parse_lora_frame s f OFF_jreq_len b = Some (1, b') \<and> buf_ok b' \<and> written b' = elems (written b) (map kv_text (join_fields s f))
    else s2e_parse_lora_frame s f OFF_jreq_len b = Some (0, b)"
proof -
  let ?e = "rt_rlsbf8 f OFF_joineui" and ?w = "uj_encKVn (kv_args (join_fields s f) @ [FStr None])"
  let ?pass = "rs = [] \<or> (\<exists>r \<in> set rs. fst r \<le> ?e \<and> ?e \<le> snd r)"
  have first: "(case joineuiFilter s of [] \<Rightarrow> None | x # _ \<Rightarrow> Some x) = Some (case rs of [] \<Rightarrow> 0 | r # _ \<Rightarrow> fst r)"
    unfolding assms(1) by (cases rs) auto
  have passes: "(if (case rs of [] \<Rightarrow> 0 | r # _ \<Rightarrow> fst r) \<noteq> 0 then joineui_passes (joineuiFilter s) ?e else Some True) = Some ?pass"
    unfolding assms(1) joineui_ranges [OF assms(2)] using assms(2) by (cases rs) auto
  have t: "frame_type (f ! 0) = f ! 0" "mhdr_rfu_major (f ! 0) = MAJOR_V1"
    using assms(3) by (auto simp: frame_type_def mhdr_rfu_major_def lora_consts)
  have "s2e_parse_lora_frame s f OFF_jreq_len b = join_frame s f OFF_jreq_len b"
    using assms(3,4) t unfolding s2e_parse_lora_frame_def by (auto simp: lora_consts)
  also have "\<dots> = (if ?pass then ?w b \<bind> (\<lambda>b. Some (1, b)) else Some (0, b))"
    unfolding join_frame_def Let_def first passes t(1) field_args join_fields_def kv_args_append append_Cons append_Nil
      append_assoc [symmetric] bind.bind_lunit
    using assms(4) by (simp del: bytes_of_simps) auto
  finally have eq: "s2e_parse_lora_frame s f OFF_jreq_len b = (if ?pass then ?w b \<bind> (\<lambda>b. Some (1, b)) else Some (0, b))" .
  have "fields_ok (join_fields s f)"
    using assms(5,6) by (simp add: join_fields_def fields_ok_def key_lits cstring_def)
  from puts_written [OF puts_kvn [OF this] assms(7-9)] obtain b' where "?w b = Some b'" "buf_ok b'"
    "written b' = elems (written b) (map kv_text (join_fields s f))" .
  then show ?thesis unfolding eq by simp
qed


section \<open>Examples\<close>

definition lora_example :: s2ctx where
  "lora_example = s2ctx_example\<lparr>joineuiFilter := [5, 9, 0], netidFilter := [1, 0, 0, 0], rt_deveui := bytes_of ''DevEUI'',
     rt_joineui := bytes_of ''JoinEUI''\<rparr>"

lemma empty_buf: "n < 2 ^ 32 \<Longrightarrow> buf_ok (dbuf_of n)" "written (dbuf_of n) = []" "clean []" "bufsize (dbuf_of n) = n"
  by (simp_all add: buf_ok_def written_def clean_def dbuf_of_def)

lemma dec_digit: "n < 10 \<Longrightarrow> dec_text n = [48 + n]"
  by (subst dec_text.simps) simp

lemma dec_two: "9 < n \<Longrightarrow> n < 100 \<Longrightarrow> dec_text n = [48 + n div 10, 48 + n mod 10]"
  by (subst dec_text.simps) (simp add: dec_digit)

lemma dash_numeral: "dash_bytes (numeral k) eui = 45 # hex2 (eui div 2 ^ (8 * pred_numeral k)) @ dash_bytes (pred_numeral k) eui"
  by (simp only: numeral_eq_Suc [of k] dash_bytes.simps)

lemma dash_examples: "dash_bytes 7 2 = [45, 48, 48, 45, 48, 48, 45, 48, 48, 45, 48, 48, 45, 48, 48, 45, 48, 48, 45, 48, 50]"
  "dash_bytes 7 0 = [45, 48, 48, 45, 48, 48, 45, 48, 48, 45, 48, 48, 45, 48, 48, 45, 48, 48, 45, 48, 48]"
  by (simp_all add: dash_numeral hex2_def hex_digit_def)

lemma lora_tagged_reported_witness:
  "\<exists>b'. s2e_parse_lora_frame lora_example [1, 0,0,0,0,0,0,0,2, 0x41, 0,0,0,5, 0x50, 21, 0, 0] 16 (dbuf_of 200) = Some (1, b') \<and>
    written b' = bytes_of ''\"DevEUI\":\"00-00-00-00-00-00-00-02\",\"FCnt\":5,\"payload\":\"01000000000000000241000000055015\",\"msgtype\":\"lora\",\"Temp\":21''"
proof -
  let ?ts = "[State [Temp 21]]"
  have f: "tagged_bytes 2 5 ?ts = [1, 0,0,0,0,0,0,0,2, 0x41, 0,0,0,5, 0x50, 21]" by (simp add: tagged_bytes_def)
  have t: "elems [] (map kv_text (tagged_fields 2 5 (tagged_bytes 2 5 ?ts) ?ts)) =
    bytes_of ''\"DevEUI\":\"00-00-00-00-00-00-00-02\",\"FCnt\":5,\"payload\":\"01000000000000000241000000055015\",\"msgtype\":\"lora\",\"Temp\":21''"
    unfolding f
    by (simp add: tagged_fields_def f_eui_def f_int_def f_hex_def f_str_def kv_text_def state_fields_def opt_field_def no_state_def
      to_s_def int_text_def dec_digit dec_two dash_examples hex2_def hex_digit_def esc_letter_def eui_text_def sep_def)
  have l: "length (tagged_bytes 2 5 ?ts) = 16" by (simp add: tagged_length)
  show ?thesis
    using lora_tagged_reported [of 2 5 ?ts "dbuf_of 200" lora_example "[0, 0]"] unfolding empty_buf(2-4) t l unfolding f
    by (auto simp: empty_buf(1,3) key_lits)
qed

lemma lora_unknown_record_hangs_witness:
  "s2e_parse_lora_frame lora_example [1, 0,0,0,0,0,0,0,2, 0x41, 0,0,0,5, 0x20] 15 (dbuf_of 200) = None"
proof -
  have f: "tagged_bytes 2 5 [] = [1, 0,0,0,0,0,0,0,2, 0x41, 0,0,0,5]" by (simp add: tagged_bytes_def)
  have t: "length (elems [] (map kv_text (tagged_fields 2 5 (tagged_bytes 2 5 [] @ [0x20]) []))) < 200"
    unfolding f
    by (simp add: tagged_fields_def f_eui_def f_int_def f_hex_def f_str_def kv_text_def to_s_def int_text_def dec_digit dec_two dash_examples hex2_def
      eui_text_def sep_def esc_letter_def)
  have l: "length (tagged_bytes 2 5 [] @ 0x20 # []) = 15" by (simp add: tagged_length)
  show ?thesis
    using lora_unknown_record_hangs [of 2 5 "[]" "0x20" "[]" "dbuf_of 200" lora_example] t unfolding empty_buf(2-4) Let_def l unfolding f
    by (auto simp: empty_buf(1,3) item_size_def)
qed

lemma lora_wifi_overrun_witness:
  "s2e_parse_lora_frame lora_example (tagged_bytes 2 5 [] @ tlv_bytes (Wifi 7 (replicate 23 (replicate 8 0))) @ [0]) 204 (dbuf_of 900) = None"
  by (rule lora_wifi_overrun) (simp_all add: tagged_length concat_8)

lemma lora_join_filtered_witness:
  "s2e_parse_lora_frame lora_example (replicate 23 0) 23 (dbuf_of 300) = Some (0, dbuf_of 300)"
proof -
  have t: "length (elems [] (map kv_text (join_fields lora_example (replicate 23 0)))) < 300"
    by (simp add: join_fields_def f_eui_def f_int_def f_str_def kv_text_def to_s_def int_text_def dec_digit dec_two dash_examples lora_example_def lora_consts
      rt_rlsbf8_def rt_rlsbf4_def rt_rlsbf2_def eui_text_def hex2_def sep_def esc_letter_def)
  show ?thesis
    using lora_join_filtered [of lora_example "[(5, 9)]" "[]" "replicate 23 0" "dbuf_of 300"] t unfolding empty_buf(2-4)
    by (simp add: empty_buf(1,3) lora_example_def lora_consts rt_rlsbf8_def rt_rlsbf4_def key_lits)
qed


end
