(* ===== verification/S2eRxProps.thy ===== *)
theory S2eRxProps
  imports S2eRx LoraProps
begin

text \<open>
  What the server gets to see of received frames.
\<close>

section \<open>Mirror frames\<close>

text \<open>What makes a frame a mirror of another: the data rate and the bytes.\<close>

definition rx_frame :: "rxjob \<times> bytes \<Rightarrow> u1 \<times> bytes" where
  "rx_frame item = (r_dr (fst item), snd item)"

lemma mirrors_frame:
  assumes "rx_end q i \<le> length (rxdata q)" and "rx_end q p \<le> length (rxdata q)"
  shows "mirrors q i p \<longleftrightarrow> rx_frame (rx_item q p) = rx_frame (rx_item q i)"
proof -
  have "length (snd (rx_item q k)) = r_len (rx_job q k)" if "rx_end q k \<le> length (rxdata q)" for k
    using that by (simp add: rx_item_def rx_end_def)
  from this [OF assms(1)] this [OF assms(2)] show ?thesis
    by (auto simp: mirrors_def rx_frame_def rx_item_def rx_job_def Let_def)
qed

text \<open>C40: Mirror frames never reach the server, at a price. A new frame behind a valid queue is added to it when no queued frame has the same
  data rate and bytes; otherwise the call for the log message has a text where it needs a buffer, and nothing is defined.\<close>

theorem s2e_addRxjob_mirror:
  assumes "rxq_ok (s_rxq s)" and "rx_next (s_rxq s) < MAX_RXJOBS" and "rx_end (s_rxq s) (rx_next (s_rxq s)) \<le> MAX_RXDATA"
  shows "case s2e_addRxjob (rx_next (s_rxq s)) s of
      None \<Rightarrow> rx_frame (rx_item (s_rxq s) (rx_next (s_rxq s))) \<in> rx_frame ` set (rx_items (s_rxq s))
    | Some s' \<Rightarrow> rx_frame (rx_item (s_rxq s) (rx_next (s_rxq s))) \<notin> rx_frame ` set (rx_items (s_rxq s)) \<and>
        rx_items (s_rxq s') = rx_items (s_rxq s) @ [rx_item (s_rxq s) (rx_next (s_rxq s))]"
proof -
  let ?q = "s_rxq s" and ?i = "rx_next (s_rxq s)"
  have ok: "length (rxdata ?q) = MAX_RXDATA" "rx_first ?q \<le> ?i" "\<And>p. p \<in> {rx_first ?q..<?i} \<Longrightarrow> rx_end ?q p \<le> MAX_RXDATA"
    using assms(1) by (auto simp: rxq_ok_def)
  then have "list_ex (mirrors ?q ?i) [rx_first ?q..<?i] \<longleftrightarrow> (\<exists>p \<in> {rx_first ?q..<?i}. rx_frame (rx_item ?q p) = rx_frame (rx_item ?q ?i))"
    using mirrors_frame [of ?q ?i] assms(3) by (simp add: list_ex_iff)
  also have "\<dots> \<longleftrightarrow> rx_frame (rx_item ?q ?i) \<in> rx_frame ` set (rx_items ?q)"
    unfolding rx_items_def set_map set_upt image_image image_iff by (simp add: eq_commute)
  finally have ex: "list_ex (mirrors ?q ?i) [rx_first ?q..<?i] \<longleftrightarrow> rx_frame (rx_item ?q ?i) \<in> rx_frame ` set (rx_items ?q)" .
  have "rxq_commitJob ?i ?q = Some (?q\<lparr>rx_next := Suc ?i\<rparr>)" using assms(2) by (simp add: rxq_commitJob_def MAX_RXJOBS_def)
  moreover have "rx_item (?q\<lparr>rx_next := n\<rparr>) = rx_item ?q" for n by (simp add: fun_eq_iff rx_item_def rx_job_def)
  ultimately show ?thesis using ok(2) ex by (simp add: s2e_addRxjob_def rx_items_def)
qed

section \<open>The text of a report\<close>

definition uplink_fields :: "ustime \<Rightarrow> s2ctx \<Rightarrow> rxjob \<Rightarrow> sL \<Rightarrow> (bytes \<times> kval) list" where
  "uplink_fields clock s j gpstime =
     [(bytes_of ''RefTime'', KArg (AT (frame_reftime clock s))), (bytes_of ''DR'', KArg (Ai (int (r_dr j)))), f_int ''Freq'' (r_freq j),
      (bytes_of ''upinfo'', KObj
        [(bytes_of ''rctx'', KArg (AI (r_rctx j))), (bytes_of ''xtime'', KArg (AI (r_xtime j))), (bytes_of ''gpstime'', KArg (AI gpstime)),
         (bytes_of ''fts'', KArg (Ai (r_fts j))), (bytes_of ''rssi'', KArg (Ai (- int (r_rssi j)))),
         (bytes_of ''snr'', KArg (Ag (of_int (r_snr j) / 4))), (bytes_of ''rxtime'', KArg (AT (usec_double (clock + rt_utcOffset (s_ts s)))))])]"

lemma uplink_args_fields: "uplink_args clock s j g = kv_args (uplink_fields clock s j g)"
  by (simp add: uplink_args_def uplink_fields_def kv_def kv_long_def kv_args_def f_int_def)

text \<open>The fields of a job are in the ranges of their types.\<close>

definition rxjob_typed :: "rxjob \<Rightarrow> bool" where
  "rxjob_typed j \<longleftrightarrow> - (2 ^ 63) \<le> r_rctx j \<and> r_rctx j < 2 ^ 63 \<and> - (2 ^ 63) \<le> r_xtime j \<and> r_xtime j < 2 ^ 63 \<and>
     - (2 ^ 31) \<le> r_fts j \<and> r_fts j < 2 ^ 31 \<and> r_rssi j < 256 \<and> r_dr j < 256"

lemma uplink_fields_ok:
  assumes "rxjob_typed j" and "- (2 ^ 63) \<le> g" and "g < 2 ^ 63"
  shows "fields_ok (uplink_fields clock s j g)"
  using assms by (simp add: fields_ok_def uplink_fields_def rxjob_typed_def key_lits)

text \<open>Without an opening brace the fields are separated in the same way.\<close>

lemma elems_commas:
  assumes "\<forall>t \<in> set ts. t \<noteq> [] \<and> last t \<notin> {44, 58, 91, 123}"
  shows "elems [] ts = commas ts" "elems [123] ts = 123 # commas ts"
proof -
  show "elems [123] ts = 123 # commas ts" using elems_open [of 123 ts "[]"] assms by simp
  show "elems [] ts = commas ts" using assms elems_tail by (cases ts) (simp_all add: sep_def commas_tail)
qed

lemma fields_ends: "fields_ok fs \<Longrightarrow> \<forall>t \<in> set (map kv_text fs). t \<noteq> [] \<and> last t \<notin> {44, 58, 91, 123}"
proof
  fix t
  assume f: "fields_ok fs" and "t \<in> set (map kv_text fs)"
  then obtain kv where "t = kv_text kv" "kv \<in> set fs" by auto
  moreover have "kval_ok (snd kv)" using f \<open>kv \<in> set fs\<close> by (simp add: fields_ok_def)
  ultimately show "t \<noteq> [] \<and> last t \<notin> {44, 58, 91, 123}" using kv_text_ends [of kv] by simp
qed

section \<open>Flushing the queue\<close>

definition report_fields :: "ustime \<Rightarrow> s2ctx \<Rightarrow> rxjob \<Rightarrow> uL \<times> u4 \<times> tlv list \<Rightarrow> sL \<Rightarrow> (bytes \<times> kval) list" where
  "report_fields clock s j fr g =
     (case fr of (eui, fcnt, ts) \<Rightarrow> tagged_fields eui fcnt (tagged_bytes eui fcnt ts) ts @ uplink_fields clock s j g)"

definition report_text :: "bool \<Rightarrow> (bytes \<times> kval) list \<Rightarrow> bytes" where
  "report_text verbose fs = (if verbose then kval_text (KObj fs) else tl (kval_text (KObj fs)))"

text \<open>A job whose frame is a tagged one of well formed records, with a GPS time, and whose report fits \<open>n\<close> bytes.\<close>

definition reportable :: "s2conf \<Rightarrow> ustime \<Rightarrow> s2ctx \<Rightarrow> nat \<Rightarrow> rxjob \<Rightarrow> uL \<times> u4 \<times> tlv list \<Rightarrow> sL \<Rightarrow> bool" where
  "reportable conf clock s n j fr g \<longleftrightarrow> (case fr of (eui, fcnt, ts) \<Rightarrow>
     eui < 2 ^ 64 \<and> fcnt < 2 ^ 32 \<and> tlvs_ok ts \<and> length (tagged_bytes eui fcnt ts) < 256 \<and> r_len j = length (tagged_bytes eui fcnt ts) \<and>
     (\<exists>behind. drop (r_off j) (rxdata (s_rxq s)) = tagged_bytes eui fcnt ts @ behind) \<and> rxjob_typed j \<and>
     ts_xtime2gpstime conf (s_ts s) (r_xtime j) = Some g \<and> - (2 ^ 63) \<le> g \<and> g < 2 ^ 63 \<and>
     n < 2 ^ 32 \<and> length (kval_text (KObj (report_fields clock s j fr g))) < n)"

lemma flush_frame_sends:
  assumes "reportable conf clock s n j fr g"
  shows "flush_frame conf clock verbose n j s = Some (s\<lparr>s_out := s_out s @ [SendText (report_text verbose (report_fields clock s j fr g))]\<rparr>)"
proof -
  obtain eui fcnt ts where fr: "fr = (eui, fcnt, ts)" by (cases fr)
  let ?f = "tagged_bytes eui fcnt ts" and ?up = "uplink_fields clock s j g" and ?fs = "report_fields clock s j fr g"
  obtain behind where r: "eui < 2 ^ 64" "fcnt < 2 ^ 32" "tlvs_ok ts" "length ?f < 256" "r_len j = length ?f"
    "drop (r_off j) (rxdata (s_rxq s)) = ?f @ behind" "rxjob_typed j" "ts_xtime2gpstime conf (s_ts s) (r_xtime j) = Some g"
    "- (2 ^ 63) \<le> g" "g < 2 ^ 63" "n < 2 ^ 32" "length (kval_text (KObj ?fs)) < n"
    using assms unfolding reportable_def fr prod.case by blast
  obtain w where w: "puts (tagged_fields eui fcnt ?f ts) w"
    "\<And>b. s2e_parse_lora_frame s (?f @ behind) (length ?f) b = w b \<bind> lora_loop (?f @ behind) (length ?f) (length ?f)"
    using tagged_read [OF refl r(1-3), of "length ?f" behind s] r(4) by (auto simp: ends_items_def)
  let ?w = "\<lambda>b. w b \<bind> uj_encKVn (kv_args ?up @ [FStr None])"
  have p: "puts ?fs ?w"
    unfolding report_fields_def fr prod.case by (rule puts_bind [OF w(1) puts_kvn [OF uplink_fields_ok [OF r(7,9,10)]]])
  have ends: "\<forall>t \<in> set (map kv_text ?fs). t \<noteq> [] \<and> last t \<notin> {44, 58, 91, 123}"
    using p fields_ends unfolding puts_def by blast
  obtain b0 where b0: "(if verbose then uj_encOpen 123 (dbuf_of n) else Some (dbuf_of n)) = Some b0" "buf_ok b0" "bufsize b0 = n"
    "written b0 = (if verbose then [123] else [])"
  proof (cases verbose)
    case True
    have "2 < n" using r(12) unfolding kval_obj by simp
    then show ?thesis
      using writesD [OF writes_encOpen, of "dbuf_of n"] empty_buf(1) [of n] empty_buf(2-4) r(11) True that by (auto simp: sep_def)
  next
    case False
    then show ?thesis using empty_buf(1) [of n] empty_buf(2-4) r(11) that by simp
  qed
  have len: "length (elems (written b0) (map kv_text ?fs)) + 1 \<le> length (kval_text (KObj ?fs))"
    using elems_commas [OF ends] b0(4) unfolding kval_obj by simp
  obtain b where b: "?w b0 = Some b" "buf_ok b" "bufsize b = n" "written b = elems (written b0) (map kv_text ?fs)"
    by (rule puts_written [OF p b0(2)]) (use len r(12) b0(3,4) in \<open>auto simp: clean_def\<close>)
  let ?b = "uj_encClose 125 b"
  have room: "length (written b) < n" "length (written b) + 1 < n" using len r(12) b(4) by simp_all
  have c: "buf_ok ?b" "bufsize ?b = n" "written ?b = written b @ [125]"
    using written_addChar [OF b(2), of 125] b(3) room by (simp_all add: uj_encClose_def)
  then have pos: "pos ?b < n" using room length_written [OF c(1)] by simp
  have tx: "written ?b = report_text verbose ?fs"
    using elems_commas [OF ends] b(4) b0(4) c(3) unfolding report_text_def kval_obj by simp
  obtain b1 where b1: "w b0 = Some b1" using b(1) by (cases "w b0") auto
  have "s2e_parse_lora_frame s (drop (r_off j) (rxdata (s_rxq s))) (r_len j) b0 = Some (1, b1)"
    unfolding r(5,6) w(2) b1 using loop_end by simp
  moreover have "uj_encKVn (uplink_args clock s j g @ [FStr None]) b1 = Some b"
    using b(1) b1 unfolding uplink_args_fields by simp
  moreover have "xeos ?b = Some (1, ?b\<lparr>buf := (buf ?b)[pos ?b := 0]\<rparr>)" using pos c(2) by (simp add: xeos_def)
  moreover have "take (pos ?b) ((buf ?b)[pos ?b := 0]) = written ?b" by (simp add: written_def)
  ultimately show ?thesis
    using pos c(2) tx unfolding flush_frame_def b0(1) by (simp add: r(8) send_text_def)
qed

lemma report_json:
  assumes "fields_ok fs" and "fs \<noteq> []"
  shows "is_json (report_text verbose fs) \<longleftrightarrow> verbose"
proof (cases verbose)
  case True
  have "kval_ok (KObj fs)" using assms(1) unfolding fields_ok_def kval_obj(3) .
  from kval_json [OF this] show ?thesis using True unfolding report_text_def by (simp only: if_True)
next
  case False
  obtain kv us where fs: "fs = kv # us" using assms(2) by (cases fs) auto
  then obtain body where c: "commas (map kv_text fs) = 34 # body" by (cases us) (auto simp: kv_text_def)
  have "\<not> (json_ok j \<and> json_text j = 34 # body @ [125])" for j
  proof (cases j)
    case (JNum neg ds frac ex)
    then show ?thesis by (cases ds; cases neg) (auto simp: num_text_def digits_def)
  qed (auto simp: bytes_of_def)
  then show ?thesis using False unfolding report_text_def is_json_def kval_obj(2) c by simp
qed

lemma reportable_other:
  "reportable conf clock (s\<lparr>s_rxq := (s_rxq s)\<lparr>rx_first := k\<rparr>\<rparr>) = reportable conf clock s"
  "reportable conf clock (s\<lparr>s_out := evs\<rparr>) = reportable conf clock s"
  "report_fields clock (s\<lparr>s_rxq := q\<rparr>) = report_fields clock s" "report_fields clock (s\<lparr>s_out := evs\<rparr>) = report_fields clock s"
  by (simp_all add: fun_eq_iff reportable_def report_fields_def uplink_fields_def frame_reftime_def)

lemma report_fields_ok:
  assumes "reportable conf clock s n j fr g"
  shows "fields_ok (report_fields clock s j fr g)" "report_fields clock s j fr g \<noteq> []"
proof -
  obtain eui fcnt ts where fr: "fr = (eui, fcnt, ts)" by (cases fr)
  have r: "eui < 2 ^ 64" "fcnt < 2 ^ 32" "tlvs_ok ts" "length (tagged_bytes eui fcnt ts) < 256" "rxjob_typed j" "- (2 ^ 63) \<le> g" "g < 2 ^ 63"
    using assms unfolding reportable_def fr prod.case by blast+
  then obtain w where w: "puts (tagged_fields eui fcnt (tagged_bytes eui fcnt ts) ts) w"
    using tagged_read [OF refl r(1-3), of "length (tagged_bytes eui fcnt ts)" "[]" s] by (auto simp: ends_items_def)
  then show "fields_ok (report_fields clock s j fr g)" using uplink_fields_ok [OF r(5-7)]
    by (auto simp: report_fields_def fr puts_def fields_ok_def)
  show "report_fields clock s j fr g \<noteq> []" by (simp add: report_fields_def fr tagged_fields_def)
qed

lemma flush_all:
  assumes "\<And>k. io_sendbuf io k MIN_UPJSON_SIZE = Some n"
  shows "rx_first (s_rxq s) \<le> rx_next (s_rxq s) \<Longrightarrow> rx_next (s_rxq s) < 256 \<Longrightarrow>
    (\<And>i. rx_first (s_rxq s) \<le> i \<Longrightarrow> i < rx_next (s_rxq s) \<Longrightarrow> reportable conf clock s n (rx_job (s_rxq s) i) (fr i) (g i)) \<Longrightarrow>
    s2e_flushRxjobs conf io clock verbose s = Some (s\<lparr>s_rxq := (s_rxq s)\<lparr>rx_first := rx_next (s_rxq s)\<rparr>,
      s_out := s_out s @ map (\<lambda>i. SendText (report_text verbose (report_fields clock s (rx_job (s_rxq s) i) (fr i) (g i))))
        [rx_first (s_rxq s)..<rx_next (s_rxq s)]\<rparr>)"
proof (induction "rx_next (s_rxq s) - rx_first (s_rxq s)" arbitrary: s)
  case 0
  then show ?case by (subst s2e_flushRxjobs.simps) simp
next
  case (Suc m)
  let ?q = "s_rxq s"
  let ?i = "rx_first ?q"
  have i: "?i < rx_next ?q" "(?i + 1) mod 256 = Suc ?i" using Suc.hyps(2) Suc.prems(2) by simp_all
  let ?s1 = "s\<lparr>s_rxq := ?q\<lparr>rx_first := Suc ?i\<rparr>\<rparr>"
  let ?s2 = "?s1\<lparr>s_out := s_out s @ [SendText (report_text verbose (report_fields clock s (rx_job ?q ?i) (fr ?i) (g ?i)))]\<rparr>"
  have "flush_frame conf clock verbose n (rxjobs ?q ! ?i) ?s1 = Some ?s2"
    using flush_frame_sends [of conf clock ?s1 n "rx_job ?q ?i" "fr ?i" "g ?i" verbose] Suc.prems(3) [of ?i] i(1)
    by (simp add: reportable_other rx_job_def)
  then have "s2e_flushRxjobs conf io clock verbose s = s2e_flushRxjobs conf io clock verbose ?s2"
    using i assms by (subst s2e_flushRxjobs.simps) (simp add: Let_def)
  also have "\<dots> = Some (?s2\<lparr>s_rxq := (s_rxq ?s2)\<lparr>rx_first := rx_next (s_rxq ?s2)\<rparr>,
      s_out := s_out ?s2 @ map (\<lambda>i. SendText (report_text verbose (report_fields clock ?s2 (rx_job (s_rxq ?s2) i) (fr i) (g i))))
        [rx_first (s_rxq ?s2)..<rx_next (s_rxq ?s2)]\<rparr>)"
    using Suc.hyps(2) Suc.prems i by (intro Suc.hyps(1)) (simp_all add: reportable_other rx_job_def)
  finally show ?case using i(1) by (simp add: reportable_other rx_job_def upt_conv_Cons)
qed


section \<open>Examples\<close>

definition rx_example :: s2ctx where
  "rx_example = lora_example\<lparr>s_ts := sync_example\<lparr>ppsSync := zero_sync\<rparr>,
     s_rxq := \<lparr>rxjobs = replicate 64 \<lparr>r_rctx = 0, r_xtime = 7, r_fts = - 1, r_freq = 868100000, r_off = 0, r_rssi = 50,
       r_snr = 0, r_dr = 5, r_len = 16\<rparr>, rxdata = [1, 0,0,0,0,0,0,0,2, 0x41, 0,0,0,5, 0x50, 21] @ replicate 10224 0, rx_first = 0, rx_next = 1\<rparr>\<rparr>"

definition roomy_io :: s2io where
  "roomy_io = \<lparr>io_sendbuf = (\<lambda>_ _. Some 1000), io_ral_tx = (\<lambda>_. 0), io_ral_txstatus = (\<lambda>_. 0)\<rparr>"

lemma zero_texts: "length (fixed_text 6 0) = 8" "general_text 6 0 = [48]"
  by (simp_all add: fixed_text_def general_text_def dec_digit pad0_def zeros_def round_even_def)

lemma dec_more: "9 < n \<Longrightarrow> dec_text n = dec_text (n div 10) @ [48 + n mod 10]"
  by (subst dec_text.simps) simp

lemma example_numbers: "length (dec_text 868100000) = 9" "fl 0 = 0"
  by (simp_all add: dec_more dec_digit fl_def to_double_def)

lemma rx_example_frame:
  "reportable dflt_conf 0 rx_example 1000 (rx_job (s_rxq rx_example) 0) (2, 5, [State [Temp 21]]) 0"
proof -
  let ?ts = "[State [Temp 21]]" and ?j = "rx_job (s_rxq rx_example) 0"
  have f: "tagged_bytes 2 5 ?ts = [1, 0,0,0,0,0,0,0,2, 0x41, 0,0,0,5, 0x50, 21]" by (simp add: tagged_bytes_def)
  have j: "?j = \<lparr>r_rctx = 0, r_xtime = 7, r_fts = - 1, r_freq = 868100000, r_off = 0, r_rssi = 50, r_snr = 0, r_dr = 5, r_len = 16\<rparr>"
    by (simp add: rx_example_def rx_job_def)
  have mux: "muxtime rx_example = 0" "rt_utcOffset (s_ts rx_example) = 0"
    by (simp_all add: rx_example_def lora_example_def s2ctx_example_def s2e_ini_def setDC_def sync_example_def Let_def)
  have g: "ts_xtime2gpstime dflt_conf (s_ts rx_example) (r_xtime ?j) = Some 0"
    by (simp add: rx_example_def ts_xtime2gpstime_def zero_sync_def)
  have "length (kval_text (KObj (report_fields 0 rx_example ?j (2, 5, ?ts) 0))) < 1000"
    unfolding report_fields_def prod.case f uplink_fields_def j
    by (simp add: tagged_fields_def f_eui_def f_int_def f_hex_def f_str_def state_fields_def opt_field_def no_state_def
      to_s_def int_text_def dec_digit dec_two dash_examples hex2_def hex_digit_def esc_letter_def eui_text_def zero_texts
      frame_reftime_def mux usec_double_def example_numbers)
  then show ?thesis using g j unfolding reportable_def prod.case f
    by (simp add: rx_example_def rxjob_typed_def)
qed


lemma s2e_addRxjob_mirror_witness:
  "s2e_addRxjob 1 (rx_example\<lparr>s_rxq := (s_rxq rx_example)\<lparr>rxjobs := (rxjobs (s_rxq rx_example))[1 := (rx_job (s_rxq rx_example) 0)\<lparr>r_off := 16\<rparr>],
     rxdata := [1, 0,0,0,0,0,0,0,2, 0x41, 0,0,0,5, 0x50, 21] @ [1, 0,0,0,0,0,0,0,2, 0x41, 0,0,0,5, 0x50, 21] @ replicate 10208 0\<rparr>\<rparr>) = None"
proof -
  let ?s = "rx_example\<lparr>s_rxq := (s_rxq rx_example)\<lparr>rxjobs := (rxjobs (s_rxq rx_example))[1 := (rx_job (s_rxq rx_example) 0)\<lparr>r_off := 16\<rparr>],
     rxdata := [1, 0,0,0,0,0,0,0,2, 0x41, 0,0,0,5, 0x50, 21] @ [1, 0,0,0,0,0,0,0,2, 0x41, 0,0,0,5, 0x50, 21] @ replicate 10208 0\<rparr>\<rparr>"
  have "rxq_ok (s_rxq ?s)" by (simp add: rxq_ok_def rx_example_def rx_consts rx_end_def rx_job_def)
  moreover have n: "rx_next (s_rxq ?s) = 1" by (simp add: rx_example_def)
  moreover have "rx_end (s_rxq ?s) 1 \<le> MAX_RXDATA" by (simp add: rx_example_def rx_consts rx_end_def rx_job_def)
  moreover have "rx_frame (rx_item (s_rxq ?s) 1) \<in> rx_frame ` set (rx_items (s_rxq ?s))"
    by (simp add: rx_items_def rx_frame_def rx_item_def rx_job_def rx_example_def blk_def)
  ultimately show ?thesis
    using s2e_addRxjob_mirror [of ?s] by (auto simp: rx_consts split: option.splits)
qed

end
