(* ===== verification/Uri.thy ===== *)
theory Uri
  imports Prelude
begin

text \<open>
  The parser of URIs in src/src/net.c. A string is the list of its bytes without the terminator; positions are offsets
  into it.
\<close>

section \<open>Definitions\<close>

definition URI_BAD :: nat where "URI_BAD = 0"
definition URI_TCP :: nat where "URI_TCP = 1"
definition URI_TLS :: nat where "URI_TLS = 2"

lemmas uri_consts = URI_BAD_def URI_TCP_def URI_TLS_def

record uri_info =
  schemeEnd :: nat
  hostportBeg :: nat
  hostportEnd :: nat
  hostBeg :: nat
  hostEnd :: nat
  portBeg :: nat
  portEnd :: nat
  pathBeg :: nat
  pathEnd :: nat

text \<open>Comparison up to the case of the text; \<open>what\<close> is in lower case.\<close>

fun icase_from :: "bytes \<Rightarrow> bytes \<Rightarrow> nat \<Rightarrow> nat" where
  "icase_from p [] n = n"
| "icase_from p (d # ds) n =
     (let c = ch p n; c = (if c \<ge> 65 \<and> c \<le> 90 then c + 32 else c)
      in if c \<noteq> d then 0 else icase_from p ds (n + 1))"

definition http_icaseCmp :: "bytes \<Rightarrow> bytes \<Rightarrow> nat" where
  "http_icaseCmp p what = icase_from p what 0"

definition uri_isScheme :: "bytes \<Rightarrow> bytes \<Rightarrow> nat" where
  "uri_isScheme uri scheme = (let n = http_icaseCmp uri scheme in if n \<noteq> 0 \<and> ch uri n = 58 then n else 0)"

text \<open>The next character, 0 at the end, and the position behind it.\<close>

definition next_ch :: "bytes \<Rightarrow> nat \<Rightarrow> nat \<times> nat" where
  "next_ch b p = (if p \<ge> length b then (0, p) else (b ! p, p + 1))"

text \<open>The loops that read up to the end or to one of some characters.\<close>

function uri_scan :: "nat set \<Rightarrow> bytes \<Rightarrow> nat \<Rightarrow> nat \<times> nat" where
  "uri_scan stops b p = (let (c, p) = next_ch b p in if c = 0 \<or> c \<in> stops then (c, p) else uri_scan stops b p)"
  by pat_completeness auto
termination by (relation "measure (\<lambda>(_, b, p). length b - p)") (auto simp: next_ch_def split: if_splits)

declare uri_scan.simps [simp del]

text \<open>The end of a part: the last character read belongs to it only when it is the end of the text.\<close>

definition part_end :: "nat \<times> nat \<Rightarrow> nat" where
  "part_end cp = (if fst cp = 0 then snd cp else snd cp - 1)"

text \<open>The host: \<open>None\<close> for the failure, else the end of host and port so far, the host, and the character behind it.\<close>

definition uri_host :: "bytes \<Rightarrow> nat \<Rightarrow> (nat \<times> nat \<times> nat \<times> nat \<times> nat) option" where
  "uri_host b hp =
     (let (c, p) = next_ch b hp in
      if c = 91 then
        (let beg = p; (c, p) = uri_scan {93} b p in
         if c = 0 then None
         else let (c, q) = next_ch b p in Some (p - 1, beg, p - 1 - 1, c, q))
      else
        (let (c, p) = (if c = 0 \<or> c = 58 \<or> c = 47 then (c, p) else uri_scan {58, 47} b p);
             e = part_end (c, p)
         in Some (e, hp, e, c, p)))"

definition uri_port :: "bytes \<Rightarrow> nat \<Rightarrow> nat \<Rightarrow> (nat \<times> nat \<times> nat \<times> nat) option" where
  "uri_port b c p =
     (if c = 58 then
        let (c, q) = uri_scan {47} b p; e = part_end (c, q)
        in if p = e then None else Some (p, e, c, q)
      else Some (0, 0, c, p))"

definition uri_path :: "bytes \<Rightarrow> nat \<Rightarrow> nat \<Rightarrow> nat \<times> nat" where
  "uri_path b c p = (if c = 47 then (p - 1, part_end (uri_scan {32, 9, 13, 10} b p)) else (0, 0))"

definition uri_scheme :: "bytes \<Rightarrow> nat \<Rightarrow> bool \<Rightarrow> (nat \<times> nat) option" where
  "uri_scheme b p skip =
     (if skip then Some (0, p)
      else
        let (c, p) = uri_scan {58} b p in
        if c = 0 then None
        else
          let e = p - 1; (c1, p) = next_ch b p; (c2, p2) = next_ch b p in
          if c1 \<noteq> 47 \<or> c2 \<noteq> 47 then None else Some (e, p2))"

definition uri_parse :: "bytes \<Rightarrow> nat \<Rightarrow> bool \<Rightarrow> uri_info option" where
  "uri_parse b p skip =
     (case uri_scheme b p skip of None \<Rightarrow> None | Some (sEnd, beg) \<Rightarrow>
      case uri_host b beg of None \<Rightarrow> None | Some (hpEnd, hBeg, hEnd, c, p) \<Rightarrow>
      if hBeg = hEnd then None
      else
        case uri_port b c p of None \<Rightarrow> None | Some (pBeg, pEnd, c', p) \<Rightarrow>
        let (aBeg, aEnd) = uri_path b c' p in
        Some \<lparr>schemeEnd = sEnd, hostportBeg = beg, hostportEnd = (if c = 58 then pEnd else hpEnd), hostBeg = hBeg, hostEnd = hEnd,
          portBeg = pBeg, portEnd = pEnd, pathBeg = aBeg, pathEnd = aEnd\<rparr>)"

definition sub_text :: "nat \<Rightarrow> nat \<Rightarrow> bytes \<Rightarrow> bytes" where
  "sub_text beg e t = take (e - beg) (drop beg t)"

text \<open>
  The mode with host and port; for a bad URI both are empty. \<open>None\<close>: the host \<open>[]\<close> has a negative length, which is
  copied.
\<close>

definition uri_checkHostPortUri :: "bytes \<Rightarrow> bytes \<Rightarrow> nat \<Rightarrow> nat \<Rightarrow> (nat \<times> bytes \<times> bytes) option" where
  "uri_checkHostPortUri uri scheme hostlen portlen =
     (let n = http_icaseCmp uri scheme; tls = (n \<noteq> 0 \<and> ch uri n = 115) in
      if n = 0 \<or> ch uri (if tls then n + 1 else n) \<noteq> 58 then Some (URI_BAD, [], [])
      else
        case uri_parse uri 0 False of
          None \<Rightarrow> Some (URI_BAD, [], [])
        | Some u \<Rightarrow>
          if pathBeg u \<noteq> 0 \<or> portBeg u = 0 then Some (URI_BAD, [], [])
          else if hostlen \<le> hostEnd u - hostBeg u \<or> portlen \<le> portEnd u - portBeg u then Some (URI_BAD, [], [])
          else if hostEnd u < hostBeg u then None
          else Some (if tls then URI_TLS else URI_TCP, sub_text (hostBeg u) (hostEnd u) uri, sub_text (portBeg u) (portEnd u) uri))"

section \<open>Well formed URIs\<close>

text \<open>A part of a URI is free of zeros and of the characters that end it.\<close>

definition part :: "nat set \<Rightarrow> bytes \<Rightarrow> bool" where
  "part stops t \<longleftrightarrow> 0 \<notin> set t \<and> set t \<inter> stops = {}"

lemma part_Cons [simp]: "part stops (c # t) \<longleftrightarrow> c \<noteq> 0 \<and> c \<notin> stops \<and> part stops t" "part stops []"
  by (auto simp: part_def)

lemma text_at: "drop p b = c # cs \<Longrightarrow> p < length b \<and> b ! p = c"
  by (metis drop_eq_Nil2 linorder_not_le list.distinct(1) nth_via_drop)

lemma uri_scan_part:
  "drop p b = t @ rest \<Longrightarrow> part stops t \<Longrightarrow> p \<le> length b \<Longrightarrow>
   uri_scan stops b p = (case rest of [] \<Rightarrow> (0, p + length t)
     | c # _ \<Rightarrow> if c = 0 \<or> c \<in> stops then (c, p + length t + 1) else uri_scan stops b (p + length t))"
proof (induction t arbitrary: p)
  case Nil
  then show ?case
  proof (cases rest)
    case (Cons c cs)
    then have "p < length b" "b ! p = c" using Nil(1) text_at [of p b c cs] by simp_all
    then show ?thesis using Cons by (cases "c = 0 \<or> c \<in> stops") (subst uri_scan.simps, auto simp: next_ch_def)
  qed (subst uri_scan.simps, simp add: next_ch_def)
next
  case (Cons x t)
  have x: "p < length b" "b ! p = x" using Cons.prems(1) text_at [of p b x "t @ rest"] by simp_all
  have "drop (Suc p) b = t @ rest" using Cons.prems(1) by (metis append_Cons drop_Suc list.sel(3) tl_drop)
  then have "uri_scan stops b (Suc p) = (case rest of [] \<Rightarrow> (0, Suc p + length t)
     | c # _ \<Rightarrow> if c = 0 \<or> c \<in> stops then (c, Suc p + length t + 1) else uri_scan stops b (Suc p + length t))"
    using Cons.IH Cons.prems(2) x(1) by simp
  then show ?case using x Cons.prems(2) by (subst uri_scan.simps) (simp add: next_ch_def split: list.splits)
qed

definition uri_text :: "bytes \<Rightarrow> bytes \<Rightarrow> bytes \<Rightarrow> bytes \<Rightarrow> bytes" where
  "uri_text scheme host port way = scheme @ [58, 47, 47] @ host @ 58 # port @ way"

definition uri_parts_ok :: "bytes \<Rightarrow> bytes \<Rightarrow> bytes \<Rightarrow> bytes \<Rightarrow> bool" where
  "uri_parts_ok scheme host port way \<longleftrightarrow> part {58} scheme \<and> part {58, 47} host \<and> host \<noteq> [] \<and> hd host \<noteq> 91 \<and> part {47} port \<and> port \<noteq> [] \<and>
     (way = [] \<or> (\<exists>t. way = 47 # t \<and> part {32, 9, 13, 10} t))"

lemma drop_step: "drop p b = as @ bs \<Longrightarrow> drop (p + length as) b = bs"
  by (metis add.commute append_eq_conv_conj drop_drop)

lemma next_ch_at: "drop p b = c # cs \<Longrightarrow> next_ch b p = (c, p + 1)"
  using text_at [of p b c cs] by (simp add: next_ch_def)

lemma uri_parse_text:
  assumes "uri_parts_ok scheme host port way"
  shows "uri_parse (uri_text scheme host port way) 0 False = Some
    \<lparr>schemeEnd = length scheme, hostportBeg = length scheme + 3, hostportEnd = length scheme + 3 + length host + 1 + length port,
     hostBeg = length scheme + 3, hostEnd = length scheme + 3 + length host,
     portBeg = length scheme + 3 + length host + 1, portEnd = length scheme + 3 + length host + 1 + length port,
     pathBeg = (if way = [] then 0 else length scheme + 3 + length host + 1 + length port),
     pathEnd = (if way = [] then 0 else length scheme + 3 + length host + 1 + length port + length way)\<rparr>"
proof -
  let ?u = "uri_text scheme host port way" and ?h = "length scheme + 3"
  note ok = assms [unfolded uri_parts_ok_def]
  let ?p = "?h + length host + 1"
  let ?a = "?p + length port"
  have d0: "drop 0 ?u = scheme @ 58 # 47 # 47 # host @ 58 # port @ way" by (simp add: uri_text_def)
  have d1: "drop (length scheme + 1) ?u = 47 # 47 # host @ 58 # port @ way"
    using drop_step [of 0 ?u "scheme @ [58]"] d0 by simp
  have d2: "drop (length scheme + 1 + 1) ?u = 47 # host @ 58 # port @ way" using drop_step [of _ ?u "[47]"] d1 by simp
  have dh: "drop ?h ?u = host @ 58 # port @ way" using drop_step [of 0 ?u "scheme @ [58, 47, 47]"] d0 by simp
  have dp: "drop ?p ?u = port @ way" using drop_step [OF dh [unfolded append_assoc]] drop_step [of ?h ?u "host @ [58]"] dh by simp
  have da: "drop ?a ?u = way" using drop_step [OF dp] by (simp add: add.assoc)
  have le: "?h \<le> length ?u" "?p \<le> length ?u" by (simp_all add: uri_text_def)
  have s: "uri_scan {58} ?u 0 = (58, length scheme + 1)" using uri_scan_part [OF d0, of "{58}"] ok by simp
  have scheme: "uri_scheme ?u 0 False = Some (length scheme, ?h)"
    using next_ch_at [OF d1] next_ch_at [OF d2] by (simp add: uri_scheme_def s numeral_3_eq_3)
  obtain c cs where h: "host = c # cs" using ok by (cases host) auto
  have c: "next_ch ?u ?h = (c, ?h + 1)" "c \<noteq> 0" "c \<notin> {91, 58, 47}" using next_ch_at [of ?h ?u c] dh ok h by auto
  have "drop (?h + 1) ?u = cs @ 58 # port @ way" using drop_step [of ?h ?u "[c]"] dh h by simp
  then have "uri_scan {58, 47} ?u (?h + 1) = (58, ?p)" using uri_scan_part [of "?h + 1" ?u cs _ "{58, 47}"] ok h by (simp add: uri_text_def)
  then have host: "uri_host ?u ?h = Some (?h + length host, ?h, ?h + length host, 58, ?p)"
    using c by (simp add: uri_host_def part_end_def Let_def)
  have "uri_scan {47} ?u ?p = (case way of [] \<Rightarrow> (0, ?a) | _ \<Rightarrow> (47, ?a + 1))"
    using uri_scan_part [OF dp, of "{47}"] ok le by (auto split: list.splits)
  then have port: "uri_port ?u 58 ?p = Some (?p, ?a, case way of [] \<Rightarrow> 0 | _ \<Rightarrow> 47, case way of [] \<Rightarrow> ?a | _ \<Rightarrow> ?a + 1)"
    using ok by (auto simp: uri_port_def part_end_def split: list.splits)
  have way: "uri_path ?u (case way of [] \<Rightarrow> 0 | _ \<Rightarrow> 47) (case way of [] \<Rightarrow> ?a | _ \<Rightarrow> ?a + 1) =
      (if way = [] then (0, 0) else (?a, ?a + length way))"
  proof (cases way)
    case (Cons x t)
    then have t: "x = 47" "part {32, 9, 13, 10} t" using ok by auto
    have "drop (?a + 1) ?u = t @ []" using drop_step [of ?a ?u "[x]"] da Cons by simp
    then have "uri_scan {32, 9, 13, 10} ?u (?a + 1) = (0, ?a + 1 + length t)"
      using uri_scan_part [of "?a + 1" ?u t "[]"] t(2) Cons by (simp add: uri_text_def)
    then show ?thesis using Cons t(1) by (simp add: uri_path_def part_end_def)
  qed (simp add: uri_path_def)
  show ?thesis unfolding uri_parse_def scheme option.case prod.case host port Let_def way
    using ok by (auto split: list.splits)
qed

lemma sub_text_at: "drop beg b = t @ rest \<Longrightarrow> sub_text beg (beg + length t) b = t"
  by (simp add: sub_text_def)

lemma icase_lower:
  "\<forall>c \<in> set s. 97 \<le> c \<and> c \<le> 122 \<Longrightarrow> drop n p = s @ rest \<Longrightarrow> icase_from p s n = n + length s"
proof (induction s arbitrary: n)
  case (Cons d ds)
  have "ch p n = d" using text_at [of n p d] Cons.prems(2) by (simp add: ch_def)
  moreover have "drop (n + 1) p = ds @ rest" using drop_step [of n p "[d]"] Cons.prems(2) by simp
  ultimately show ?case using Cons.IH [of "n + 1"] Cons.prems(1) by auto
qed simp



text \<open>The last character of an IPv6 address is lost.\<close>

lemma uri_ipv6_cut:
  "map_option (\<lambda>u. sub_text (hostBeg u) (hostEnd u) (bytes_of ''ws://[fe80::1]:80'')) (uri_parse (bytes_of ''ws://[fe80::1]:80'') 0 False) =
    Some (bytes_of ''fe80::'')"
  by code_simp

lemma uri_empty_host: "uri_checkHostPortUri (bytes_of ''ws://[]:80'') (bytes_of ''ws'') 128 16 = None"
  by code_simp

end
