(* ===== verification/Tc.thy ===== *)
theory Tc
  imports Uri UjTotal UjEnc "HOL-Library.Monad_Syntax"
begin

text \<open>
  The engine that connects the station to its server, src/src/tc.c: it asks a discovery server for the URI of the
  message server (infos), connects to that (muxs), and tries again after growing waits.
\<close>

section \<open>States\<close>

definition TC_INI :: int where "TC_INI = 0"
definition TC_INFOS_REQ_PEND :: int where "TC_INFOS_REQ_PEND = 1"
definition TC_INFOS_GOT_URI :: int where "TC_INFOS_GOT_URI = 2"
definition TC_MUXS_REQ_PEND :: int where "TC_MUXS_REQ_PEND = 3"
definition TC_MUXS_CONNECTED :: int where "TC_MUXS_CONNECTED = 4"
definition TC_MUXS_BACKOFF :: int where "TC_MUXS_BACKOFF = 5"
definition TC_INFOS_BACKOFF :: int where "TC_INFOS_BACKOFF = 6"
definition TC_ERR_FAILED :: int where "TC_ERR_FAILED = - 1"
definition TC_ERR_NOURI :: int where "TC_ERR_NOURI = - 2"
definition TC_ERR_TIMEOUT :: int where "TC_ERR_TIMEOUT = - 3"
definition TC_ERR_REJECTED :: int where "TC_ERR_REJECTED = - 4"
definition TC_ERR_CLOSED :: int where "TC_ERR_CLOSED = - 5"
definition TC_ERR_DEAD :: int where "TC_ERR_DEAD = - 6"

lemmas tc_states = TC_INI_def TC_INFOS_REQ_PEND_def TC_INFOS_GOT_URI_def TC_MUXS_REQ_PEND_def TC_MUXS_CONNECTED_def
  TC_MUXS_BACKOFF_def TC_INFOS_BACKOFF_def TC_ERR_FAILED_def TC_ERR_NOURI_def TC_ERR_TIMEOUT_def TC_ERR_REJECTED_def
  TC_ERR_CLOSED_def TC_ERR_DEAD_def

definition MAX_URI_LEN :: nat where "MAX_URI_LEN = 128"
definition MAX_HOSTNAME_LEN :: nat where "MAX_HOSTNAME_LEN = 128"
definition MAX_PORT_LEN :: nat where "MAX_PORT_LEN = 16"
definition MUXS_PROTOCOL_VERSION :: int where "MUXS_PROTOCOL_VERSION = 2"

definition SYS_CRED_TC :: nat where "SYS_CRED_TC = 1"
definition SYS_CRED_REG :: nat where "SYS_CRED_REG = 0"
definition SYSIS_TC_DISCONNECTED :: nat where "SYSIS_TC_DISCONNECTED = 2"

text \<open>
  \<open>tc_t\<close>. Of the websocket the model has what the engine sees: whether it is down, in use, or told to close, and its
  callback. An armed timer has its deadline and its callback; \<open>ondone\<close> is \<open>tc_ondone_default\<close>, the only one in use.
\<close>

datatype tc_ws = WsIdle | WsOpen | WsClosing
datatype tc_evcb = EvNil | EvInfos | EvMuxs
datatype tc_cb = CbTimeout | CbOndone

record tc =
  ws :: tc_ws
  evcb :: tc_evcb
  timeout :: "(ustime \<times> tc_cb) option"
  tstate :: int
  credset :: nat
  retries :: u1
  muxsuri :: bytes

datatype wsev = WSEV_CLOSED | WSEV_DATASENT | WSEV_BINARYRCVD bytes | WSEV_TEXTRCVD bytes | WSEV_CONNECTED

text \<open>What the engine does to the outside.\<close>

datatype tcout = InState nat | SetupTls bytes | WsConnect bytes bytes bytes | WsClose nat | WsSend bytes | BackupConfig nat |
  DelayCUPS | TriggerCUPS int | FlushRxjobs | OnMsg bytes | OnBinary bytes

record tcsys =
  TC :: "tc option"
  tstateLast :: int
  tc_outs :: "tcout list"

text \<open>The clock, the parameters, and the answers of the outside during one call.\<close>

record tcenv =
  e_clock :: ustime
  TC_TIMEOUT :: ustime
  sys_noCUPS :: bool
  sys_noTC :: bool
  sys_eui :: uL
  sys_uri :: "bytes option"
  CFG_version :: bytes
  sys_version :: bytes
  CFG_platform :: bytes
  rt_features :: bytes
  e_tls :: bool
  e_connect :: bool
  e_sendbuf :: "nat option"
  e_accepted :: bool

section \<open>Ends and timeouts\<close>

definition tc_done :: "tcenv \<Rightarrow> int \<Rightarrow> tc \<Rightarrow> tc \<times> tcout list" where
  "tc_done e st t = (t\<lparr>tstate := st, ws := WsIdle, timeout := Some (e_clock e, CbOndone)\<rparr>, [InState SYSIS_TC_DISCONNECTED])"

definition tc_timeout :: "tcenv \<Rightarrow> tc \<Rightarrow> tc \<times> tcout list" where
  "tc_timeout e t = tc_done e TC_ERR_TIMEOUT t"

definition ws_close :: "nat \<Rightarrow> tc \<Rightarrow> tc \<times> tcout list" where
  "ws_close reason t = (if ws t = WsOpen then (t\<lparr>ws := WsClosing\<rparr>, [WsClose reason]) else (t, []))"

definition then_out :: "tc \<times> tcout list \<Rightarrow> tcout list \<Rightarrow> tc \<times> tcout list" where
  "then_out r outs = (fst r, outs @ snd r)"

section \<open>The connection to the message server\<close>

text \<open>The C string at an offset of a buffer; \<open>None\<close> when it has no end in the buffer.\<close>

definition cstr_at :: "nat \<Rightarrow> bytes \<Rightarrow> bytes option" where
  "cstr_at p b = (let t = takeWhile (\<lambda>c. c \<noteq> 0) (drop p b) in if p + length t < length b then Some t else None)"

definition tc_connect_muxs :: "tcenv \<Rightarrow> tc \<Rightarrow> (tc \<times> tcout list) option" where
  "tc_connect_muxs e t =
     (let u = muxsuri t; tlsmode = u ! 0 in
      if length u < 3 then None
      else do {
        hostname \<leftarrow> cstr_at 3 u;
        port \<leftarrow> cstr_at (u ! 1) u;
        way \<leftarrow> cstr_at (u ! 2) u;
        let t = t\<lparr>ws := WsIdle, evcb := EvNil\<rparr>;
            outs = (if tlsmode = URI_TLS then [SetupTls hostname] else []);
            failed = tc_done e TC_ERR_FAILED t;
            outs' = outs @ [WsConnect hostname port way];
            t' = t\<lparr>ws := WsOpen, timeout := Some (e_clock e + TC_TIMEOUT e, CbTimeout), evcb := EvMuxs, tstate := TC_MUXS_REQ_PEND\<rparr>;
            r = (if tlsmode = URI_TLS \<and> \<not> e_tls e then then_out failed outs
                 else if \<not> e_connect e then then_out failed outs' else (t', outs'))
        in Some r })"

text \<open>A message written into the send buffer; a connected websocket always has one.\<close>

definition tc_message :: "tcenv \<Rightarrow> farg list list \<Rightarrow> bytes option" where
  "tc_message e kvs =
     (case e_sendbuf e of None \<Rightarrow> None
      | Some n \<Rightarrow> do {
          b \<leftarrow> uj_encOpen 123 \<lparr>buf = replicate n 0, pos = 0\<rparr>;
          b \<leftarrow> fold (\<lambda>field b. b \<bind> (\<lambda>b. case field of FStr key # FInt letter # args \<Rightarrow> uj_encKV key (nat letter) args b | _ \<Rightarrow> None)) kvs (Some b);
          let b = uj_encClose 125 b;
          if bufsize b < pos b then None else Some (take (pos b) (buf b)) })"

definition tc_kv :: "string \<Rightarrow> char \<Rightarrow> farg \<Rightarrow> farg list" where
  "tc_kv key letter v = [FStr (Some (bytes_of key)), FInt (int (of_char letter)), v]"

definition version_fields :: "tcenv \<Rightarrow> farg list list" where
  "version_fields e =
     [tc_kv ''msgtype'' (CHR ''s'') (FStr (Some (bytes_of ''version''))),
      tc_kv ''station'' (CHR ''s'') (FStr (Some (CFG_version e))),
      tc_kv ''firmware'' (CHR ''s'') (FStr (Some (sys_version e))),
      tc_kv ''package'' (CHR ''s'') (FStr (Some (sys_version e))),
      tc_kv ''model'' (CHR ''s'') (FStr (Some (CFG_platform e))),
      tc_kv ''protocol'' (CHR ''i'') (FInt MUXS_PROTOCOL_VERSION),
      tc_kv ''features'' (CHR ''s'') (FStr (Some (rt_features e)))]"

definition close_failed :: "tc \<Rightarrow> tc \<times> tcout list" where
  "close_failed t = ws_close 1000 (t\<lparr>tstate := TC_ERR_FAILED\<rparr>)"

definition tc_muxs_connection :: "tcenv \<Rightarrow> wsev \<Rightarrow> tc \<Rightarrow> (tc \<times> tcout list) option" where
  "tc_muxs_connection e ev t =
     (case ev of
        WSEV_CONNECTED \<Rightarrow> do {
          m \<leftarrow> tc_message e (version_fields e);
          Some (t\<lparr>timeout := None, tstate := TC_MUXS_CONNECTED\<rparr>,
            [WsSend m] @ (if credset t = SYS_CRED_REG then [BackupConfig SYS_CRED_TC] else []) @ [DelayCUPS]) }
      | WSEV_DATASENT \<Rightarrow> Some (t, [FlushRxjobs])
      | WSEV_TEXTRCVD b \<Rightarrow> Some (if e_accepted e then (t, [OnMsg b]) else then_out (close_failed t) [OnMsg b])
      | WSEV_BINARYRCVD b \<Rightarrow> Some (if e_accepted e then (t, [OnBinary b]) else then_out (close_failed t) [OnBinary b])
      | WSEV_CLOSED \<Rightarrow>
          Some (tc_done e (if tstate t \<ge> 0 then if tstate t = TC_MUXS_CONNECTED then TC_ERR_CLOSED else TC_ERR_FAILED else tstate t) t))"

section \<open>The answer of the discovery server\<close>

text \<open>
  A URI is packed into one buffer: the mode, the offsets of port and path, then host, port and path as C strings.
  \<open>Some None\<close> is a URI that is refused, \<open>None\<close> an access outside of a buffer.
\<close>

definition pack_uri :: "nat \<Rightarrow> bytes \<Rightarrow> bytes \<Rightarrow> bytes \<Rightarrow> bytes option" where
  "pack_uri mode host port way =
     (let portoff = (length host + 4) mod 256; pathoff = (portoff + length port + 1) mod 256 in
      if 3 + length host > MAX_URI_LEN + 3 \<or> portoff + length port > MAX_URI_LEN + 3 \<or> pathoff + length way > MAX_URI_LEN + 3 then None
      else
        let u = (replicate (MAX_URI_LEN + 3) 0)[0 := mode, 1 := portoff, 2 := pathoff];
            u = put_bytes 3 host u; u = put_bytes portoff port u
        in Some (put_bytes pathoff way u))"

definition infos_uri :: "bytes \<Rightarrow> bytes option option" where
  "infos_uri s =
     (if uri_isScheme s (bytes_of ''ws'') = 0 \<and> uri_isScheme s (bytes_of ''wss'') = 0 then Some None
      else if length s + 1 > MAX_URI_LEN then Some None
      else case uri_parse s 0 False of
        None \<Rightarrow> Some None
      | Some u \<Rightarrow>
        if portBeg u = portEnd u \<or> pathBeg u = pathEnd u then Some None
        else if hostEnd u < hostBeg u then None
        else map_option Some (pack_uri (if ch s 2 = 115 then URI_TLS else URI_TCP) (sub_text (hostBeg u) (hostEnd u) s)
          (sub_text (portBeg u) (portEnd u) s) (sub_text (pathBeg u) (pathEnd u) s)))"

definition J_router :: u4 where "J_router = 0xFEE91D0C"
definition J_muxs :: u4 where "J_muxs = 0x6DF2E513"
definition J_error :: u4 where "J_error = 0x47A7EB1D"
definition J_uri :: u4 where "J_uri = 0x00757C6E"

text \<open>
  The loop over the fields, with the flags for a URI and for an error so far. The result is an error raised, or
  a URI refused, or the end; each with the packed URI.
\<close>

fun infos_fields :: "nat \<Rightarrow> ujdec \<Rightarrow> bool \<Rightarrow> bool \<Rightarrow> bytes \<Rightarrow> (ujerr + (bool \<times> bool \<times> ujdec) option) \<times> bytes" where
  "infos_fields 0 d uri err mux = (Inl UjFuel, mux)"
| "infos_fields (Suc n) d uri err mux =
     (case uj_nextField d of Inl e \<Rightarrow> (Inl e, mux)
      | Inr (field, d) \<Rightarrow>
        if field = 0 then (Inr (Some (uri, err, d)), mux)
        else if field = J_router \<or> field = J_muxs \<or> field = J_error then
          (case uj_str d of Inl e \<Rightarrow> (Inl e, mux) | Inr (_, d) \<Rightarrow> infos_fields n d uri (err \<or> field = J_error) mux)
        else if field = J_uri then
          (case uj_str d of Inl e \<Rightarrow> (Inl e, mux)
           | Inr (_, d) \<Rightarrow>
             (case Option.bind (str_bytes d) infos_uri of
                None \<Rightarrow> (Inl UjFault, mux)
              | Some None \<Rightarrow> (Inr None, mux)
              | Some (Some m) \<Rightarrow> infos_fields n d True err m))
        else
          (case uj_skipValue (2 * length (jbuf d) + 1) d of Inl e \<Rightarrow> (Inl e, mux) | Inr (_, d) \<Rightarrow> infos_fields n d uri err mux))"

definition infos_raised :: "ujerr \<Rightarrow> bytes \<Rightarrow> (int \<times> bytes) option" where
  "infos_raised err mux = (case err of UjError _ \<Rightarrow> Some (TC_ERR_FAILED, mux) | _ \<Rightarrow> None)"

definition infos_text :: "bytes \<Rightarrow> bytes \<Rightarrow> (int \<times> bytes) option" where
  "infos_text b mux =
     (case bnd (uj_nextValue (uj_iniDecoder b)) (\<lambda>_ d. uj_enterObject d) of
        Inl err \<Rightarrow> infos_raised err mux
      | Inr (_, d) \<Rightarrow>
        (case infos_fields (length b + 2) d False False mux of
           (Inl err, m) \<Rightarrow> infos_raised err m
         | (Inr None, m) \<Rightarrow> Some (TC_ERR_FAILED, m)
         | (Inr (Some (uri, err, d)), m) \<Rightarrow>
           (case bnd (uj_exitObject d) (\<lambda>_ d. uj_assertEOF d) of
              Inl err \<Rightarrow> infos_raised err m
            | Inr _ \<Rightarrow> Some (if err \<or> \<not> uri then TC_ERR_REJECTED else TC_INFOS_GOT_URI, m))))"

definition tc_info_request :: "tcenv \<Rightarrow> wsev \<Rightarrow> tc \<Rightarrow> (tc \<times> tcout list) option" where
  "tc_info_request e ev t =
     (case ev of
        WSEV_CONNECTED \<Rightarrow> do {
          m \<leftarrow> tc_message e [tc_kv ''router'' (CHR ''6'') (FLong (sys_eui e))];
          Some (t, [WsSend m]) }
      | WSEV_DATASENT \<Rightarrow> Some (t, [])
      | WSEV_BINARYRCVD _ \<Rightarrow> Some (t, [])
      | WSEV_TEXTRCVD b \<Rightarrow> do {
          (st, mux) \<leftarrow> infos_text b (muxsuri t);
          Some (ws_close 1000 (t\<lparr>tstate := st, muxsuri := mux\<rparr>)) }
      | WSEV_CLOSED \<Rightarrow>
          let st = (if tstate t \<ge> 0 \<and> tstate t \<noteq> TC_INFOS_GOT_URI then TC_ERR_CLOSED else tstate t) in
          if st \<noteq> TC_INFOS_GOT_URI then Some (tc_done e st t) else tc_connect_muxs e (t\<lparr>ws := WsIdle\<rparr>))"

section \<open>Starting, retrying, stopping\<close>

definition tc_getSendbuf :: "tc \<Rightarrow> nat option \<Rightarrow> nat option" where
  "tc_getSendbuf t room = (if tstate t \<noteq> TC_MUXS_CONNECTED then None else room)"

definition tc_ini :: tc where
  "tc_ini = \<lparr>ws = WsIdle, evcb = EvNil, timeout = None, tstate = TC_INI, credset = SYS_CRED_REG, retries = 0,
     muxsuri = replicate (MAX_URI_LEN + 3) 0\<rparr>"

definition tc_start :: "tcenv \<Rightarrow> tc \<Rightarrow> (tc \<times> tcout list) option" where
  "tc_start e t =
     (if tstate t \<noteq> TC_INI then None
      else case sys_uri e of
        None \<Rightarrow> Some (tc_done e TC_ERR_NOURI t)
      | Some tcuri \<Rightarrow> do {
          (mode, hostname, port) \<leftarrow> uri_checkHostPortUri tcuri (bytes_of ''ws'') MAX_HOSTNAME_LEN MAX_PORT_LEN;
          let outs = (if mode = URI_TLS then [SetupTls hostname] else []);
              outs' = outs @ [WsConnect hostname port (bytes_of ''/router-info'')];
              t' = t\<lparr>ws := WsOpen, timeout := Some (e_clock e + rt_seconds (TC_TIMEOUT e), CbTimeout), evcb := EvInfos,
                tstate := TC_INFOS_REQ_PEND\<rparr>;
              r = (if mode = URI_BAD then tc_done e TC_ERR_NOURI t
                   else if mode = URI_TLS \<and> \<not> e_tls e then then_out (tc_done e TC_ERR_NOURI t) outs
                   else if \<not> e_connect e then then_out (tc_done e TC_ERR_FAILED t) outs' else (t', outs'))
          in Some r })"

definition put_tc :: "tc \<times> tcout list \<Rightarrow> tcsys \<Rightarrow> tcsys" where
  "put_tc r s = s\<lparr>TC := Some (fst r), tc_outs := tc_outs s @ snd r\<rparr>"

definition tc_free :: "tc \<Rightarrow> tcsys \<Rightarrow> tcsys" where
  "tc_free t s = s\<lparr>TC := None, tstateLast := tstate t\<rparr>"

definition sys_stopTC :: "tcsys \<Rightarrow> tcsys" where
  "sys_stopTC s = (case TC s of None \<Rightarrow> s | Some t \<Rightarrow> (tc_free t s)\<lparr>tc_outs := tc_outs s @ [InState SYSIS_TC_DISCONNECTED]\<rparr>)"

definition sys_startTC :: "tcenv \<Rightarrow> tcsys \<Rightarrow> tcsys option" where
  "sys_startTC e s =
     (if TC s \<noteq> None \<or> sys_noTC e then Some s
      else map_option (\<lambda>(t, outs). put_tc (t, outs @ [InState SYSIS_TC_DISCONNECTED]) s) (tc_start e tc_ini))"

definition sys_statusTC :: "tcsys \<Rightarrow> int" where
  "sys_statusTC s = (case TC s of Some t \<Rightarrow> tstate t | None \<Rightarrow> tstateLast s)"

definition tc_backoff :: "tcenv \<Rightarrow> int \<Rightarrow> int \<Rightarrow> tc \<Rightarrow> tc" where
  "tc_backoff e st secs t = t\<lparr>tstate := st, timeout := Some (e_clock e + rt_seconds secs, CbOndone)\<rparr>"

definition tc_continue :: "tcenv \<Rightarrow> tc \<Rightarrow> tcsys \<Rightarrow> tcsys option" where
  "tc_continue e t s =
     (let st = tstate t in
      if (st = TC_ERR_REJECTED \<or> st = TC_ERR_NOURI \<or> retries t \<ge> 10) \<and> \<not> sys_noCUPS e then
        let s = sys_stopTC (s\<lparr>TC := Some t\<rparr>) in Some (s\<lparr>tc_outs := tc_outs s @ [TriggerCUPS (- 1)]\<rparr>)
      else if st = TC_INFOS_BACKOFF then do {
        (t', outs) \<leftarrow> tc_start e tc_ini;
        Some (put_tc (t'\<lparr>retries := (retries t + 1) mod 256\<rparr>, outs) (tc_free t s)) }
      else if st = TC_MUXS_BACKOFF then
        map_option (\<lambda>r. put_tc r s) (tc_connect_muxs e (t\<lparr>retries := (retries t + 1) mod 256\<rparr>))
      else if muxsuri t ! 0 \<noteq> URI_BAD \<and> retries t \<le> 4 \<and> st = TC_ERR_CLOSED then
        Some (put_tc (tc_backoff e TC_MUXS_BACKOFF (2 ^ retries t) t, []) s)
      else
        let t = (if muxsuri t ! 0 \<noteq> URI_BAD then t\<lparr>muxsuri := (muxsuri t)[0 := URI_BAD], retries := 1\<rparr> else t)
        in Some (put_tc (tc_backoff e TC_INFOS_BACKOFF (int (min (retries t) 6) * 10) t, []) s))"

text \<open>An event of the websocket, and the timer, with a deadline that is over.\<close>

definition tc_event :: "tcenv \<Rightarrow> wsev \<Rightarrow> tc \<Rightarrow> (tc \<times> tcout list) option" where
  "tc_event e ev t = (case evcb t of EvInfos \<Rightarrow> tc_info_request e ev t | EvMuxs \<Rightarrow> tc_muxs_connection e ev t | EvNil \<Rightarrow> Some (t, []))"

definition tc_timer :: "tcenv \<Rightarrow> tc_cb \<Rightarrow> tc \<Rightarrow> tcsys \<Rightarrow> tcsys option" where
  "tc_timer e cb t s =
     (let t = t\<lparr>timeout := None\<rparr> in case cb of CbTimeout \<Rightarrow> Some (put_tc (tc_timeout e t) s) | CbOndone \<Rightarrow> tc_continue e t s)"


section \<open>Runs\<close>

text \<open>
  The states the station can get into: the engine is started and stopped at any time, the websocket reports events while it
  is in use, and an armed timer runs its callback after its deadline. The parameters may change from call to call.
\<close>

inductive tc_reach :: "tcsys \<Rightarrow> bool" where
  boot: "tc_reach \<lparr>TC = None, tstateLast = 0, tc_outs = []\<rparr>"
| start: "tc_reach s \<Longrightarrow> sys_startTC e s = Some s' \<Longrightarrow> tc_reach s'"
| stop: "tc_reach s \<Longrightarrow> tc_reach (sys_stopTC s)"
| event: "tc_reach s \<Longrightarrow> TC s = Some t \<Longrightarrow> ws t \<noteq> WsIdle \<Longrightarrow> tc_event e ev t = Some r \<Longrightarrow> tc_reach (put_tc r s)"
| timer: "tc_reach s \<Longrightarrow> TC s = Some t \<Longrightarrow> timeout t = Some (dl, cb) \<Longrightarrow> dl \<le> e_clock e \<Longrightarrow> tc_timer e cb t s = Some s' \<Longrightarrow> tc_reach s'"

text \<open>The timers of an engine whose connections fail, one after the other.\<close>

fun tc_timers :: "tcenv list \<Rightarrow> tcsys \<Rightarrow> tcsys option" where
  "tc_timers [] s = Some s"
| "tc_timers (e # es) s =
     (case TC s of None \<Rightarrow> Some s
      | Some t \<Rightarrow> (case timeout t of None \<Rightarrow> None | Some (dl, cb) \<Rightarrow> Option.bind (tc_timer e cb t s) (tc_timers es)))"

end
