(* ===== verification/TcProps.thy ===== *)
theory TcProps
  imports Tc
begin

text \<open>The properties of the connection engine: packed URIs, its reachable states, and the way from the answer of the discovery server to the connection.\<close>

section \<open>The parts of any accepted URI\<close>

lemma uri_scan_spec:
  "uri_scan stops b p = (c, q) \<Longrightarrow> p \<le> length b \<Longrightarrow>
   p \<le> q \<and> q \<le> length b \<and> (\<forall>i. p \<le> i \<and> i + 1 < q \<longrightarrow> b ! i \<noteq> 0) \<and> (c \<noteq> 0 \<longrightarrow> c \<in> stops \<and> p < q \<and> b ! (q - 1) = c)"
proof (induction stops b p rule: uri_scan.induct)
  case (1 stops b p)
  show ?case
  proof (cases "p < length b \<and> b ! p \<noteq> 0 \<and> b ! p \<notin> stops")
    case True
    then have n: "next_ch b p = (b ! p, p + 1)" by (simp add: next_ch_def)
    have "uri_scan stops b (p + 1) = (c, q)" using 1(2) True n by (subst (asm) uri_scan.simps) simp
    then have "p + 1 \<le> q \<and> q \<le> length b \<and> (\<forall>i. p + 1 \<le> i \<and> i + 1 < q \<longrightarrow> b ! i \<noteq> 0) \<and>
        (c \<noteq> 0 \<longrightarrow> c \<in> stops \<and> p + 1 < q \<and> b ! (q - 1) = c)"
      using "1.IH" [OF n [symmetric] refl] True by simp
    then show ?thesis using True by (metis Suc_eq_plus1 Suc_leD Suc_leI le_neq_implies_less less_SucI linorder_not_le)
  next
    case False
    then have "(c, q) = next_ch b p" using 1(2) by (subst (asm) uri_scan.simps) (auto simp: next_ch_def split: if_splits)
    then show ?thesis using False 1(3) by (auto simp: next_ch_def split: if_splits)
  qed
qed

lemma uri_scan_part_end:
  assumes "uri_scan stops b p = (c, q)" and "p \<le> length b"
  shows "p \<le> part_end (c, q)" "part_end (c, q) \<le> q" "q \<le> length b" "c \<noteq> 0 \<Longrightarrow> part_end (c, q) = q - 1 \<and> p < q"
    "c \<noteq> 0 \<Longrightarrow> 0 \<notin> set (sub_text p (part_end (c, q)) b)" "0 \<notin> set (butlast (sub_text p (part_end (c, q)) b))"
proof -
  note s = uri_scan_spec [OF assms]
  show 1: "p \<le> part_end (c, q)" "part_end (c, q) \<le> q" "q \<le> length b" "c \<noteq> 0 \<Longrightarrow> part_end (c, q) = q - 1 \<and> p < q"
    using s by (auto simp: part_end_def)
  have nth: "sub_text p e b ! i = b ! (p + i)" "length (sub_text p e b) = e - p" if "i < e - p" "e \<le> q" for i e
    using that s by (auto simp: sub_text_def)
  show "0 \<notin> set (sub_text p (part_end (c, q)) b)" if "c \<noteq> 0"
  proof
    assume "0 \<in> set (sub_text p (part_end (c, q)) b)"
    then obtain i where i: "i < length (sub_text p (part_end (c, q)) b)" "sub_text p (part_end (c, q)) b ! i = 0"
      by (auto simp: in_set_conv_nth)
    then have "i < part_end (c, q) - p" by (simp add: sub_text_def)
    then show False using nth(1) [of i "part_end (c, q)"] 1(2) 1(4) [OF that] i(2) s by auto
  qed
  show "0 \<notin> set (butlast (sub_text p (part_end (c, q)) b))"
  proof
    assume "0 \<in> set (butlast (sub_text p (part_end (c, q)) b))"
    then obtain i where i: "i < length (sub_text p (part_end (c, q)) b) - 1" "butlast (sub_text p (part_end (c, q)) b) ! i = 0"
      by (auto simp: in_set_conv_nth)
    then have "i < part_end (c, q) - p" "i + 1 < part_end (c, q) - p" by (auto simp: sub_text_def)
    then show False using nth(1) [of i "part_end (c, q)"] 1(2) i s by (auto simp: nth_butlast)
  qed
qed

lemma next_ch_le: "next_ch b p = (c, q) \<Longrightarrow> p \<le> length b \<Longrightarrow> p \<le> q \<and> q \<le> length b \<and> (c \<noteq> 0 \<longrightarrow> q = p + 1)"
  by (auto simp: next_ch_def split: if_splits)

lemma uri_host_inside:
  assumes "uri_host b hp = Some (hpe, hBeg, hEnd, c, p)" and "hp \<le> length b" and "c = 58"
  shows "hp \<le> hBeg" "hBeg \<le> hEnd + 1" "hEnd < p" "p \<le> length b" "0 \<notin> set (sub_text hBeg hEnd b)"
proof -
  obtain c0 p0 where n: "next_ch b hp = (c0, p0)" by fastforce
  note n' = next_ch_le [OF n assms(2)]
  have "hp \<le> hBeg \<and> hBeg \<le> hEnd + 1 \<and> hEnd < p \<and> p \<le> length b \<and> 0 \<notin> set (sub_text hBeg hEnd b)"
  proof (cases "c0 = 91")
    case True
    obtain c1 p1 where s: "uri_scan {93} b p0 = (c1, p1)" by fastforce
    have c1: "c1 \<noteq> 0" using assms(1) n True s by (auto simp: uri_host_def split: if_splits)
    obtain c2 p2 where n2: "next_ch b p1 = (c2, p2)" by fastforce
    have e: "hBeg = p0" "hEnd = p1 - 1 - 1" "c = c2" "p = p2" using assms(1) n True s c1 n2 by (auto simp: uri_host_def)
    have p0: "p0 \<le> length b" using n' by simp
    note pe = uri_scan_part_end [OF s p0]
    have "0 \<notin> set (sub_text p0 (p1 - 1) b)" using pe(4,5) c1 by simp
    moreover have "set (sub_text p0 (p1 - 1 - 1) b) \<subseteq> set (sub_text p0 (p1 - 1) b)"
      unfolding sub_text_def by (intro set_take_subset_set_take) simp
    ultimately show ?thesis using e n' pe c1 next_ch_le [OF n2 pe(3)] assms(3) by auto
  next
    case False
    obtain c1 p1 where s: "(if c0 = 0 \<or> c0 = 58 \<or> c0 = 47 then (c0, p0) else uri_scan {58, 47} b p0) = (c1, p1)" by fastforce
    have e: "hBeg = hp" "hEnd = part_end (c1, p1)" "c = c1" "p = p1" using assms(1) n False s by (auto simp: uri_host_def Let_def split: if_splits)
    have c1: "c1 = 58" using e assms(3) by simp
    show ?thesis
    proof (cases "c0 = 58")
      case True
      then show ?thesis using s e n' c1 by (auto simp: part_end_def sub_text_def)
    next
      case c0: False
      then have ne: "c0 \<noteq> 0" "c0 \<noteq> 47" using s c1 by (auto split: if_splits)
      then have s': "uri_scan {58, 47} b p0 = (c1, p1)" using s c0 by simp
      have p0: "p0 = hp + 1" "hp + 1 \<le> length b" "b ! hp = c0" using n' n ne by (auto simp: next_ch_def split: if_splits)
      note pe = uri_scan_part_end [OF s'] 
      have "0 \<notin> set (sub_text (hp + 1) (p1 - 1) b)" using pe(4,5) p0 c1 by simp
      moreover have "sub_text hp (p1 - 1) b = c0 # sub_text (hp + 1) (p1 - 1) b" if "hp + 1 \<le> p1 - 1"
      proof -
        have "drop hp b = c0 # drop (hp + 1) b" using p0 Cons_nth_drop_Suc [of hp b] by simp
        moreover have "p1 - 1 - hp = Suc (p1 - 1 - (hp + 1))" using that by simp
        ultimately show ?thesis by (simp only: sub_text_def take_Suc_Cons)
      qed
      ultimately show ?thesis using e pe p0 c1 ne by (auto simp: sub_text_def part_end_def)
    qed
  qed
  then show "hp \<le> hBeg" "hBeg \<le> hEnd + 1" "hEnd < p" "p \<le> length b" "0 \<notin> set (sub_text hBeg hEnd b)" by auto
qed


lemma uri_parse_inside:
  assumes "uri_parse s 0 False = Some u" and "portBeg u \<noteq> portEnd u" and "pathBeg u \<noteq> pathEnd u"
  shows "3 \<le> hostBeg u" "hostBeg u \<le> hostEnd u + 1" "hostEnd u < portBeg u" "portBeg u < portEnd u" "portEnd u = pathBeg u"
    "pathBeg u < pathEnd u" "pathEnd u \<le> length s"
    "0 \<notin> set (sub_text (hostBeg u) (hostEnd u) s)" "0 \<notin> set (sub_text (portBeg u) (portEnd u) s)"
proof -
  obtain se hb where sc: "uri_scheme s 0 False = Some (se, hb)" using assms(1) by (auto simp: uri_parse_def split: option.splits)
  obtain hpe hBeg hEnd c p where h: "uri_host s hb = Some (hpe, hBeg, hEnd, c, p)" "hBeg \<noteq> hEnd"
    using assms(1) sc by (auto simp: uri_parse_def split: option.splits if_splits)
  obtain pBeg pEnd c' p' where q: "uri_port s c p = Some (pBeg, pEnd, c', p')"
    using assms(1) sc h by (auto simp: uri_parse_def split: option.splits)
  obtain aBeg aEnd where w: "uri_path s c' p' = (aBeg, aEnd)" by fastforce
  have u: "hostBeg u = hBeg" "hostEnd u = hEnd" "portBeg u = pBeg" "portEnd u = pEnd" "pathBeg u = aBeg" "pathEnd u = aEnd"
    using assms(1) h(2) by (auto simp: uri_parse_def sc h(1) q w)
  have hb: "3 \<le> hb" "hb \<le> length s"
  proof -
    obtain c0 p0 where s0: "uri_scan {58} s 0 = (c0, p0)" by fastforce
    obtain c1 p1 where s1: "next_ch s p0 = (c1, p1)" by fastforce
    obtain c2 p2 where s2: "next_ch s p1 = (c2, p2)" by fastforce
    have "c0 \<noteq> 0" "c1 = 47" "c2 = 47" "hb = p2" using sc s0 s1 s2 by (auto simp: uri_scheme_def split: if_splits)
    then show "3 \<le> hb" "hb \<le> length s"
      using uri_scan_spec [OF s0] next_ch_le [OF s1] next_ch_le [OF s2] by auto
  qed
  have c: "c = 58" using q assms(2) u by (auto simp: uri_port_def split: if_splits)
  note H = uri_host_inside [OF h(1) hb(2) c]
  obtain c1 q1 where s: "uri_scan {47} s p = (c1, q1)" by fastforce
  have P: "pBeg = p" "pEnd = part_end (c1, q1)" "c' = c1" "p' = q1"
    using q s c by (auto simp: uri_port_def Let_def split: if_splits)
  note S = uri_scan_part_end [OF s H(4)]
  have c1: "c1 = 47" using w P assms(3) u by (auto simp: uri_path_def split: if_splits)
  obtain c2 q2 where s2: "uri_scan {32, 9, 13, 10} s q1 = (c2, q2)" by fastforce
  have A: "aBeg = q1 - 1" "aEnd = part_end (c2, q2)" using w P c1 s2 by (auto simp: uri_path_def)
  note S2 = uri_scan_part_end [OF s2 S(3)]
  show "3 \<le> hostBeg u" "hostBeg u \<le> hostEnd u + 1" "hostEnd u < portBeg u" "portBeg u < portEnd u" "portEnd u = pathBeg u"
      "pathBeg u < pathEnd u" "pathEnd u \<le> length s"
      "0 \<notin> set (sub_text (hostBeg u) (hostEnd u) s)" "0 \<notin> set (sub_text (portBeg u) (portEnd u) s)"
    using u hb H P S(1,2) S(4,5) c1 A S2(1-3) assms(2,3) by auto
qed

section \<open>Packed URIs\<close>

lemma put_bytes_behind:
  "k = length pre \<Longrightarrow> length us \<le> n \<Longrightarrow> put_bytes k us (pre @ replicate n 0) = pre @ us @ replicate (n - length us) 0"
proof (induction us arbitrary: k pre n)
  case (Cons c us)
  then obtain m where m: "n = Suc m" "length us \<le> m" by (cases n) auto
  then show ?case using Cons.IH [of "Suc k" "pre @ [c]" m] Cons.prems(1) by simp
qed simp

definition packed :: "nat \<Rightarrow> bytes \<Rightarrow> bytes \<Rightarrow> bytes \<Rightarrow> bytes" where
  "packed mode host port way = [mode, length host + 4, length host + length port + 5] @ host @ 0 # port @ 0 # way @
     replicate (126 - length host - length port - length way) 0"

definition fits_uri :: "bytes \<Rightarrow> bytes \<Rightarrow> bytes \<Rightarrow> bool" where
  "fits_uri host port way \<longleftrightarrow> length host + length port + length way < 126 \<and> 0 \<notin> set host \<and> 0 \<notin> set port"

lemma pack_uri_packed:
  assumes "fits_uri host port way"
  shows "pack_uri mode host port way = Some (packed mode host port way)"
proof -
  let ?a = "[mode, length host + 4, length host + length port + 5]"
  have l: "length host + length port + length way < 126" using assms by (simp add: fits_uri_def)
  have m: "(length host + 4) mod 256 = length host + 4" "(length host + 4 + length port + 1) mod 256 = length host + length port + 5"
    using l by simp_all
  have r: "(replicate (MAX_URI_LEN + 3) 0)[0 := mode, 1 := length host + 4, 2 := length host + length port + 5] = ?a @ replicate 128 0"
    by (simp add: MAX_URI_LEN_def numeral_eq_Suc)
  have 1: "put_bytes 3 host (?a @ replicate 128 0) = (?a @ host @ [0]) @ replicate (127 - length host) 0"
  proof -
    have "128 - length host = Suc (127 - length host)" using l by simp
    then show ?thesis using put_bytes_behind [of 3 ?a host 128] l by simp
  qed
  have 2: "put_bytes (length host + 4) port ((?a @ host @ [0]) @ replicate (127 - length host) 0) =
      (?a @ host @ 0 # port @ [0]) @ replicate (126 - length host - length port) 0"
  proof -
    have "127 - length host - length port = Suc (126 - length host - length port)" using l by simp
    then show ?thesis using put_bytes_behind [of "length host + 4" "?a @ host @ [0]" port "127 - length host"] l by simp
  qed
  have 3: "put_bytes (length host + length port + 5) way ((?a @ host @ 0 # port @ [0]) @ replicate (126 - length host - length port) 0) =
      packed mode host port way"
    using put_bytes_behind [of "length host + length port + 5" "?a @ host @ 0 # port @ [0]" way "126 - length host - length port"] l by (simp add: packed_def)
  show ?thesis unfolding pack_uri_def Let_def m r 1 2 3 using l by (simp add: MAX_URI_LEN_def)
qed

lemma cstr_at_text: "drop p b = t @ 0 # r \<Longrightarrow> 0 \<notin> set t \<Longrightarrow> cstr_at p b = Some t"
proof -
  assume d: "drop p b = t @ 0 # r" and z: "0 \<notin> set t"
  have "length (drop p b) = length (t @ 0 # r)" by (simp only: d)
  then have "p + length t < length b" by simp
  moreover have "takeWhile (\<lambda>c. c \<noteq> 0) (t @ 0 # r) = t" using z by (induction t) auto
  ultimately show ?thesis using d by (simp add: cstr_at_def)
qed

lemma cstr_at_packed:
  assumes "fits_uri host port way"
  shows "cstr_at 3 (packed mode host port way) = Some host"
    and "cstr_at (length host + 4) (packed mode host port way) = Some port"
    and "cstr_at (length host + length port + 5) (packed mode host port way) = Some (takeWhile (\<lambda>c. c \<noteq> 0) way)"
    and "length (packed mode host port way) = MAX_URI_LEN + 3"
proof -
  let ?k = "126 - length host - length port - length way" and ?u = "packed mode host port way"
  have z: "0 \<notin> set host" "0 \<notin> set port" "length host + length port + length way < 126" using assms by (auto simp: fits_uri_def)
  then obtain k where k: "?k = Suc k" by (cases ?k) auto
  show "length ?u = MAX_URI_LEN + 3" using z(3) by (simp add: packed_def MAX_URI_LEN_def)
  have d: "drop 3 ?u = host @ 0 # port @ 0 # way @ replicate ?k 0" by (simp add: packed_def)
  show "cstr_at 3 ?u = Some host" using d z(1) by (rule cstr_at_text)
  have "drop (3 + length (host @ [0])) ?u = port @ 0 # way @ replicate ?k 0" by (rule drop_step) (use d in simp)
  then have d2: "drop (length host + 4) ?u = port @ 0 # way @ replicate ?k 0" by (simp add: add.commute)
  then show "cstr_at (length host + 4) ?u = Some port" using z(2) by (rule cstr_at_text)
  have "drop (length host + 4 + length (port @ [0])) ?u = way @ replicate ?k 0" by (rule drop_step) (use d2 in simp)
  then have "drop (length host + length port + 5) ?u = way @ replicate ?k 0" by (simp add: add.commute add.left_commute)
  moreover have "\<exists>r. way @ replicate ?k 0 = takeWhile (\<lambda>c. c \<noteq> 0) way @ 0 # r"
  proof (cases "dropWhile (\<lambda>c. c \<noteq> 0) way")
    case Nil
    then have "takeWhile (\<lambda>c. c \<noteq> 0) way = way" by (metis append_Nil2 takeWhile_dropWhile_id)
    then have "way @ replicate ?k 0 = takeWhile (\<lambda>c. c \<noteq> 0) way @ 0 # replicate k 0" by (simp only: k replicate_Suc)
    then show ?thesis by blast
  next
    case (Cons c r)
    then have "c = 0" by (metis (mono_tags, lifting) dropWhile_eq_Cons_conv)
    then show ?thesis using Cons by (metis append.assoc append_Cons takeWhile_dropWhile_id)
  qed
  moreover have "0 \<notin> set (takeWhile (\<lambda>c. c \<noteq> 0) way)" by (auto dest: set_takeWhileD)
  ultimately show "cstr_at (length host + length port + 5) ?u = Some (takeWhile (\<lambda>c. c \<noteq> 0) way)" using cstr_at_text by metis
qed

text \<open>A buffer with a URI that was packed.\<close>

definition muxs_ok :: "bytes \<Rightarrow> bool" where
  "muxs_ok u \<longleftrightarrow> (\<exists>mode host port way. u = packed mode host port way \<and> fits_uri host port way \<and> mode \<noteq> URI_BAD)"

lemma infos_uri_ok:
  assumes "infos_uri s = Some (Some m)"
  shows "muxs_ok m"
proof -
  obtain u where u: "uri_parse s 0 False = Some u" "portBeg u \<noteq> portEnd u" "pathBeg u \<noteq> pathEnd u" "length s + 1 \<le> MAX_URI_LEN"
    and m: "pack_uri (if ch s 2 = 115 then URI_TLS else URI_TCP) (sub_text (hostBeg u) (hostEnd u) s)
          (sub_text (portBeg u) (portEnd u) s) (sub_text (pathBeg u) (pathEnd u) s) = Some m"
    using assms by (auto simp: infos_uri_def split: if_splits option.splits)
  note i = uri_parse_inside [OF u(1-3)]
  have "fits_uri (sub_text (hostBeg u) (hostEnd u) s) (sub_text (portBeg u) (portEnd u) s) (sub_text (pathBeg u) (pathEnd u) s)"
    using i u(4) by (auto simp: fits_uri_def sub_text_def MAX_URI_LEN_def)
  note f = this
  have "(if ch s 2 = 115 then URI_TLS else URI_TCP) \<noteq> URI_BAD" by (simp add: uri_consts)
  moreover have "m = packed (if ch s 2 = 115 then URI_TLS else URI_TCP) (sub_text (hostBeg u) (hostEnd u) s)
      (sub_text (portBeg u) (portEnd u) s) (sub_text (pathBeg u) (pathEnd u) s)"
    using m unfolding pack_uri_packed [OF f] by (rule option.inject [THEN iffD1, symmetric])
  ultimately show ?thesis using f unfolding muxs_ok_def by blast
qed


section \<open>The answer of the discovery server\<close>

definition mux_inv :: "bytes \<Rightarrow> bool" where
  "mux_inv m \<longleftrightarrow> length m = MAX_URI_LEN + 3 \<and> (m ! 0 \<noteq> URI_BAD \<longrightarrow> muxs_ok m)"

lemma muxs_ok_inv: "muxs_ok m \<Longrightarrow> mux_inv m"
  using cstr_at_packed(4) by (auto simp: mux_inv_def muxs_ok_def)

lemma infos_fields_mux:
  "infos_fields n d uri err mux = (r, m) \<Longrightarrow> mux_inv mux \<Longrightarrow> (uri \<Longrightarrow> muxs_ok mux) \<Longrightarrow>
   mux_inv m \<and> (\<forall>err' d'. r = Inr (Some (True, err', d')) \<longrightarrow> muxs_ok m)"
proof (induction n d uri err mux arbitrary: r m rule: infos_fields.induct)
  case (2 n d uri err mux)
  show ?case
  proof (cases "uj_nextField d")
    case (Inr fd)
    obtain field d1 where f: "uj_nextField d = Inr (field, d1)" using Inr by (cases fd) auto
    note ih = "2.IH" [OF f refl]
    have q: "infos_fields (Suc n) d uri err mux = (r, m)" by (rule "2.prems")
    consider "field = 0" | "field \<noteq> 0" "field = J_router \<or> field = J_muxs \<or> field = J_error"
      | "field \<noteq> 0" "\<not> (field = J_router \<or> field = J_muxs \<or> field = J_error)" "field = J_uri"
      | "field \<noteq> 0" "\<not> (field = J_router \<or> field = J_muxs \<or> field = J_error)" "field \<noteq> J_uri" by blast
    then show ?thesis
    proof cases
      case 1
      then show ?thesis using q f "2.prems" by auto
    next
      case 2
      then show ?thesis using q f "2.prems"(2,3) ih(1) by (auto split: sum.splits)
    next
      case 3
      show ?thesis
      proof (cases "uj_str d1")
        case (Inr sd)
        obtain v d2 where s: "uj_str d1 = Inr (v, d2)" using Inr by (cases sd) auto
        show ?thesis
        proof (cases "Option.bind (str_bytes d2) infos_uri")
          case (Some mo)
          then show ?thesis
          proof (cases mo)
            case (Some m')
            then have b: "Option.bind (str_bytes d2) infos_uri = Some (Some m')" using \<open>_ = Some mo\<close> by simp
            then have "muxs_ok m'" using infos_uri_ok by (auto simp: bind_eq_Some_conv)
            moreover have "infos_fields n d2 True err m' = (r, m)" using q f s b 3 by (simp del: bind_eq_Some_conv)
            ultimately show ?thesis using ih(2) [OF 3 s refl b refl] muxs_ok_inv by blast
          qed (use q f s 3 "2.prems"(2) in \<open>auto simp del: bind_eq_Some_conv\<close>)
        qed (use q f s 3 "2.prems"(2) in \<open>auto simp del: bind_eq_None_conv\<close>)
      qed (use q f 3 "2.prems"(2) in auto)
    next
      case 4
      then show ?thesis using q f "2.prems"(2,3) ih(3) by (auto split: sum.splits)
    qed
  qed (use "2.prems" in auto)
qed auto

lemma infos_text_state:
  assumes "infos_text b mux = Some (st, m)" and "mux_inv mux"
  shows "mux_inv m \<and> st \<in> {TC_ERR_FAILED, TC_ERR_REJECTED, TC_INFOS_GOT_URI} \<and> (st = TC_INFOS_GOT_URI \<longrightarrow> muxs_ok m)"
proof (cases "bnd (uj_nextValue (uj_iniDecoder b)) (\<lambda>_ d. uj_enterObject d)")
  case (Inl e)
  then show ?thesis using assms by (auto simp: infos_text_def infos_raised_def tc_states split: ujerr.splits)
next
  case (Inr ud)
  then obtain u d where e: "bnd (uj_nextValue (uj_iniDecoder b)) (\<lambda>_ d. uj_enterObject d) = Inr (u, d)" by (cases ud) auto
  obtain r m' where f: "infos_fields (length b + 2) d False False mux = (r, m')" by fastforce
  note i = infos_fields_mux [OF f assms(2)]
  have a: "(case (r, m') of
           (Inl err, m) \<Rightarrow> infos_raised err m
         | (Inr None, m) \<Rightarrow> Some (TC_ERR_FAILED, m)
         | (Inr (Some (uri, err, d)), m) \<Rightarrow>
           (case bnd (uj_exitObject d) (\<lambda>_ d. uj_assertEOF d) of
              Inl err \<Rightarrow> infos_raised err m
            | Inr _ \<Rightarrow> Some (if err \<or> \<not> uri then TC_ERR_REJECTED else TC_INFOS_GOT_URI, m))) = Some (st, m)"
    using assms(1) unfolding infos_text_def e sum.case prod.case f .
  show ?thesis using a i
    by (auto simp: infos_raised_def tc_states split: sum.splits option.splits ujerr.splits if_splits)
qed


section \<open>Reachable states\<close>

definition tc_ok :: "tc \<Rightarrow> bool" where
  "tc_ok t \<longleftrightarrow> mux_inv (muxsuri t) \<and>
     (if ws t = WsIdle then
        (\<exists>dl. timeout t = Some (dl, CbOndone)) \<and>
        tstate t \<in> {TC_MUXS_BACKOFF, TC_INFOS_BACKOFF, TC_ERR_FAILED, TC_ERR_NOURI, TC_ERR_TIMEOUT, TC_ERR_REJECTED, TC_ERR_CLOSED} \<and>
        (tstate t = TC_MUXS_BACKOFF \<longrightarrow> muxs_ok (muxsuri t))
      else if evcb t = EvInfos then
        (\<exists>dl. timeout t = Some (dl, CbTimeout)) \<and>
        tstate t \<in> {TC_INFOS_REQ_PEND, TC_INFOS_GOT_URI, TC_ERR_FAILED, TC_ERR_REJECTED} \<and>
        (tstate t = TC_INFOS_GOT_URI \<longrightarrow> muxs_ok (muxsuri t))
      else evcb t = EvMuxs \<and>
        (case timeout t of Some (_, cb) \<Rightarrow> cb = CbTimeout \<and> tstate t \<in> {TC_MUXS_REQ_PEND, TC_ERR_FAILED}
         | None \<Rightarrow> tstate t = TC_MUXS_CONNECTED \<or> tstate t = TC_ERR_FAILED \<and> ws t = WsClosing))"

lemma tc_done_ok: "mux_inv (muxsuri t) \<Longrightarrow> st \<in> {TC_ERR_FAILED, TC_ERR_NOURI, TC_ERR_TIMEOUT, TC_ERR_REJECTED, TC_ERR_CLOSED} \<Longrightarrow>
    tc_ok (fst (tc_done e st t))"
  by (auto simp: tc_done_def tc_ok_def tc_states)

lemma fst_then_out [simp]: "fst (then_out r outs) = fst r"
  by (simp add: then_out_def)

lemma tc_connect_muxs_defined:
  assumes "muxs_ok (muxsuri t)"
  obtains mode host port way where "muxsuri t = packed mode host port way" "fits_uri host port way" "mode \<noteq> URI_BAD"
    "cstr_at 3 (muxsuri t) = Some host" "cstr_at (muxsuri t ! 1) (muxsuri t) = Some port"
    "cstr_at (muxsuri t ! 2) (muxsuri t) = Some (takeWhile (\<lambda>c. c \<noteq> 0) way)" "3 \<le> length (muxsuri t)" "muxsuri t ! 0 = mode"
proof -
  obtain mode host port way where u: "muxsuri t = packed mode host port way" "fits_uri host port way" "mode \<noteq> URI_BAD"
    using assms by (auto simp: muxs_ok_def)
  have n: "packed mode host port way ! 0 = mode" "packed mode host port way ! 1 = length host + 4"
    "packed mode host port way ! 2 = length host + length port + 5" by (simp_all add: packed_def)
  show ?thesis using that [OF u] cstr_at_packed [OF u(2), of mode] n u(1) by (simp add: MAX_URI_LEN_def)
qed

lemma tc_connect_muxs_ok:
  assumes "muxs_ok (muxsuri t)"
  shows "\<exists>r. tc_connect_muxs e t = Some r \<and> tc_ok (fst r)"
proof -
  obtain mode host port way where u: "cstr_at 3 (muxsuri t) = Some host" "cstr_at (muxsuri t ! 1) (muxsuri t) = Some port"
    "cstr_at (muxsuri t ! 2) (muxsuri t) = Some (takeWhile (\<lambda>c. c \<noteq> 0) way)" "3 \<le> length (muxsuri t)"
    using tc_connect_muxs_defined [OF assms] by metis
  have "tc_ok (fst (tc_done e TC_ERR_FAILED (t\<lparr>ws := WsIdle, evcb := EvNil\<rparr>)))"
    by (rule tc_done_ok) (use muxs_ok_inv [OF assms] in simp_all)
  moreover have "tc_ok (t\<lparr>ws := WsOpen, timeout := Some (dl, CbTimeout), evcb := EvMuxs, tstate := TC_MUXS_REQ_PEND\<rparr>)" for dl
    using muxs_ok_inv [OF assms] by (simp add: tc_ok_def)
  ultimately show ?thesis using u(4)
    by (auto simp: tc_connect_muxs_def u(1) u(2) [unfolded One_nat_def] u(3) Let_def)
qed

lemma tc_ini_inv: "mux_inv (muxsuri tc_ini)"
  by (simp add: mux_inv_def tc_ini_def URI_BAD_def MAX_URI_LEN_def)

definition uri_defined :: "tcenv \<Rightarrow> bool" where
  "uri_defined e \<longleftrightarrow> (\<forall>u. sys_uri e = Some u \<longrightarrow> uri_checkHostPortUri u (bytes_of ''ws'') MAX_HOSTNAME_LEN MAX_PORT_LEN \<noteq> None)"

lemma tc_start_ok:
  assumes "uri_defined e"
  shows "\<exists>r. tc_start e tc_ini = Some r"
  using assms by (fastforce simp: tc_start_def uri_defined_def tc_ini_def Let_def split: option.splits)

lemma tc_start_inv:
  assumes "tc_start e tc_ini = Some r"
  shows "tc_ok (fst r)"
proof -
  have "tc_ok (fst (tc_done e TC_ERR_FAILED tc_ini))" "tc_ok (fst (tc_done e TC_ERR_NOURI tc_ini))"
    by (rule tc_done_ok; use tc_ini_inv in simp)+
  moreover have "tc_ok (tc_ini\<lparr>ws := WsOpen, timeout := Some (dl, CbTimeout), evcb := EvInfos, tstate := TC_INFOS_REQ_PEND\<rparr>)" for dl
    using tc_ini_inv by (simp add: tc_ok_def tc_states)
  ultimately show ?thesis using assms by (auto simp: tc_start_def Let_def bind_eq_Some_conv split: option.splits if_splits)
qed

lemma tc_ok_retries [simp]: "tc_ok (t\<lparr>retries := r\<rparr>) = tc_ok t"
  by (simp add: tc_ok_def split: option.splits)

lemma tc_backoff_ok: "mux_inv (muxsuri t) \<Longrightarrow> ws t = WsIdle \<Longrightarrow> st = TC_INFOS_BACKOFF \<or> st = TC_MUXS_BACKOFF \<and> muxs_ok (muxsuri t) \<Longrightarrow>
    tc_ok (tc_backoff e st secs t)"
  by (auto simp: tc_ok_def tc_backoff_def tc_states)

lemma tc_continue_ok:
  assumes "tc_ok t" and "ws t = WsIdle"
  shows "uri_defined e \<Longrightarrow> \<exists>s'. tc_continue e (t\<lparr>timeout := None\<rparr>) s = Some s'"
    and "tc_continue e (t\<lparr>timeout := None\<rparr>) s = Some s' \<Longrightarrow> \<forall>t'. TC s' = Some t' \<longrightarrow> tc_ok t'"
proof -
  have inv: "mux_inv (muxsuri t)" "tstate t = TC_MUXS_BACKOFF \<Longrightarrow> muxs_ok (muxsuri t)" using assms by (auto simp: tc_ok_def)
  let ?t = "t\<lparr>timeout := None, retries := (retries t + 1) mod 256\<rparr>"
  have c: "\<exists>r. tc_connect_muxs e ?t = Some r \<and> tc_ok (fst r)" if "tstate t = TC_MUXS_BACKOFF"
    by (rule tc_connect_muxs_ok) (use inv(2) [OF that] in simp)
  show "\<exists>s'. tc_continue e (t\<lparr>timeout := None\<rparr>) s = Some s'" if "uri_defined e"
    using tc_start_ok [OF that] c by (force simp: tc_continue_def Let_def)
  have b: "mux_inv ((muxsuri t)[0 := URI_BAD])" using inv(1) by (simp add: mux_inv_def MAX_URI_LEN_def)
  assume q: "tc_continue e (t\<lparr>timeout := None\<rparr>) s = Some s'"
  show "\<forall>t'. TC s' = Some t' \<longrightarrow> tc_ok t'"
    using q c inv b assms(2) tc_start_inv [of e]
    by (auto simp: tc_continue_def Let_def put_tc_def sys_stopTC_def tc_free_def tc_backoff_ok mux_inv_def bind_eq_Some_conv split: if_splits)
qed

lemma tc_timer_ok:
  assumes "tc_ok t" and "timeout t = Some (dl, cb)"
  shows "uri_defined e \<Longrightarrow> \<exists>s'. tc_timer e cb t s = Some s'"
    and "tc_timer e cb t s = Some s' \<Longrightarrow> \<forall>t'. TC s' = Some t' \<longrightarrow> tc_ok t'"
proof -
  have inv: "mux_inv (muxsuri t)" "cb = CbOndone \<Longrightarrow> ws t = WsIdle" using assms by (auto simp: tc_ok_def split: if_splits)
  have d: "tc_ok (fst (tc_timeout e (t\<lparr>timeout := None\<rparr>)))" unfolding tc_timeout_def by (rule tc_done_ok) (use inv(1) in simp_all)
  show "\<exists>s'. tc_timer e cb t s = Some s'" if "uri_defined e"
    using tc_continue_ok(1) [OF assms(1) inv(2) that] by (cases cb) (simp_all add: tc_timer_def)
  show "tc_timer e cb t s = Some s' \<Longrightarrow> \<forall>t'. TC s' = Some t' \<longrightarrow> tc_ok t'"
    using tc_continue_ok(2) [OF assms(1) inv(2)] d by (cases cb) (auto simp: tc_timer_def put_tc_def Let_def)
qed

lemma ws_close_ok:
  assumes "tc_ok t" and "ws t \<noteq> WsIdle"
  shows "evcb t = EvMuxs \<Longrightarrow> tc_ok (fst (close_failed t))"
    and "evcb t = EvInfos \<Longrightarrow> mux_inv m \<Longrightarrow> st \<in> {TC_ERR_FAILED, TC_ERR_REJECTED, TC_INFOS_GOT_URI} \<Longrightarrow>
      (st = TC_INFOS_GOT_URI \<Longrightarrow> muxs_ok m) \<Longrightarrow> tc_ok (fst (ws_close 1000 (t\<lparr>tstate := st, muxsuri := m\<rparr>)))"
  using assms by (cases "ws t"; auto simp: tc_ok_def ws_close_def close_failed_def split: option.splits if_splits; fail)+

lemma tc_event_ok:
  assumes "tc_ok t" and "ws t \<noteq> WsIdle"
  shows "tc_event e ev t = Some r \<Longrightarrow> tc_ok (fst r)" and "\<exists>r. tc_event e WSEV_CLOSED t = Some r"
proof -
  have inv: "mux_inv (muxsuri t)" using assms(1) by (simp add: tc_ok_def)
  consider (infos) "evcb t = EvInfos" | (muxs) "evcb t = EvMuxs" using assms by (auto simp: tc_ok_def split: if_splits)
  then have "(tc_event e ev t = Some r \<longrightarrow> tc_ok (fst r)) \<and> (\<exists>r. tc_event e WSEV_CLOSED t = Some r)"
  proof cases
    case infos
    then have i: "tstate t \<in> {TC_INFOS_REQ_PEND, TC_INFOS_GOT_URI, TC_ERR_FAILED, TC_ERR_REJECTED}"
      "tstate t = TC_INFOS_GOT_URI \<Longrightarrow> muxs_ok (muxsuri t)" using assms by (auto simp: tc_ok_def)
    have cm: "\<exists>r. tc_connect_muxs e (t\<lparr>ws := WsIdle\<rparr>) = Some r \<and> tc_ok (fst r)" if "tstate t = TC_INFOS_GOT_URI"
      by (rule tc_connect_muxs_ok) (use i(2) [OF that] in simp)
    have cl: "\<exists>r. tc_info_request e WSEV_CLOSED t = Some r \<and> tc_ok (fst r)"
    proof (cases "tstate t = TC_INFOS_GOT_URI")
      case True
      then show ?thesis using cm by (simp add: tc_info_request_def)
    next
      case False
      then have "tc_ok (fst (tc_done e (if tstate t \<ge> 0 then TC_ERR_CLOSED else tstate t) t))"
        by (intro tc_done_ok) (use inv i(1) in \<open>auto simp: tc_states\<close>)
      moreover have "tc_info_request e WSEV_CLOSED t = Some (tc_done e (if tstate t \<ge> 0 then TC_ERR_CLOSED else tstate t) t)"
        using False i(1) by (auto simp: tc_info_request_def tc_states)
      ultimately show ?thesis by blast
    qed
    have "tc_ok (fst r)" if q: "tc_event e ev t = Some r"
    proof (cases ev)
      case (WSEV_TEXTRCVD b)
      then obtain st m where m: "infos_text b (muxsuri t) = Some (st, m)" "r = ws_close 1000 (t\<lparr>tstate := st, muxsuri := m\<rparr>)"
        using q infos by (auto simp: tc_event_def tc_info_request_def bind_eq_Some_conv)
      show ?thesis unfolding m(2) using infos_text_state [OF m(1) inv] by (intro ws_close_ok(2) [OF assms infos]) simp_all
    qed (use q infos assms cl in \<open>auto simp: tc_event_def tc_info_request_def bind_eq_Some_conv\<close>)
    then show ?thesis using cl infos by (auto simp: tc_event_def)
  next
    case muxs
    have "tc_ok (t\<lparr>timeout := None, tstate := TC_MUXS_CONNECTED\<rparr>)" using assms muxs inv by (simp add: tc_ok_def)
    moreover have "tc_ok (fst (tc_done e (if tstate t \<ge> 0 then if tstate t = TC_MUXS_CONNECTED then TC_ERR_CLOSED else TC_ERR_FAILED else tstate t) t))"
      by (intro tc_done_ok) (use inv assms muxs in \<open>auto simp: tc_ok_def tc_states split: option.splits\<close>)
    ultimately have "tc_ok (fst r)" if "tc_event e ev t = Some r"
      using that muxs assms ws_close_ok(1) [OF assms muxs]
      by (cases ev) (auto simp: tc_event_def tc_muxs_connection_def bind_eq_Some_conv)
    then show ?thesis using muxs by (auto simp: tc_event_def tc_muxs_connection_def)
  qed
  then show "tc_event e ev t = Some r \<Longrightarrow> tc_ok (fst r)" "\<exists>r. tc_event e WSEV_CLOSED t = Some r" by auto
qed

lemma tc_reach_ok: "tc_reach s \<Longrightarrow> TC s = Some t \<Longrightarrow> tc_ok t"
proof (induction arbitrary: t rule: tc_reach.induct)
  case (start s e s')
  then show ?case using tc_start_inv [of e] by (auto simp: sys_startTC_def put_tc_def split: if_splits)
next
  case (stop s)
  then show ?case by (auto simp: sys_stopTC_def tc_free_def split: option.splits)
next
  case (event s t' e ev r)
  then show ?case using tc_event_ok(1) [of t' e ev r] by (auto simp: put_tc_def)
next
  case (timer s t' dl cb e s')
  then show ?case using tc_timer_ok(2) [of t' dl cb e s s'] by auto
qed simp


text \<open>C6: The connection engine is never stuck. In every state the station can reach, while the engine runs, either its websocket is down
  and its timer is armed to try again, or its websocket is in use with a handler; then it is connected, or it was told to
  close, or the timeout is armed. And whatever comes next, the engine goes on: an armed timer and the end of the
  connection are always handled, without an access outside of the buffer with the packed URI.\<close>

theorem tc_never_stuck:
  assumes "tc_reach s" and "TC s = Some t"
  shows "(if ws t = WsIdle then \<exists>dl. timeout t = Some (dl, CbOndone)
      else evcb t \<noteq> EvNil \<and> (tstate t = TC_MUXS_CONNECTED \<or> ws t = WsClosing \<or> (\<exists>dl. timeout t = Some (dl, CbTimeout)))) \<and>
    (case timeout t of None \<Rightarrow> True | Some (dl, cb) \<Rightarrow> \<forall>e. uri_defined e \<longrightarrow> (\<exists>s'. tc_timer e cb t s = Some s')) \<and>
    (ws t = WsIdle \<or> (\<forall>e. \<exists>r. tc_event e WSEV_CLOSED t = Some r))"
proof -
  have ok: "tc_ok t" by (rule tc_reach_ok [OF assms])
  then have 1: "if ws t = WsIdle then \<exists>dl. timeout t = Some (dl, CbOndone)
      else evcb t \<noteq> EvNil \<and> (tstate t = TC_MUXS_CONNECTED \<or> ws t = WsClosing \<or> (\<exists>dl. timeout t = Some (dl, CbTimeout)))"
    by (auto simp: tc_ok_def split: if_splits option.splits)
  show ?thesis using 1 tc_timer_ok(1) [OF ok] tc_event_ok(2) [OF ok] by (auto split: option.splits)
qed

text \<open>A run: the start with a discovery server that accepts the connection.\<close>

definition sample_env :: tcenv where
  "sample_env = \<lparr>e_clock = 5, TC_TIMEOUT = 60000000, sys_noCUPS = False, sys_noTC = False, sys_eui = 1,
     sys_uri = Some (bytes_of ''ws://h:1''), CFG_version = [], sys_version = [], CFG_platform = [], rt_features = [],
     e_tls = True, e_connect = True, e_sendbuf = None, e_accepted = True\<rparr>"

lemma sample_start: "sys_startTC sample_env \<lparr>TC = None, tstateLast = 0, tc_outs = []\<rparr> = Some
    \<lparr>TC = Some (tc_ini\<lparr>ws := WsOpen, timeout := Some (60000000000005, CbTimeout), evcb := EvInfos, tstate := TC_INFOS_REQ_PEND\<rparr>),
     tstateLast = 0, tc_outs = [WsConnect (bytes_of ''h'') (bytes_of ''1'') (bytes_of ''/router-info''), InState SYSIS_TC_DISCONNECTED]\<rparr>"
proof -
  have u: "uri_checkHostPortUri (bytes_of ''ws://h:1'') (bytes_of ''ws'') MAX_HOSTNAME_LEN MAX_PORT_LEN = Some (URI_TCP, bytes_of ''h'', bytes_of ''1'')"
    by code_simp
  have st: "tc_start sample_env tc_ini = Some (tc_ini\<lparr>ws := WsOpen, timeout := Some (60000000000005, CbTimeout), evcb := EvInfos, tstate := TC_INFOS_REQ_PEND\<rparr>,
     [WsConnect (bytes_of ''h'') (bytes_of ''1'') (bytes_of ''/router-info'')])"
    by (simp add: tc_start_def sample_env_def u rt_seconds_def TC_INI_def tc_ini_def uri_consts del: bytes_of_simps)
  have "\<not> sys_noTC sample_env" by (simp add: sample_env_def)
  then show ?thesis by (simp add: sys_startTC_def st put_tc_def)
qed

theorem tc_never_stuck_witness:
  "\<exists>dl. timeout (the (TC (the (sys_startTC sample_env \<lparr>TC = None, tstateLast = 0, tc_outs = []\<rparr>)))) = Some (dl, CbTimeout)"
proof -
  let ?t = "tc_ini\<lparr>ws := WsOpen, timeout := Some (60000000000005, CbTimeout), evcb := EvInfos, tstate := TC_INFOS_REQ_PEND\<rparr>"
  have "tc_reach (the (sys_startTC sample_env \<lparr>TC = None, tstateLast = 0, tc_outs = []\<rparr>))"
    by (rule tc_reach.start [OF tc_reach.boot, of sample_env]) (simp add: sample_start)
  moreover have "TC (the (sys_startTC sample_env \<lparr>TC = None, tstateLast = 0, tc_outs = []\<rparr>)) = Some ?t" by (simp add: sample_start)
  ultimately show ?thesis using tc_never_stuck [of _ ?t] by (simp add: tc_states)
qed

section \<open>Falling back to the configuration server\<close>

definition rank :: "tc \<Rightarrow> nat" where
  "rank t =
     (if tstate t = TC_ERR_REJECTED \<or> tstate t = TC_ERR_NOURI \<or> retries t \<ge> 10 then 0
      else if tstate t = TC_INFOS_BACKOFF then 19 - 2 * retries t
      else if tstate t = TC_MUXS_BACKOFF then 19
      else if muxsuri t ! 0 = URI_BAD then 20 - 2 * retries t
      else if retries t \<le> 4 \<and> tstate t = TC_ERR_CLOSED then 20 else 18)"

definition offline :: "tcenv \<Rightarrow> bool" where
  "offline e \<longleftrightarrow> \<not> e_connect e \<and> \<not> sys_noCUPS e \<and> uri_defined e"

lemma tc_start_offline:
  assumes "offline e"
  shows "\<exists>st outs. tc_start e tc_ini = Some (tc_ini\<lparr>tstate := st, ws := WsIdle, timeout := Some (e_clock e, CbOndone)\<rparr>, outs) \<and>
    st \<in> {TC_ERR_NOURI, TC_ERR_FAILED}"
  using assms tc_start_ok [of e]
  by (fastforce simp: offline_def tc_start_def tc_done_def then_out_def Let_def bind_eq_Some_conv split: option.splits if_splits)

lemma tc_connect_offline:
  assumes "offline e" and "muxs_ok (muxsuri t)"
  shows "\<exists>outs. tc_connect_muxs e t =
    Some (t\<lparr>tstate := TC_ERR_FAILED, ws := WsIdle, evcb := EvNil, timeout := Some (e_clock e, CbOndone)\<rparr>, outs)"
proof -
  obtain mode host port way where u: "cstr_at 3 (muxsuri t) = Some host" "cstr_at (muxsuri t ! 1) (muxsuri t) = Some port"
    "cstr_at (muxsuri t ! 2) (muxsuri t) = Some (takeWhile (\<lambda>c. c \<noteq> 0) way)" "3 \<le> length (muxsuri t)"
    using tc_connect_muxs_defined [OF assms(2)] by metis
  show ?thesis using assms(1) u(4)
    by (auto simp: offline_def tc_connect_muxs_def u(1) u(2) [unfolded One_nat_def] u(3) Let_def tc_done_def then_out_def)
qed

text \<open>One timer of an idle engine that gets no connection.\<close>

definition fallen_back :: "tcsys \<Rightarrow> bool" where
  "fallen_back s \<longleftrightarrow> TC s = None \<and> TriggerCUPS (- 1) \<in> set (tc_outs s)"

lemma tc_timer_offline:
  assumes "tc_ok t" and "ws t = WsIdle" and "offline e"
  shows "\<exists>s'. tc_timer e CbOndone t s = Some s' \<and>
    (fallen_back s' \<or> (\<exists>t'. TC s' = Some t' \<and> tc_ok t' \<and> ws t' = WsIdle \<and> rank t' < rank t))"
proof -
  have inv: "mux_inv (muxsuri t)" "tstate t = TC_MUXS_BACKOFF \<Longrightarrow> muxs_ok (muxsuri t)" "\<exists>dl. timeout t = Some (dl, CbOndone)"
    "tstate t \<in> {TC_MUXS_BACKOFF, TC_INFOS_BACKOFF, TC_ERR_FAILED, TC_ERR_NOURI, TC_ERR_TIMEOUT, TC_ERR_REJECTED, TC_ERR_CLOSED}"
    using assms(1,2) by (auto simp: tc_ok_def)
  obtain dl where dl: "timeout t = Some (dl, CbOndone)" using inv(3) by blast
  obtain s' where q: "tc_timer e CbOndone t s = Some s'" using tc_timer_ok(1) [OF assms(1) dl] assms(3) by (auto simp: offline_def)
  note ok = tc_timer_ok(2) [OF assms(1) dl q]
  have q': "tc_continue e (t\<lparr>timeout := None\<rparr>) s = Some s'" using q by (simp add: tc_timer_def)
  have off: "\<not> sys_noCUPS e" using assms(3) by (simp add: offline_def)
  consider "tstate t = TC_ERR_REJECTED \<or> tstate t = TC_ERR_NOURI \<or> retries t \<ge> 10"
    | "retries t < 10" "tstate t = TC_INFOS_BACKOFF" | "retries t < 10" "tstate t = TC_MUXS_BACKOFF"
    | "retries t < 10" "tstate t \<in> {TC_ERR_FAILED, TC_ERR_TIMEOUT, TC_ERR_CLOSED}" using inv(4) by (cases "retries t < 10") auto
  then have "fallen_back s' \<or> (\<exists>t'. TC s' = Some t' \<and> ws t' = WsIdle \<and> rank t' < rank t)"
  proof cases
    case 1
    then show ?thesis using q' off by (auto simp: tc_continue_def sys_stopTC_def tc_free_def fallen_back_def Let_def)
  next
    case 2
    obtain st outs where st: "tc_start e tc_ini = Some (tc_ini\<lparr>tstate := st, ws := WsIdle, timeout := Some (e_clock e, CbOndone)\<rparr>, outs)"
      "st \<in> {TC_ERR_NOURI, TC_ERR_FAILED}" using tc_start_offline [OF assms(3)] by blast
    let ?t = "tc_ini\<lparr>tstate := st, ws := WsIdle, timeout := Some (e_clock e, CbOndone), retries := retries t + 1\<rparr>"
    have m: "muxsuri tc_ini ! 0 = URI_BAD" by (simp add: tc_ini_def uri_consts MAX_URI_LEN_def)
    have "TC s' = Some ?t" using q' 2 st(1) by (auto simp: tc_continue_def tc_states Let_def put_tc_def)
    moreover have "rank ?t < rank t" using 2 st(2) m by (auto simp: rank_def tc_states)
    ultimately show ?thesis by auto
  next
    case 3
    let ?t = "t\<lparr>timeout := None, retries := (retries t + 1) mod 256\<rparr>"
    obtain outs where c: "tc_connect_muxs e ?t =
        Some (?t\<lparr>tstate := TC_ERR_FAILED, ws := WsIdle, evcb := EvNil, timeout := Some (e_clock e, CbOndone)\<rparr>, outs)"
      using tc_connect_offline [OF assms(3), of ?t] inv(2) [OF 3(2)] by auto
    have "muxsuri t ! 0 \<noteq> URI_BAD" using tc_connect_muxs_defined [OF inv(2) [OF 3(2)]] by metis
    then have "rank (?t\<lparr>tstate := TC_ERR_FAILED, ws := WsIdle, evcb := EvNil, timeout := Some (e_clock e, CbOndone)\<rparr>) \<le> 18"
      by (simp add: rank_def tc_states)
    moreover have "rank t = 19" using 3 by (simp add: rank_def tc_states)
    moreover have "TC s' = Some (?t\<lparr>tstate := TC_ERR_FAILED, ws := WsIdle, evcb := EvNil, timeout := Some (e_clock e, CbOndone)\<rparr>)"
    proof -
      have "tc_continue e (t\<lparr>timeout := None\<rparr>) s = map_option (\<lambda>r. put_tc r s) (tc_connect_muxs e ?t)"
        using 3 by (simp add: tc_continue_def tc_states)
      then show ?thesis using q' unfolding c by (auto simp: put_tc_def)
    qed
    ultimately show ?thesis by auto
  next
    case 4
    have l: "0 < length (muxsuri t)" using inv(1) by (simp add: mux_inv_def)
    have st: "tstate t \<noteq> TC_ERR_REJECTED" "tstate t \<noteq> TC_ERR_NOURI" "\<not> 10 \<le> retries t" "tstate t \<noteq> TC_INFOS_BACKOFF" "tstate t \<noteq> TC_MUXS_BACKOFF"
      using 4 by (auto simp: tc_states)
    show ?thesis
    proof (cases "muxsuri t ! 0 \<noteq> URI_BAD \<and> retries t \<le> 4 \<and> tstate t = TC_ERR_CLOSED")
      case True
      let ?t = "tc_backoff e TC_MUXS_BACKOFF (2 ^ retries t) (t\<lparr>timeout := None\<rparr>)"
      have "TC s' = Some ?t" using q' st True by (auto simp: tc_continue_def Let_def put_tc_def)
      moreover have "rank ?t = 19" using st(3) by (simp add: rank_def tc_backoff_def tc_states)
      moreover have "rank t = 20" using st True by (simp add: rank_def)
      ultimately show ?thesis using assms(2) by (auto simp: tc_backoff_def)
    next
      case False
      let ?u = "if muxsuri t ! 0 \<noteq> URI_BAD then t\<lparr>timeout := None, muxsuri := (muxsuri t)[0 := URI_BAD], retries := 1\<rparr> else t\<lparr>timeout := None\<rparr>"
      let ?t = "tc_backoff e TC_INFOS_BACKOFF (int (min (retries ?u) 6) * 10) ?u"
      have "TC s' = Some ?t" using q' st False by (auto simp: tc_continue_def Let_def put_tc_def)
      moreover have "rank ?t < rank t" using st False by (auto simp: rank_def tc_backoff_def tc_states)
      ultimately show ?thesis using assms(2) by (auto simp: tc_backoff_def)
    qed
  qed
  then show ?thesis using q ok by blast
qed

lemma tc_timers_offline:
  "tc_ok t \<Longrightarrow> ws t = WsIdle \<Longrightarrow> TC s = Some t \<Longrightarrow> \<forall>e \<in> set es. offline e \<Longrightarrow> rank t < length es \<Longrightarrow>
   \<exists>s'. tc_timers es s = Some s' \<and> fallen_back s'"
proof (induction es arbitrary: s t)
  case (Cons e es)
  obtain s1 where s1: "tc_timer e CbOndone t s = Some s1"
    "fallen_back s1 \<or> (\<exists>t'. TC s1 = Some t' \<and> tc_ok t' \<and> ws t' = WsIdle \<and> rank t' < rank t)"
    using tc_timer_offline [OF Cons.prems(1,2)] Cons.prems(4) by (meson list.set_intros(1))
  have d: "\<exists>dl. timeout t = Some (dl, CbOndone)" using Cons.prems(1,2) by (simp add: tc_ok_def)
  from s1(2) show ?case
  proof
    assume f: "fallen_back s1"
    then have "tc_timers es s1 = Some s1" by (cases es) (simp_all add: fallen_back_def)
    then show ?thesis using d s1(1) f Cons.prems(3) by auto
  next
    assume "\<exists>t'. TC s1 = Some t' \<and> tc_ok t' \<and> ws t' = WsIdle \<and> rank t' < rank t"
    then obtain t' where t': "TC s1 = Some t'" "tc_ok t'" "ws t' = WsIdle" "rank t' < rank t" by blast
    have "\<exists>s'. tc_timers es s1 = Some s' \<and> fallen_back s'"
      using Cons.IH [OF t'(2,3,1)] Cons.prems(4,5) t'(4) by simp
    then show ?thesis using d s1(1) Cons.prems(3) by auto
  qed
qed simp

text \<open>C8: An engine that gets no connection falls back to the configuration server. From any state the station can reach in which the
  websocket is down, when no connection succeeds any more and the configuration server is in use, after at most 21 timers
  the engine is gone and the configuration server is called.\<close>

theorem tc_falls_back:
  assumes "tc_reach s" and "TC s = Some t" and "ws t = WsIdle" and "\<forall>e \<in> set es. offline e" and "length es = 21"
  shows "\<exists>s'. tc_timers es s = Some s' \<and> TC s' = None \<and> TriggerCUPS (- 1) \<in> set (tc_outs s')"
proof -
  have "rank t < 21" unfolding rank_def by (auto intro: le_less_trans [OF diff_le_self])
  then have "rank t < length es" by (simp only: assms(5))
  then show ?thesis using tc_timers_offline [OF tc_reach_ok [OF assms(1,2)] assms(3,2,4)] by (simp add: fallen_back_def)
qed

theorem tc_falls_back_witness:
  "\<exists>s'. tc_timers (replicate 21 (sample_env\<lparr>sys_uri := None\<rparr>\<lparr>e_connect := False\<rparr>))
      (the (sys_startTC (sample_env\<lparr>e_connect := False\<rparr>\<lparr>sys_uri := None\<rparr>) \<lparr>TC = None, tstateLast = 0, tc_outs = []\<rparr>)) = Some s' \<and>
    TC s' = None \<and> TriggerCUPS (- 1) \<in> set (tc_outs s')"
proof -
  let ?s = "\<lparr>TC = None, tstateLast = 0, tc_outs = []\<rparr>"
  let ?e = "sample_env\<lparr>e_connect := False\<rparr>\<lparr>sys_uri := None\<rparr>"
  let ?t = "tc_ini\<lparr>tstate := TC_ERR_NOURI, ws := WsIdle, timeout := Some (5, CbOndone)\<rparr>"
  have st: "sys_startTC ?e ?s = Some \<lparr>TC = Some ?t, tstateLast = 0, tc_outs = [InState SYSIS_TC_DISCONNECTED, InState SYSIS_TC_DISCONNECTED]\<rparr>"
    by (simp add: sys_startTC_def tc_start_def sample_env_def tc_done_def put_tc_def tc_ini_def)
  have "tc_reach (the (sys_startTC ?e ?s))" by (rule tc_reach.start [OF tc_reach.boot, of ?e]) (simp add: st)
  moreover have "TC (the (sys_startTC ?e ?s)) = Some ?t" by (simp add: st)
  moreover have "ws ?t = WsIdle" by simp
  moreover have "\<forall>e \<in> set (replicate 21 (sample_env\<lparr>sys_uri := None\<rparr>\<lparr>e_connect := False\<rparr>)). offline e"
    by (simp add: offline_def sample_env_def uri_defined_def)
  moreover have "length (replicate 21 (sample_env\<lparr>sys_uri := None\<rparr>\<lparr>e_connect := False\<rparr>)) = 21" by simp
  ultimately show ?thesis by (rule tc_falls_back)
qed

section \<open>What the engine gets wrong\<close>

text \<open>The scheme is accepted in upper case, but then the connection is made without TLS.\<close>

lemma infos_uri_tls_dropped:
  "infos_uri (bytes_of ''WSS://h:1/p'') = Some (Some (packed URI_TCP (bytes_of ''h'') (bytes_of ''1'') (bytes_of ''/p'')))"
  by code_simp

lemma infos_uri_empty_host: "infos_uri (bytes_of ''ws://[]:1/p'') = None"
  by code_simp

text \<open>The timeout, in microseconds, is taken for seconds: a discovery server that accepts the connection and stays silent holds the station for TC_TIMEOUT million times longer.\<close>

lemma tc_start_timeout:
  assumes "tc_start e t = Some r" and "ws (fst r) = WsOpen" and "ws t = WsIdle"
  shows "timeout (fst r) = Some (e_clock e + 1000000 * TC_TIMEOUT e, CbTimeout)"
  using assms by (auto simp: tc_start_def tc_done_def then_out_def rt_seconds_def Let_def bind_eq_Some_conv split: option.splits if_splits)


section \<open>From the answer to the connection\<close>

lemma blk_put_string:
  assumes "p + length bs + 1 \<le> length s"
  shows "blk p (length bs) (put_bytes p (bs @ [0]) s) = bs"
proof -
  have "blk p (length (bs @ [0])) (put_bytes p (bs @ [0]) s) = bs @ [0]" using assms by (intro blk_put_bytes) simp
  then have "take (length bs) (blk p (length bs + 1) (put_bytes p (bs @ [0]) s)) = bs" by simp
  then show ?thesis by (simp add: blk_def min_def)
qed

text \<open>One field with a string value; both strings are decoded in place.\<close>

definition in_object :: "ujdec \<Rightarrow> bool" where
  "in_object d \<longleftrightarrow> \<not> skip_mode d \<and> nest_level d = 0 \<and> nest_type d = 1"

lemma skipWsp_key:
  assumes "ahead d ((if fld_name d \<noteq> None then [44] else []) @ 34 # t)"
  shows "bnd (skipWsp (d\<lparr>ty := UJ_UNDEF\<rparr>)) (\<lambda>c d. if c = 125 then Inr (0, backChar d) else
       bnd (if fld_name d \<noteq> None then (if c \<noteq> 44 then Inl (UjError ''Expecting a comma'') else skipWsp d)
            else Inr (c, d)) f) = f 34 (d\<lparr>ty := UJ_UNDEF, read_pos := read_pos d + (if fld_name d \<noteq> None then 1 else 0) + 1\<rparr>)"
proof (cases "fld_name d")
  case None
  then have "ahead (d\<lparr>ty := UJ_UNDEF\<rparr>) (34 # t)" using assms by simp
  from skipWsp_here [OF this] None show ?thesis by simp
next
  case (Some n)
  then have e: "ahead (d\<lparr>ty := UJ_UNDEF\<rparr>) (44 # 34 # t)" using assms by simp
  have "ahead (d\<lparr>ty := UJ_UNDEF, read_pos := Suc (read_pos d)\<rparr>) (34 # t)"
    by (rule ahead_next [where t = "[44]"]) (use e in auto)
  from skipWsp_here [OF this] skipWsp_here [OF e] Some show ?thesis by simp
qed

lemma ahead_put_string:
  assumes "drop p s = body @ 34 # rest" and "length bs \<le> length body"
  shows "drop (p + length body + 1) (put_bytes p (bs @ [0]) s) = rest" and "p + length body + 1 \<le> length s"
proof -
  have "length (drop p s) = length (body @ 34 # rest)" by (simp only: assms(1))
  then show "p + length body + 1 \<le> length s" by simp
  have "drop (p + length body + 1) (put_bytes p (bs @ [0]) s) = drop (p + length body + 1) s"
    using assms(2) by (intro drop_put_bytes) simp
  then show "drop (p + length body + 1) (put_bytes p (bs @ [0]) s) = rest"
    using ahead_shift [of p s "body @ [34]" rest] assms(1) by (simp add: add.assoc)
qed

lemma uj_nextField_decodes:
  assumes a: "ahead d ((if fld_name d \<noteq> None then [44] else []) @ 34 # k @ 34 # 58 # t)"
    and k: "unescape k = Some bs" and o: "in_object d"
  shows "\<exists>d'. uj_nextField d = Inr (UJ_FINISH_CRC (foldl UJ_UPDATE_CRC 0 bs), d') \<and> in_object d' \<and>
    fld_name d' \<noteq> None \<and> ty d' = UJ_UNDEF \<and> ahead d' t"
proof -
  let ?k = "if fld_name d \<noteq> None then 1 else 0 :: nat"
  let ?d1 = "d\<lparr>ty := UJ_UNDEF, read_pos := read_pos d + ?k + 1\<rparr>"
  have a1: "ahead ?d1 (k @ 34 # 58 # t)"
    by (rule ahead_next [where t = "(if fld_name d \<noteq> None then [44] else []) @ [34]" and d = d]) (use a in auto)
  have q: "0 < read_pos ?d1" "ch (jbuf ?d1) (read_pos ?d1 - 1) = 34"
    using ahead_ch [OF a, of "?k"] by (auto simp: ch_def split: if_splits)
  have sk: "\<not> skip_mode ?d1" using o by (simp add: in_object_def)
  note ps = parseString_ok [OF q a1 k]
  let ?c = "UJ_FINISH_CRC (foldl UJ_UPDATE_CRC 0 bs)"
  let ?d2 = "?d1\<lparr>jbuf := put_bytes (read_pos ?d1) (bs @ [0]) (jbuf d), read_pos := read_pos ?d1 + length k + 1, str_beg := read_pos ?d1,
      str_crc := ?c, str_len := Some (length bs), fld_name := Some (read_pos ?d1), fld_crc := ?c\<rparr>"
  have d2: "ahead ?d2 (58 # t)" using ahead_put_string(1) [OF a1 unescape_length [OF k]] by simp
  note colon = skipWsp_here [OF d2]
  have "uj_nextField d = Inr (?c, ?d2\<lparr>read_pos := Suc (read_pos ?d2)\<rparr>)"
    unfolding uj_nextField_def skipWsp_key [OF a] using ps colon sk by (simp add: Let_def)
  moreover have "ahead (?d2\<lparr>read_pos := Suc (read_pos ?d2)\<rparr>) t" by (rule ahead_next [where t = "[58]" and d = ?d2]) (use d2 in auto)
  ultimately show ?thesis using o by (auto simp: in_object_def)
qed

lemma uj_str_decodes:
  assumes a: "ahead d (34 # body @ 34 # rest)" and b: "unescape body = Some bs" and t: "ty d = UJ_UNDEF" and o: "in_object d"
  shows "\<exists>v d'. uj_str d = Inr (v, d') \<and> str_bytes d' = Some bs \<and> in_object d' \<and> fld_name d' = fld_name d \<and> ahead d' rest"
proof -
  let ?d = "d\<lparr>read_pos := Suc (read_pos d), val_pos := read_pos d, ty := UJ_STRING\<rparr>"
  let ?p = "Suc (read_pos d)"
  have b1: "ahead ?d (body @ 34 # rest)" by (rule ahead_next [where t = "[34]"]) (use a in auto)
  have c: "0 < read_pos ?d" "ch (jbuf ?d) (read_pos ?d - 1) = 34" using ahead_ch [OF a, of 0] by (simp_all add: ch_def)
  have sk: "\<not> skip_mode d" using o by (simp add: in_object_def)
  note ps = parseString_ok [OF c b1 b] and l = ahead_put_string [OF b1 unescape_length [OF b]]
  let ?d' = "?d\<lparr>jbuf := put_bytes ?p (bs @ [0]) (jbuf d), read_pos := ?p + length body + 1,
      str_beg := ?p, str_crc := UJ_FINISH_CRC (foldl UJ_UPDATE_CRC 0 bs), str_len := Some (length bs)\<rparr>"
  have "uj_str d = Inr (?p, ?d')" using uj_nextValue_at [OF a _ t] ps sk by (simp add: uj_str_def Let_def)
  moreover have "blk ?p (length bs) (put_bytes ?p (bs @ [0]) (jbuf d)) = bs"
    by (rule blk_put_string) (use l(2) unescape_length [OF b] in simp)
  ultimately show ?thesis using l(1) o by (auto simp: str_bytes_def in_object_def)
qed

definition str_field :: "bytes \<Rightarrow> bytes \<Rightarrow> bytes" where
  "str_field k body = 34 # k @ 34 # 58 # 34 # body @ [34]"

lemma infos_field_read:
  assumes "ahead d ((if fld_name d \<noteq> None then [44] else []) @ str_field k body @ rest)"
    and "unescape k = Some kb" and "unescape body = Some bs" and "in_object d"
  obtains d1 d2 v where "uj_nextField d = Inr (UJ_FINISH_CRC (foldl UJ_UPDATE_CRC 0 kb), d1)" "uj_str d1 = Inr (v, d2)"
    "str_bytes d2 = Some bs" "in_object d2" "fld_name d2 \<noteq> None" "ahead d2 rest"
proof -
  have a: "ahead d ((if fld_name d \<noteq> None then [44] else []) @ 34 # k @ 34 # 58 # (34 # body @ 34 # rest))"
    using assms(1) by (simp add: str_field_def)
  obtain d1 where d1: "uj_nextField d = Inr (UJ_FINISH_CRC (foldl UJ_UPDATE_CRC 0 kb), d1)" "in_object d1" "fld_name d1 \<noteq> None"
    "ty d1 = UJ_UNDEF" "ahead d1 (34 # body @ 34 # rest)" using uj_nextField_decodes [OF a assms(2,4)] by blast
  obtain v d2 where "uj_str d1 = Inr (v, d2)" "str_bytes d2 = Some bs" "in_object d2" "fld_name d2 = fld_name d1" "ahead d2 rest"
    using uj_str_decodes [OF d1(5) assms(3) d1(4,2)] by blast
  then show ?thesis using that [OF d1(1)] d1(3) by simp
qed


lemma infos_enter:
  assumes "b = 123 # t"
  shows "\<exists>u d. bnd (uj_nextValue (uj_iniDecoder b)) (\<lambda>_ d. uj_enterObject d) = Inr (u, d) \<and> in_object d \<and> fld_name d = None \<and> ahead d t"
proof -
  have a: "ahead (uj_iniDecoder b) (123 # t)" by (simp add: uj_iniDecoder_def assms)
  let ?d = "(uj_iniDecoder b)\<lparr>val_pos := 0, ty := UJ_OBJECT\<rparr>"
  have n: "uj_nextValue (uj_iniDecoder b) = Inr (UJ_OBJECT, ?d)"
    using uj_nextValue_at [OF a] by (simp add: uj_iniDecoder_def backChar_def Let_def)
  have "ahead ?d (123 # t)" using a by simp
  note s = skipWsp_here [OF this]
  show ?thesis unfolding n using s
    by (simp add: uj_enterObject_def do_enter_def uj_iniDecoder_def in_object_def UJ_MAX_NEST_def UJ_N_OBJ_def assms Let_def)
qed

lemma infos_leave:
  assumes "in_object d" and "ahead d [125]"
  shows "infos_fields (Suc n) d uri err mux = (Inr (Some (uri, err, d\<lparr>ty := UJ_UNDEF\<rparr>)), mux)"
    and "\<exists>u d'. bnd (uj_exitObject (d\<lparr>ty := UJ_UNDEF\<rparr>)) (\<lambda>_ d. uj_assertEOF d) = Inr (u, d')"
proof -
  have a: "ahead (d\<lparr>ty := UJ_UNDEF\<rparr>) (125 # [])" using assms(2) by simp
  note s = skipWsp_here [OF this]
  show "infos_fields (Suc n) d uri err mux = (Inr (Some (uri, err, d\<lparr>ty := UJ_UNDEF\<rparr>)), mux)"
    using s by (simp add: uj_nextField_def backChar_def)
  let ?d = "d\<lparr>ty := UJ_UNDEF, read_pos := Suc (read_pos d), nest_level := - 1, nest_type := 0, fld_name := None, fld_crc := 0, idx := - 1\<rparr>"
  have "length (jbuf d) = Suc (read_pos d)"
  proof -
    have "length (drop (read_pos d) (jbuf d)) = 1" by (simp only: assms(2)) simp
    then show ?thesis by simp
  qed
  then have "ch (jbuf d) (Suc (read_pos d)) = 0" by (simp add: ch_def)
  then have e: "skip_wsp (jbuf d) (Suc (read_pos d)) = Inr (0, Suc (Suc (read_pos d)))" by (subst skip_wsp.simps) simp
  have "uj_exitObject (d\<lparr>ty := UJ_UNDEF\<rparr>) = Inr ((), ?d)"
    using s assms(1) by (simp add: uj_exitObject_def do_exit_def in_object_def UJ_N_OBJ_def Let_def)
  then show "\<exists>u d'. bnd (uj_exitObject (d\<lparr>ty := UJ_UNDEF\<rparr>)) (\<lambda>_ d. uj_assertEOF d) = Inr (u, d')"
    by (simp add: uj_assertEOF_def skipWsp_def e)
qed

text \<open>The answer with a router, a message server and its URI; the bodies of the strings may have escapes.\<close>

definition infos_answer :: "bytes \<Rightarrow> bytes \<Rightarrow> bytes \<Rightarrow> bytes" where
  "infos_answer rb mb ub = 123 # str_field (bytes_of ''router'') rb @ 44 # str_field (bytes_of ''muxs'') mb @ 44 #
     str_field (bytes_of ''uri'') ub @ [125]"

lemma infos_keys:
  "unescape (bytes_of ''router'') = Some (bytes_of ''router'')" "unescape (bytes_of ''muxs'') = Some (bytes_of ''muxs'')"
  "unescape (bytes_of ''uri'') = Some (bytes_of ''uri'')"
  "UJ_FINISH_CRC (foldl UJ_UPDATE_CRC 0 (bytes_of ''router'')) = J_router"
  "UJ_FINISH_CRC (foldl UJ_UPDATE_CRC 0 (bytes_of ''muxs'')) = J_muxs"
  "UJ_FINISH_CRC (foldl UJ_UPDATE_CRC 0 (bytes_of ''uri'')) = J_uri"
  by (simp_all add: simple_escape_def UJ_FINISH_CRC_def UJ_UPDATE_CRC_def J_router_def J_muxs_def J_uri_def)

lemma infos_text_answer:
  assumes "unescape rb = Some r" and "unescape mb = Some m" and "unescape ub = Some u" and "infos_uri u = Some (Some mux)"
  shows "infos_text (infos_answer rb mb ub) mux0 = Some (TC_INFOS_GOT_URI, mux)"
proof -
  let ?t = "infos_answer rb mb ub" and ?n = "length (infos_answer rb mb ub)"
  have codes: "J_router \<noteq> 0" "J_muxs \<noteq> 0" "J_muxs \<noteq> J_error" "J_router \<noteq> J_error" "J_uri \<noteq> 0" "J_uri \<notin> {J_router, J_muxs, J_error}"
    by (simp_all add: J_router_def J_muxs_def J_error_def J_uri_def)
  obtain x d where d: "bnd (uj_nextValue (uj_iniDecoder ?t)) (\<lambda>_ d. uj_enterObject d) = Inr (x, d)" "in_object d" "fld_name d = None"
    "ahead d (str_field (bytes_of ''router'') rb @ 44 # str_field (bytes_of ''muxs'') mb @ 44 # str_field (bytes_of ''uri'') ub @ [125])"
    using infos_enter [of ?t] unfolding infos_answer_def by blast
  have a1: "ahead d ((if fld_name d \<noteq> None then [44] else []) @ str_field (bytes_of ''router'') rb @ 44 # str_field (bytes_of ''muxs'') mb @ 44 # str_field (bytes_of ''uri'') ub @ [125])"
    using d(3,4) by simp
  obtain d1 d2 v where f1: "uj_nextField d = Inr (J_router, d1)" "uj_str d1 = Inr (v, d2)" "in_object d2" "fld_name d2 \<noteq> None"
    "ahead d2 (44 # str_field (bytes_of ''muxs'') mb @ 44 # str_field (bytes_of ''uri'') ub @ [125])"
    by (rule infos_field_read [OF a1 infos_keys(1) assms(1) d(2), unfolded infos_keys(4)]) blast
  have a2: "ahead d2 ((if fld_name d2 \<noteq> None then [44] else []) @ str_field (bytes_of ''muxs'') mb @ 44 # str_field (bytes_of ''uri'') ub @ [125])"
    using f1(4,5) by simp
  obtain d3 d4 v' where f2: "uj_nextField d2 = Inr (J_muxs, d3)" "uj_str d3 = Inr (v', d4)" "in_object d4" "fld_name d4 \<noteq> None"
    "ahead d4 (44 # str_field (bytes_of ''uri'') ub @ [125])"
    by (rule infos_field_read [OF a2 infos_keys(2) assms(2) f1(3), unfolded infos_keys(5)]) blast
  have a3: "ahead d4 ((if fld_name d4 \<noteq> None then [44] else []) @ str_field (bytes_of ''uri'') ub @ [125])"
    using f2(4,5) by simp
  obtain d5 d6 v'' where f3: "uj_nextField d4 = Inr (J_uri, d5)" "uj_str d5 = Inr (v'', d6)" "str_bytes d6 = Some u" "in_object d6"
    "ahead d6 [125]"
    by (rule infos_field_read [OF a3 infos_keys(3) assms(3) f2(3), unfolded infos_keys(6)]) blast
  have "infos_fields (Suc (Suc (Suc (Suc k)))) d False False mux0 = (Inr (Some (True, False, d6\<lparr>ty := UJ_UNDEF\<rparr>)), mux)" for k
    using f1(1,2) f2(1,2) f3(1-3) codes assms(4) infos_leave(1) [OF f3(4,5), of k] by (simp del: infos_fields.simps add: infos_fields.simps(2) [of "Suc _"])
  moreover have "?n + 2 = Suc (Suc (Suc (Suc (?n - 2))))" by (simp add: infos_answer_def)
  ultimately have "infos_fields (?n + 2) d False False mux0 = (Inr (Some (True, False, d6\<lparr>ty := UJ_UNDEF\<rparr>)), mux)" by (simp only:)
  then show ?thesis using d(1) infos_leave(2) [OF f3(4,5)] by (auto simp: infos_text_def)
qed

lemma infos_uri_text:
  assumes "uri_parts_ok (bytes_of (if tls then ''wss'' else ''ws'')) host port way" and "way \<noteq> []"
    and "length (uri_text (bytes_of (if tls then ''wss'' else ''ws'')) host port way) < MAX_URI_LEN"
  shows "infos_uri (uri_text (bytes_of (if tls then ''wss'' else ''ws'')) host port way) =
    Some (Some (packed (if tls then URI_TLS else URI_TCP) host port way))" and "fits_uri host port way" and "0 \<notin> set way"
proof -
  let ?s = "bytes_of (if tls then ''wss'' else ''ws'')"
  let ?u = "uri_text ?s host port way"
  note ok = assms(1) [unfolded uri_parts_ok_def]
  note p = uri_parse_text [OF assms(1)]
  show f: "fits_uri host port way" using ok assms(3) by (auto simp: fits_uri_def part_def uri_text_def MAX_URI_LEN_def)
  show "0 \<notin> set way" using ok assms(2) by (auto simp: part_def)
  have sch: "uri_isScheme ?u (bytes_of ''ws'') \<noteq> 0 \<or> uri_isScheme ?u (bytes_of ''wss'') \<noteq> 0" "(ch ?u 2 = 115) = tls"
    by (auto simp: uri_isScheme_def http_icaseCmp_def uri_text_def ch_def)
  have d: "drop (length ?s + 3) ?u = host @ 58 # port @ way" by (simp add: uri_text_def)
  have d2: "drop (length ?s + 3 + length host + 1) ?u = port @ way"
    using drop_step [of "length ?s + 3" ?u "host @ [58]"] d by (simp only: append_assoc append_Cons append_Nil length_append list.size add_0 One_nat_def add.assoc)
  have d3: "drop (length ?s + 3 + length host + 1 + length port) ?u = way @ []" using drop_step [OF d2] by simp
  show "infos_uri ?u = Some (Some (packed (if tls then URI_TLS else URI_TCP) host port way))"
    unfolding infos_uri_def p option.case uri_info.select_convs sub_text_at [OF d] sub_text_at [OF d2] if_not_P [OF assms(2)]
      sub_text_at [OF d3] pack_uri_packed [OF f] using sch assms(2,3) ok by simp
qed




end
