(* ===== verification/Spec2Isabelle.thy ===== *)
theory Spec2Isabelle
  imports RtTimer RtDate RtText RtCrc Txq Rxq UjProps UjCodes UjEui Timesync S2eEngine S2eRxProps TcProps
begin

text \<open>
  Verification library of the LoRa Basics Station (C sources under src/).

  The station connects the radio of a LoRaWAN gateway to a network server. Frames that the radio receives go into a
  receive queue, are parsed and reported to the server as JSON; messages of the server become jobs in the queues of the
  transmitting units, and an engine per unit hands each job to the radio at its time. Everything runs in one thread, driven
  by a queue of timers and by the events of the sockets.

  \<^bold>\<open>Conventions.\<close> Theory Prelude. Unsigned C integers are natural numbers with the wrap-around of their width written
  where the code stores a result, signed ones and times are integers. Buffers are lists of bytes and pointers into
  them are offsets. A result \<open>None\<close> is a failing assertion, an access outside of an array, or behaviour that C
  leaves undefined; the theorems that give a result \<open>Some\<close> therefore also show that none of this happens. Loops that
  might not end are partial functions, and their termination is a theorem. Parts that are not under src/ (the vendor library of the radio,
  sockets, the clock, random numbers) are arguments. Definitions have the names of the source; log messages are left out.

  \<^bold>\<open>Theories, in the order of the calls.\<close>

  \<^item> RtTimer (rt.c): the timer queue as linked memory. \<open>tq_rep\<close> abstracts it to a list; arming keeps it sorted, and the loop
    \<open>rt_processTimerQ\<close> runs every timer that is due (fuel counts its rounds; it needs one more than there are
    timers). The locale \<open>ordered_queue\<close> of Prelude holds what any such queue promises; it is interpreted here and for
    the TX queues in S2ePlace.
  \<^item> RtDate, RtText, RtCrc (rt.c, crc32.c): calendar dates, readers of hexadecimal, decimal, EUI and time span texts, CRC-32.
    The dates agree with the Gregorian calendar except for the day that the code gets wrong; the table driven CRC is
    the bitwise one.
  \<^item> Txq, Rxq (xq.c, xq.h): the job queues with their shared data buffers. \<open>txq_ok\<close> and \<open>rxq_ok\<close> are kept by all
    operations, a frame in the buffer never changes while its job lives, and no assertion fails.
  \<^item> UjDec, UjText, UjTotal, UjProps (uj.c, the decoder): the JSON scanner with strings decoded in place. UjText relates it to the
    grammar of JSON, UjTotal shows that skipping ends on every input (the fuel of \<open>skipValue\<close> is at most twice the
    bytes that are left), UjProps holds the properties.
  \<^item> Cfmt, UjEnc, UjWrites, UjVals, UjObj, UjCodes, UjEui (uj.c, the encoder and \<open>xprintf\<close>): formatted output and JSON output into bounded
    buffers. \<open>writes t f\<close> says that \<open>f\<close> appends \<open>t\<close>; UjObj proves that objects are written as JSON (locale \<open>value_encoder\<close>), UjCodes and UjEui
    that strings and EUIs are read back as they were written.
  \<^item> Ral (ral.c): which receiver of which chip gets a channel. Timesync (timesync.c): the clocks of the server, the radio and the PPS
    signal; conversions between them and the inference of GPS time.
  \<^item> S2eBase, AirTime (s2e.c): the state \<open>s2ctx\<close> of the station, data rates, air time, duty cycle, power.
  \<^item> S2eTx, S2ePlace, S2eEngine (s2e.c): placing a job, with its alternatives in time and antenna, and the engine of a unit,
    \<open>s2e_nextTxAction\<close>. S2ePlace refines placing to insertion into a sorted list. S2eEngine has the invariant \<open>eng_ok\<close>, shows by a measure that the engine
    always returns, and what a job fulfils that is handed to the radio.
  \<^item> Lora, LoraProps (lora.c): the parser of received frames. S2eRx, S2eRxProps (s2e.c): mirror frames and reports to the server.
  \<^item> Uri (net.c): the parser of URIs. Tc, TcProps (tc.c): the connection engine as a transition system, \<open>tc_reach\<close>, with the packed
    URI of the server.

  \<^bold>\<open>How the parts rest on each other.\<close> The reports of S2eRx use the frame parser, the encoder, the receive queue and the
  time sync; the TX engine uses the TX queues, the time sync and the encoder; the connection engine uses the JSON decoder
  and the URI parser. Their theorems are about these compositions.

  \<^bold>\<open>Flaws of the code\<close> are modelled as they are. A property or lemma states each of them, for example that the band check of
  region EU868 never refuses a job, that reports lack their opening brace, or that a byte in a tagged frame stops the station.

  \<^bold>\<open>Not modelled:\<close> the configuration by the server, the handlers of its messages and the beacon (rest of s2e.c), sockets, TLS and the event loop (net.c,
  tls.c, aio.c), the update client (cups.c), the configuration of the concentrators (sx130xconf.c, sx1301v2conf.c), the
  calls of the vendor library (ral_lgw.c, ral_lgw2.c, ral_master.c, ral_slave.c), the platform (sys.c, src-linux), the flash file system (fs.c), logs,
  simulation and tests. These are input and output or calls of libraries whose source is not part of the repository.
\<close>

end
